(* ===== verification/CBase.thy ===== *)
theory CBase
  imports "HOL-Library.Word"
begin

text \<open>
  The prelude of the development: how a C run that stops is a value, the two combinators the
  operations are written with, the width conversions of C integers that matter somewhere, and the
  lemmas on lists and words the component theories share.

  A failed \<open>assert\<close> of \<^verbatim>\<open>src/utils/assert2.h\<close> (or of the copy in \<^verbatim>\<open>session.c\<close>) raises
  \<open>SIGABRT\<close>, whose handler is \<open>handle_exit\<close> of \<^verbatim>\<open>src/main.c\<close>: the process ends. An access outside an
  object or through a null pointer has undefined behaviour. Both are the left summand of
  \<open>'a result\<close>; a call that returns is the right one.
\<close>

unbundle bit_operations_syntax

section \<open>Runs that stop\<close>

datatype abort =
    Assert_failed string   \<comment> \<open>the text of the asserted expression\<close>
  | Out_of_bounds string   \<comment> \<open>an access outside the named object\<close>
  | Null_pointer string    \<comment> \<open>a null pointer handed to the named function\<close>
  | Diverges string        \<comment> \<open>the named loop does not end\<close>

type_synonym 'a result = "abort + 'a"

named_theorems res_simps \<open>unfolding of the result combinators\<close>

definition assert_that :: "string \<Rightarrow> bool \<Rightarrow> 'a result \<Rightarrow> 'a result" where
  "assert_that e p k = (if p then k else Inl (Assert_failed e))"

definition in_bounds :: "string \<Rightarrow> bool \<Rightarrow> 'a result \<Rightarrow> 'a result" where
  "in_bounds e p k = (if p then k else Inl (Out_of_bounds e))"

definition and_then :: "'a result \<Rightarrow> ('a \<Rightarrow> 'b result) \<Rightarrow> 'b result" where
  "and_then m k = (case m of Inl e \<Rightarrow> Inl e | Inr x \<Rightarrow> k x)"

definition returns :: "'a result \<Rightarrow> bool" where
  "returns m \<longleftrightarrow> (case m of Inl _ \<Rightarrow> False | Inr _ \<Rightarrow> True)"

lemma assert_that_simps [simp, res_simps]:
  "assert_that e True k = k"
  "assert_that e False k = Inl (Assert_failed e)"
  by (simp_all add: assert_that_def)

lemma in_bounds_simps [simp, res_simps]:
  "in_bounds e True k = k"
  "in_bounds e False k = Inl (Out_of_bounds e)"
  by (simp_all add: in_bounds_def)

lemma and_then_simps [simp, res_simps]:
  "and_then (Inl e) k = Inl e"
  "and_then (Inr x) k = k x"
  by (simp_all add: and_then_def)

lemma returns_simps [simp, res_simps]:
  "returns (Inl e) = False"
  "returns (Inr x) = True"
  by (simp_all add: returns_def)

lemma assert_that_Inr [simp, res_simps]:
  "assert_that e p k = Inr x \<longleftrightarrow> p \<and> k = Inr x"
  by (simp add: assert_that_def)

lemma in_bounds_Inr [simp, res_simps]:
  "in_bounds e p k = Inr x \<longleftrightarrow> p \<and> k = Inr x"
  by (simp add: in_bounds_def)

lemma and_then_Inr [simp, res_simps]:
  "and_then m k = Inr y \<longleftrightarrow> (\<exists>x. m = Inr x \<and> k x = Inr y)"
  by (cases m) auto

lemma and_then_cong [fundef_cong]:
  "m = m' \<Longrightarrow> (\<And>x. m' = Inr x \<Longrightarrow> k x = k' x) \<Longrightarrow> and_then m k = and_then m' k'"
  by (cases m') auto

lemma returns_iff: "returns m \<longleftrightarrow> (\<exists>x. m = Inr x)"
  by (cases m) auto

section \<open>Widths\<close>

text \<open>Conversion of an integer to C's \<open>int\<close>, \<open>unsigned int\<close> and \<open>unsigned long\<close>.\<close>

definition to_int32 :: "int \<Rightarrow> int" where
  "to_int32 n = (n + 2 ^ 31) mod 2 ^ 32 - 2 ^ 31"

definition to_uint32 :: "int \<Rightarrow> int" where
  "to_uint32 n = n mod 2 ^ 32"

definition to_uint64 :: "int \<Rightarrow> int" where
  "to_uint64 n = n mod 2 ^ 64"

lemma to_int32_id: "- (2 ^ 31) \<le> n \<Longrightarrow> n < 2 ^ 31 \<Longrightarrow> to_int32 n = n"
  by (simp add: to_int32_def)

lemma to_int32_range: "- (2 ^ 31) \<le> to_int32 n \<and> to_int32 n < 2 ^ 31"
  using pos_mod_bound [of "2 ^ 32" "n + 2 ^ 31"] pos_mod_sign [of "2 ^ 32" "n + 2 ^ 31"]
  by (simp add: to_int32_def)

lemma to_uint32_id: "0 \<le> n \<Longrightarrow> n < 2 ^ 32 \<Longrightarrow> to_uint32 n = n"
  by (simp add: to_uint32_def)

lemma to_int32_uint32: "to_int32 (to_uint32 n) = to_int32 n"
  unfolding to_int32_def to_uint32_def by (simp add: mod_add_left_eq)

section \<open>Lists used as C arrays\<close>

named_theorems arr_simps \<open>arrays as lists: reads after writes, lengths\<close>

lemmas [arr_simps] = nth_list_update length_list_update

text \<open>The elements in front of a position and those behind it, without the one at it.\<close>

definition remove_nth :: "nat \<Rightarrow> 'a list \<Rightarrow> 'a list" where
  "remove_nth i xs = take i xs @ drop (Suc i) xs"

lemma length_remove_nth [simp]:
  "i < length xs \<Longrightarrow> length (remove_nth i xs) = length xs - 1"
  by (simp add: remove_nth_def)

lemma nth_remove_nth:
  "i < length xs \<Longrightarrow> j < length xs - 1 \<Longrightarrow>
    remove_nth i xs ! j = (if j < i then xs ! j else xs ! Suc j)"
  by (auto simp: remove_nth_def nth_append min_def)

lemma set_remove_nth_subset: "set (remove_nth i xs) \<subseteq> set xs"
  by (auto simp: remove_nth_def dest: in_set_takeD in_set_dropD)

lemma map_remove_nth: "map f (remove_nth i xs) = remove_nth i (map f xs)"
  by (simp add: remove_nth_def take_map drop_map)

lemma distinct_remove_nth:
  assumes "distinct xs"
  shows "distinct (remove_nth i xs)"
proof (cases "i < length xs")
  case True
  then have "xs = take i xs @ xs ! i # drop (Suc i) xs"
    by (simp add: id_take_nth_drop)
  with assms have "distinct (take i xs @ xs ! i # drop (Suc i) xs)" by simp
  then show ?thesis by (simp add: remove_nth_def)
next
  case False
  with assms show ?thesis by (simp add: remove_nth_def)
qed

lemma set_remove_nth:
  assumes "distinct xs" and "i < length xs"
  shows "set (remove_nth i xs) = set xs - {xs ! i}"
proof -
  have eq: "xs = take i xs @ xs ! i # drop (Suc i) xs"
    using assms(2) by (simp add: id_take_nth_drop)
  with assms(1) have "distinct (take i xs @ xs ! i # drop (Suc i) xs)" by simp
  then have "set (take i xs @ xs ! i # drop (Suc i) xs) - {xs ! i}
      = set (take i xs) \<union> set (drop (Suc i) xs)"
    by auto
  then show ?thesis using eq by (simp add: remove_nth_def)
qed

section \<open>Single bits of words\<close>

lemma word_and_bit_neq_0 [simp]:
  "(w :: 'a::len word) AND 2 ^ n \<noteq> 0 \<longleftrightarrow> bit w n"
  by (metis and_exp_eq_0_iff_not_bit)

end
