(* ===== verification/MarkedFds.thy ===== *)
theory MarkedFds
  imports CBase
begin

text \<open>
  \<^verbatim>\<open>src/data_structures/marked_fds.c\<close>: the table by which a worker tells the listener that a
  descriptor is to be closed. \<open>marks\<close> is an array of \<open>int\<close> with one counter per descriptor,
  written with gcc's atomic builtins. The contract is the locale \<open>fd_flags\<close>: the table behaves
  as a finite set of descriptors, over any sequence of fewer than \<open>2 ^ 31\<close> operations.
\<close>

section \<open>The table\<close>

type_synonym marked = "32 word list"

text \<open>\<open>max_count = get_session_max_size() * 2; marks = calloc(max_count, sizeof(int));\<close>\<close>

definition init_marked_fds :: "nat \<Rightarrow> marked" where
  "init_marked_fds session_max_size = replicate (session_max_size * 2) 0"

definition marks_at :: "int \<Rightarrow> marked \<Rightarrow> bool" where
  "marks_at fd marks \<longleftrightarrow> 0 \<le> fd \<and> nat fd < length marks"

text \<open>\<open>__sync_fetch_and_add(&marks[fd], 1)\<close>: the new contents; wrap-around as gcc defines it.\<close>

definition mark :: "int \<Rightarrow> marked \<Rightarrow> marked result" where
  "mark fd marks = in_bounds ''marks'' (marks_at fd marks)
     (Inr (marks[nat fd := marks ! nat fd + 1]))"

definition unmark :: "int \<Rightarrow> marked \<Rightarrow> marked result" where
  "unmark fd marks = in_bounds ''marks'' (marks_at fd marks)
     (Inr (marks[nat fd := marks ! nat fd AND 0]))"

definition is_marked :: "int \<Rightarrow> marked \<Rightarrow> bool result" where
  "is_marked fd marks = in_bounds ''marks'' (marks_at fd marks)
     (Inr (0 < sint (marks ! nat fd)))"

lemmas marks_defs = mark_def unmark_def is_marked_def

section \<open>The contract: a set of descriptors\<close>

datatype mark_op = Mark int | Unmark int

primrec op_fd :: "mark_op \<Rightarrow> int" where
  "op_fd (Mark fd) = fd"
| "op_fd (Unmark fd) = fd"

fun run_marks ::
  "(int \<Rightarrow> 'm \<Rightarrow> 'm result) \<Rightarrow> (int \<Rightarrow> 'm \<Rightarrow> 'm result) \<Rightarrow> mark_op list \<Rightarrow> 'm \<Rightarrow> 'm result"
where
  "run_marks put clear [] m = Inr m"
| "run_marks put clear (Mark fd # ops) m = and_then (put fd m) (run_marks put clear ops)"
| "run_marks put clear (Unmark fd # ops) m = and_then (clear fd m) (run_marks put clear ops)"

fun spec_marks :: "mark_op list \<Rightarrow> int set \<Rightarrow> int set" where
  "spec_marks [] S = S"
| "spec_marks (Mark fd # ops) S = spec_marks ops (insert fd S)"
| "spec_marks (Unmark fd # ops) S = spec_marks ops (S - {fd})"

text \<open>
  \<open>level k m\<close>: no counter of \<open>m\<close> is above \<open>k\<close>; a mark may raise it by one, and a counter at
  \<open>bound\<close> cannot be raised any more. \<open>keys m\<close> are the descriptors the table has room for.
\<close>

locale fd_flags =
  fixes level :: "nat \<Rightarrow> 'm \<Rightarrow> bool"
    and keys :: "'m \<Rightarrow> int set"
    and contents :: "'m \<Rightarrow> int set"
    and bound :: nat
    and put :: "int \<Rightarrow> 'm \<Rightarrow> 'm result"
    and clear :: "int \<Rightarrow> 'm \<Rightarrow> 'm result"
    and test :: "int \<Rightarrow> 'm \<Rightarrow> bool result"
  assumes put_law: "level k m \<Longrightarrow> k < bound \<Longrightarrow> fd \<in> keys m \<Longrightarrow>
      \<exists>m'. put fd m = Inr m' \<and> level (Suc k) m' \<and> keys m' = keys m \<and>
           contents m' = insert fd (contents m)"
    and clear_law: "level k m \<Longrightarrow> fd \<in> keys m \<Longrightarrow>
      \<exists>m'. clear fd m = Inr m' \<and> level k m' \<and> keys m' = keys m \<and>
           contents m' = contents m - {fd}"
    and test_law: "fd \<in> keys m \<Longrightarrow> test fd m = Inr (fd \<in> contents m)"
    and level_mono: "level k m \<Longrightarrow> k \<le> k' \<Longrightarrow> level k' m"
begin

lemma run_contents:
  assumes "level k m" and "k + length ops \<le> bound" and "op_fd ` set ops \<subseteq> keys m"
  shows "\<exists>m'. run_marks put clear ops m = Inr m' \<and> keys m' = keys m \<and>
           contents m' = spec_marks ops (contents m)"
  using assms
proof (induction ops arbitrary: m k)
  case Nil
  then show ?case by simp
next
  case (Cons x ops)
  show ?case
  proof (cases x)
    case (Mark fd)
    with Cons.prems put_law [of k m fd] obtain m' where
      "put fd m = Inr m'" "level (Suc k) m'" "keys m' = keys m"
      "contents m' = insert fd (contents m)"
      by auto
    with Mark Cons.prems Cons.IH [of "Suc k" m'] show ?thesis by auto
  next
    case (Unmark fd)
    with Cons.prems clear_law [of k m fd] obtain m' where
      "clear fd m = Inr m'" "level k m'" "keys m' = keys m"
      "contents m' = contents m - {fd}"
      by auto
    with Unmark Cons.prems Cons.IH [of k m'] show ?thesis by auto
  qed
qed

lemma run_test:
  assumes "level k m" and "k + length ops \<le> bound" and "op_fd ` set ops \<subseteq> keys m"
    and "fd \<in> keys m"
  shows "\<exists>m'. run_marks put clear ops m = Inr m' \<and>
           test fd m' = Inr (fd \<in> spec_marks ops (contents m))"
  using run_contents [OF assms(1-3)] test_law assms(4) by metis

end

section \<open>The table keeps the contract\<close>

definition marks_level :: "nat \<Rightarrow> marked \<Rightarrow> bool" where
  "marks_level k m \<longleftrightarrow> (\<forall>w \<in> set m. 0 \<le> sint w \<and> sint w \<le> int k)"

definition marks_keys :: "marked \<Rightarrow> int set" where
  "marks_keys m = {fd. marks_at fd m}"

definition marks_contents :: "marked \<Rightarrow> int set" where
  "marks_contents m = {fd. marks_at fd m \<and> 0 < sint (m ! nat fd)}"

lemma marks_level_nth: "marks_level k m \<Longrightarrow> marks_at fd m \<Longrightarrow>
    0 \<le> sint (m ! nat fd) \<and> sint (m ! nat fd) \<le> int k"
  by (simp add: marks_level_def marks_at_def)

lemma sint_succ:
  fixes w :: "32 word"
  assumes "0 \<le> sint w" and "sint w < 2 ^ 31 - 1"
  shows "sint (w + 1) = sint w + 1"
proof -
  have "sint (w + 1) = signed_take_bit 31 (sint w + sint (1 :: 32 word))"
    by (simp add: signed_take_bit_add sint_word_ariths)
  also have "\<dots> = sint w + 1"
    using assms by (simp add: signed_take_bit_int_eq_self_iff)
  finally show ?thesis .
qed

lemma marks_level_update:
  "marks_level k m \<Longrightarrow> k \<le> k' \<Longrightarrow> 0 \<le> sint w \<Longrightarrow> sint w \<le> int k' \<Longrightarrow> marks_level k' (m[i := w])"
  by (auto simp: marks_level_def dest!: set_update_subset_insert [THEN subsetD])

interpretation marks: fd_flags marks_level marks_keys marks_contents "2 ^ 31 - 1" mark unmark is_marked
proof unfold_locales
  fix k :: nat and m :: marked and fd :: int
  assume lev: "marks_level k m" and k: "k < 2 ^ 31 - 1" and key: "fd \<in> marks_keys m"
  let ?w = "m ! nat fd"
  from key have fd: "marks_at fd m" by (simp add: marks_keys_def)
  from marks_level_nth [OF lev fd] k have inc: "sint (?w + 1) = sint ?w + 1"
    by (intro sint_succ) auto
  let ?m = "m[nat fd := ?w + 1]"
  have "mark fd m = Inr ?m" using fd by (simp add: mark_def)
  moreover have "marks_level (Suc k) ?m"
    using marks_level_nth [OF lev fd] inc by (intro marks_level_update [OF lev]) auto
  moreover have "marks_keys ?m = marks_keys m"
    by (simp add: marks_keys_def marks_at_def)
  moreover have "marks_contents ?m = insert fd (marks_contents m)"
    using fd marks_level_nth [OF lev fd] inc
    by (auto simp: marks_contents_def marks_at_def nth_list_update)
  ultimately show "\<exists>m'. mark fd m = Inr m' \<and> marks_level (Suc k) m' \<and>
      marks_keys m' = marks_keys m \<and> marks_contents m' = insert fd (marks_contents m)"
    by blast
next
  fix k :: nat and m :: marked and fd :: int
  assume lev: "marks_level k m" and key: "fd \<in> marks_keys m"
  from key have fd: "marks_at fd m" by (simp add: marks_keys_def)
  let ?m = "m[nat fd := m ! nat fd AND 0]"
  have "unmark fd m = Inr ?m" using fd by (simp add: unmark_def)
  moreover have "marks_level k ?m"
    by (rule marks_level_update [OF lev]) simp_all
  moreover have "marks_keys ?m = marks_keys m"
    by (simp add: marks_keys_def marks_at_def)
  moreover have "marks_contents ?m = marks_contents m - {fd}"
    using fd by (auto simp: marks_contents_def marks_at_def nth_list_update)
  ultimately show "\<exists>m'. unmark fd m = Inr m' \<and> marks_level k m' \<and>
      marks_keys m' = marks_keys m \<and> marks_contents m' = marks_contents m - {fd}"
    by blast
next
  fix m :: marked and fd :: int
  assume "fd \<in> marks_keys m"
  then show "is_marked fd m = Inr (fd \<in> marks_contents m)"
    by (simp add: is_marked_def marks_keys_def marks_contents_def)
next
  fix k k' :: nat and m :: marked
  assume "marks_level k m" and "k \<le> k'"
  then show "marks_level k' m" by (force simp: marks_level_def)
qed

lemma init_marks [simp]:
  "marks_level 0 (init_marked_fds n)"
  "marks_contents (init_marked_fds n) = {}"
  "marks_keys (init_marked_fds n) = {0 ..< 2 * int n}"
  by (auto simp: init_marked_fds_def marks_level_def marks_contents_def marks_keys_def marks_at_def)

section \<open>Properties\<close>

text \<open>
  C26: Over any sequence of fewer than 2^31 \<open>mark\<close> and \<open>unmark\<close> calls on descriptors the table
  has room for, starting from \<open>init_marked_fds\<close>, no call leaves the table, and \<open>is_marked\<close>
  then answers as the finite set does in which \<open>mark\<close> inserts and \<open>unmark\<close> removes.
\<close>

theorem marks_refine_set:
  assumes "length ops < 2 ^ 31" and "op_fd ` set ops \<subseteq> {0 ..< 2 * int n}"
    and "fd \<in> {0 ..< 2 * int n}"
  shows "\<exists>m. run_marks mark unmark ops (init_marked_fds n) = Inr m \<and>
           is_marked fd m = Inr (fd \<in> spec_marks ops {})"
  using marks.run_test [of 0 "init_marked_fds n" ops fd] assms by auto

theorem marks_refine_set_witness:
  "\<exists>m. run_marks mark unmark [Mark 5, Mark 6, Unmark 5, Mark 6] (init_marked_fds 4) = Inr m \<and>
     is_marked 6 m = Inr (6 \<in> spec_marks [Mark 5, Mark 6, Unmark 5, Mark 6] {})"
  by (rule marks_refine_set) auto

text \<open>
  The table holds \<open>2 * session_max_size\<close> counters and no operation checks the descriptor:
  \<open>mark\<close>, \<open>unmark\<close> and \<open>is_marked\<close> on a descriptor at or above that bound, which the
  asserted range \<open>0 < fd < 16384\<close> of the callers allows, access memory outside the table.
\<close>

lemma marks_unchecked:
  assumes "2 * int n \<le> fd" and "length m = length (init_marked_fds n)"
  shows "mark fd m = Inl (Out_of_bounds ''marks'') \<and> unmark fd m = Inl (Out_of_bounds ''marks'') \<and>
         is_marked fd m = Inl (Out_of_bounds ''marks'')"
proof -
  have "\<not> marks_at fd m" using assms by (auto simp: marks_at_def init_marked_fds_def)
  then show ?thesis by (simp add: marks_defs)
qed

end
