(* ===== verification/Buffer.thy ===== *)
theory Buffer
  imports CBase
begin

text \<open>
  \<^verbatim>\<open>src/data_structures/buffer.c\<close>: the growable byte buffer every request and response lives in.
  \<open>capacity\<close> and \<open>count\<close> are \<open>unsigned long\<close>, the doubling wraps at \<open>2 ^ 64\<close>, and the returned
  capacity is cut to \<open>int\<close>. The memory behind \<open>data\<close> is a list of bytes of the allocated length,
  \<open>None\<close> for \<open>NULL\<close>. Whether an allocation succeeds and what fresh \<open>realloc\<close> memory holds is not
  determined by the program: the record \<open>libc\<close> is an argument, and the theorems hold for any.
\<close>

section \<open>Memory from the C library\<close>

record libc =
  alloc_ok :: "nat \<Rightarrow> bool"   \<comment> \<open>does an allocation of that many bytes succeed\<close>
  junk :: "nat \<Rightarrow> char"       \<comment> \<open>what a byte holds that was allocated and never written\<close>

abbreviation NUL :: char where
  "NUL \<equiv> CHR 0x00"

definition realloc_bytes :: "libc \<Rightarrow> string option \<Rightarrow> nat \<Rightarrow> string option" where
  "realloc_bytes L old n =
     (if alloc_ok L n
      then Some (case old of None \<Rightarrow> map (junk L) [0..<n]
                 | Some d \<Rightarrow> take n d @ map (junk L) [length d..<n])
      else None)"

section \<open>The operations\<close>

record buffer =
  capacity :: nat
  count :: nat
  data :: "string option"

abbreviation DEFAULT_BUFFER_SIZE :: nat where
  "DEFAULT_BUFFER_SIZE \<equiv> 1024"

definition init_buffer :: "libc \<Rightarrow> nat \<Rightarrow> buffer option" where
  "init_buffer L initial_capacity =
     (if \<not> alloc_ok L 24 then None
      else let c = (if initial_capacity < DEFAULT_BUFFER_SIZE then DEFAULT_BUFFER_SIZE
                    else initial_capacity)
           in if alloc_ok L c
              then Some \<lparr>capacity = c, count = 0, data = Some (replicate c NUL)\<rparr>
              else None)"

text \<open>
  The \<open>while\<close> loop of \<open>ensure_capacity_\<close>. It need not end (a doubling that wraps to 0 starts
  over), so not ending is the value \<open>None\<close>.
\<close>

partial_function (option) grow_capacity :: "nat \<Rightarrow> nat \<Rightarrow> nat option" where
  "grow_capacity cap wanted =
     (if cap < wanted
      then grow_capacity (if cap < DEFAULT_BUFFER_SIZE then DEFAULT_BUFFER_SIZE
                          else cap * 2 mod 2 ^ 64) wanted
      else Some cap)"

declare grow_capacity.simps [code]

definition ensure_capacity :: "libc \<Rightarrow> buffer \<Rightarrow> nat \<Rightarrow> (int \<times> buffer) result" where
  "ensure_capacity L b wanted =
     (case grow_capacity (capacity b) wanted of
        None \<Rightarrow> Inl (Diverges ''ensure_capacity_'')
      | Some c \<Rightarrow>
          if capacity b < c
          then (case realloc_bytes L (data b) c of
                  None \<Rightarrow> Inr (-1, b\<lparr>capacity := c, data := None\<rparr>)
                | Some d \<Rightarrow> Inr (to_int32 (int c), b\<lparr>capacity := c, data := Some d\<rparr>))
          else Inr (to_int32 (int c), b\<lparr>capacity := c\<rparr>))"

text \<open>\<open>assert(ENSURE_CAPACITY(buffer, n) > 0)\<close>, the form every caller but \<open>copy_buffer\<close> uses.\<close>

definition assert_capacity :: "libc \<Rightarrow> buffer \<Rightarrow> nat \<Rightarrow> buffer result" where
  "assert_capacity L b wanted =
     and_then (ensure_capacity L b wanted)
       (\<lambda>(r, b'). assert_that ''ENSURE_CAPACITY > 0'' (0 < r) (Inr b'))"

text \<open>Stores of bytes into the memory of a buffer, with the bounds of the allocation.\<close>

definition write_bytes :: "nat \<Rightarrow> string \<Rightarrow> buffer \<Rightarrow> buffer result" where
  "write_bytes off xs b =
     (case data b of
        None \<Rightarrow> Inl (Null_pointer ''data'')
      | Some d \<Rightarrow> in_bounds ''data'' (off + length xs \<le> length d)
          (Inr (b\<lparr>data := Some (take off d @ xs @ drop (off + length xs) d)\<rparr>)))"

text \<open>A read of the first bytes.\<close>

definition read_bytes :: "nat \<Rightarrow> buffer \<Rightarrow> string result" where
  "read_bytes n b =
     (case data b of
        None \<Rightarrow> Inl (Null_pointer ''data'')
      | Some d \<Rightarrow> in_bounds ''data'' (n \<le> length d) (Inr (take n d)))"

text \<open>\<open>snprintf(dest->data + off, dest->capacity - off, ...)\<close> of a text, cut off to the room there is.\<close>

definition snprintf_at :: "nat \<Rightarrow> string \<Rightarrow> buffer \<Rightarrow> buffer result" where
  "snprintf_at off xs b =
     (let room = nat (to_uint64 (int (capacity b) - int off))
      in if room = 0 then Inr b else write_bytes off (take (room - 1) xs @ [NUL]) b)"

definition copy_buffer :: "libc \<Rightarrow> buffer \<Rightarrow> buffer \<Rightarrow> (int \<times> buffer) result" where
  "copy_buffer L dest src =
     and_then (ensure_capacity L dest (count src)) (\<lambda>(result, dest').
       if result < 0 then Inr (-1, dest')
       else (case data src of
               None \<Rightarrow> Inl (Null_pointer ''memcpy'')
             | Some d \<Rightarrow> in_bounds ''src'' (count src \<le> length d)
                 (and_then (write_bytes 0 (take (count src) d) dest') (\<lambda>dest''.
                    Inr (to_int32 (int (count src)), dest''\<lparr>count := count src\<rparr>)))))"

text \<open>A buffer whose memory has the size its \<open>capacity\<close> says.\<close>

definition buffer_wf :: "buffer \<Rightarrow> bool" where
  "buffer_wf b \<longleftrightarrow> (case data b of None \<Rightarrow> capacity b = 0 | Some d \<Rightarrow> length d = capacity b) \<and>
     count b \<le> capacity b"

definition bytes :: "buffer \<Rightarrow> string" where
  "bytes b = (case data b of None \<Rightarrow> [] | Some d \<Rightarrow> d)"

lemma buffer_wf_length: "buffer_wf b \<Longrightarrow> length (bytes b) = capacity b"
  by (auto simp: buffer_wf_def bytes_def split: option.splits)

lemma buffer_wf_data: "buffer_wf b \<Longrightarrow> 0 < capacity b \<Longrightarrow> data b \<noteq> None"
  by (auto simp: buffer_wf_def split: option.splits)

section \<open>The growth loop\<close>

text \<open>
  Up to a request of \<open>2 ^ 63\<close> bytes the loop ends, never wraps, never shrinks the capacity and
  stops below twice the request (or at the default size).
\<close>

lemma grow_capacity_terminates:
  assumes "wanted \<le> 2 ^ 63"
  shows "\<exists>c. grow_capacity cap wanted = Some c \<and> wanted \<le> c \<and> cap \<le> c \<and>
           (c = cap \<or> c = DEFAULT_BUFFER_SIZE \<or> c < 2 * wanted)"
proof (induction "wanted - cap" arbitrary: cap rule: less_induct)
  case less
  show ?case
  proof (cases "cap < wanted")
    case False
    then show ?thesis by (subst grow_capacity.simps) simp
  next
    case True
    define n where "n = (if cap < DEFAULT_BUFFER_SIZE then DEFAULT_BUFFER_SIZE else cap * 2)"
    have nowrap: "cap * 2 mod 2 ^ 64 = cap * 2" using True assms by simp
    have up: "cap < n" "n = DEFAULT_BUFFER_SIZE \<or> n < 2 * wanted" using True by (auto simp: n_def)
    have "wanted - n < wanted - cap" using True up by linarith
    from less [OF this] obtain c where c: "grow_capacity n wanted = Some c" "wanted \<le> c" "n \<le> c"
      "c = n \<or> c = DEFAULT_BUFFER_SIZE \<or> c < 2 * wanted"
      by blast
    have "grow_capacity cap wanted = grow_capacity n wanted"
      using True by (subst grow_capacity.simps) (simp only: n_def nowrap if_True)
    with c up show ?thesis by auto
  qed
qed

text \<open>Above \<open>2 ^ 63\<close> it never ends: the capacities run through the powers of two and wrap to 0.\<close>

lemma grow_capacity_never:
  assumes ret: "grow_capacity cap wanted = Some c"
  shows "2 ^ 63 < wanted \<Longrightarrow> cap \<noteq> 0 \<and> (\<forall>k \<le> 63. cap \<noteq> 2 ^ k)"
proof (rule grow_capacity.raw_induct
    [where P = "\<lambda>cap wanted c. 2 ^ 63 < wanted \<longrightarrow> cap \<noteq> 0 \<and> (\<forall>k \<le> 63. cap \<noteq> 2 ^ k)",
     OF _ ret, THEN mp])
  fix f :: "nat \<Rightarrow> nat \<Rightarrow> nat option" and cap wanted c :: nat
  let ?n = "if cap < DEFAULT_BUFFER_SIZE then DEFAULT_BUFFER_SIZE else cap * 2 mod 2 ^ 64"
  assume IH: "\<And>cap wanted c. f cap wanted = Some c \<Longrightarrow>
      2 ^ 63 < wanted \<longrightarrow> cap \<noteq> 0 \<and> (\<forall>k \<le> 63. cap \<noteq> 2 ^ k)"
    and eq: "(if cap < wanted then f ?n wanted else Some cap) = Some c"
  show "2 ^ 63 < wanted \<longrightarrow> cap \<noteq> 0 \<and> (\<forall>k \<le> 63. cap \<noteq> 2 ^ k)"
  proof (rule impI, rule ccontr)
    assume big: "2 ^ 63 < wanted" and "\<not> (cap \<noteq> 0 \<and> (\<forall>k \<le> 63. cap \<noteq> 2 ^ k))"
    then consider "cap = 0" | k where "k \<le> 63" "cap = 2 ^ k" by blast
    then have step: "cap < wanted \<and> (?n = 0 \<or> (\<exists>k \<le> 63. ?n = 2 ^ k))"
    proof cases
      case 1
      have "?n = 2 ^ 10" using 1 by simp
      then show ?thesis using 1 big by (intro conjI disjI2 exI [of _ 10]) auto
    next
      case 2
      have le: "cap \<le> 2 ^ 63" using 2 power_increasing [of k 63 "2::nat"] by simp
      consider "cap < DEFAULT_BUFFER_SIZE" | "DEFAULT_BUFFER_SIZE \<le> cap" "k < 63"
        | "DEFAULT_BUFFER_SIZE \<le> cap" "k = 63"
        using 2(1) by linarith
      then have "?n = 0 \<or> (\<exists>k \<le> 63. ?n = 2 ^ k)"
      proof cases
        case 1
        then have "?n = 2 ^ 10" by simp
        then show ?thesis by (intro disjI2 exI [of _ 10]) simp
      next
        case k: 2
        have "(2::nat) ^ Suc k < 2 ^ 64" using k(2) by (intro power_strict_increasing) auto
        then have "(2::nat) ^ Suc k mod 2 ^ 64 = 2 ^ Suc k" by (rule mod_less)
        moreover have "cap * 2 = 2 ^ Suc k" using 2(2) by simp
        moreover have "?n = cap * 2 mod 2 ^ 64" using k(1) by (intro if_not_P) (simp only: not_less)
        ultimately have "?n = 2 ^ Suc k" by (simp only:)
        moreover have "Suc k \<le> 63" using k(2) by simp
        ultimately show ?thesis by blast
      next
        case 3
        then show ?thesis using 2(2) by simp
      qed
      moreover have "cap < wanted" using le big by simp
      ultimately show ?thesis by blast
    qed
    then have less: "cap < wanted" by (rule conjunct1)
    have "f ?n wanted = Some c" using eq unfolding if_P [OF less] .
    from IH [OF this] big have nz: "?n \<noteq> 0" "\<And>k. k \<le> 63 \<Longrightarrow> ?n \<noteq> 2 ^ k"
      by (auto simp del: power_Suc split del: if_split)
    from conjunct2 [OF step] show False
    proof (elim disjE exE conjE)
      assume "?n = 0"
      with nz(1) show False by (rule notE)
    next
      fix k :: nat assume k: "k \<le> 63" and n: "?n = 2 ^ k"
      from n show False by (rule notE [OF nz(2) [OF k]])
    qed
  qed
qed

section \<open>Growing and writing\<close>

lemma realloc_bytes_Some:
  assumes "realloc_bytes L old n = Some d"
  shows "length d = n" and "old = Some d0 \<Longrightarrow> length d0 \<le> n \<Longrightarrow> take (length d0) d = d0"
  using assms by (auto simp: realloc_bytes_def split: if_splits option.splits)

lemma assert_capacity_Inr:
  assumes wf: "buffer_wf b" and ret: "assert_capacity L b n = Inr b'"
  shows "buffer_wf b'" and "n \<le> capacity b'" and "capacity b \<le> capacity b'"
    and "count b' = count b" and "take (capacity b) (bytes b') = bytes b"
    and "0 < capacity b'"
proof -
  from ret obtain r where r: "ensure_capacity L b n = Inr (r, b')" "0 < r"
    by (auto simp: assert_capacity_def)
  then obtain c where c: "grow_capacity (capacity b) n = Some c"
    by (auto simp: ensure_capacity_def split: option.splits)
  have "n \<le> c \<and> capacity b \<le> c"
  proof (cases "n \<le> 2 ^ 63")
    case True
    with grow_capacity_terminates [of n "capacity b"] c show ?thesis by auto
  next
    case False
    text \<open>An \<open>unsigned long\<close> above \<open>2 ^ 63\<close>: where the loop ends at all, its guard failed.\<close>
    have "n \<le> c"
      by (rule grow_capacity.raw_induct [where P = "\<lambda>cap n c. n \<le> c", OF _ c])
        (auto split: if_splits)
    moreover have "capacity b \<le> c" if "\<not> capacity b < n"
      using c that by (subst (asm) grow_capacity.simps) simp
    ultimately show ?thesis by linarith
  qed
  then have nc: "n \<le> c" "capacity b \<le> c" by auto
  have cases: "(capacity b < c \<and> (\<exists>d. realloc_bytes L (data b) c = Some d \<and>
        b' = b\<lparr>capacity := c, data := Some d\<rparr>)) \<or> (capacity b = c \<and> b' = b)"
    using r c nc by (auto simp: ensure_capacity_def split: option.splits if_splits)
  have "r = to_int32 (int c) \<or> r = -1" using r c
    by (auto simp: ensure_capacity_def split: option.splits if_splits)
  with r(2) have pos: "0 < c" by (cases c) (auto simp: to_int32_def)
  from cases wf nc pos show "buffer_wf b'" "n \<le> capacity b'" "capacity b \<le> capacity b'"
    "count b' = count b" "0 < capacity b'"
    by (auto simp: buffer_wf_def dest!: realloc_bytes_Some(1) split: option.splits)
  from cases wf nc show "take (capacity b) (bytes b') = bytes b"
    by (auto simp: buffer_wf_def bytes_def split: option.splits
        dest: realloc_bytes_Some(2))
qed

lemma write_bytes_Inr:
  assumes "buffer_wf b" and "write_bytes off xs b = Inr b'"
  shows "buffer_wf b'" and "capacity b' = capacity b" and "count b' = count b"
    and "bytes b' = take off (bytes b) @ xs @ drop (off + length xs) (bytes b)"
  using assms by (auto simp: write_bytes_def buffer_wf_def bytes_def split: option.splits)

lemma write_bytes_returns:
  assumes "buffer_wf b" and "0 < capacity b" and "off + length xs \<le> capacity b"
  shows "\<exists>b'. write_bytes off xs b = Inr b'"
  using assms by (auto simp: write_bytes_def buffer_wf_def split: option.splits)

text \<open>A request that fits an \<open>int\<close> is granted whenever memory can be had.\<close>

lemma ensure_capacity_grants:
  assumes "\<And>m. alloc_ok L m" and "capacity b < 2 ^ 31" and "n \<le> 2 ^ 30"
  shows "\<exists>r b'. ensure_capacity L b n = Inr (r, b') \<and> r = int (capacity b')"
proof -
  from grow_capacity_terminates [of n "capacity b"] assms(3) obtain c where
    c: "grow_capacity (capacity b) n = Some c"
    "c = capacity b \<or> c = DEFAULT_BUFFER_SIZE \<or> c < 2 * n" by auto
  have "c < 2 ^ 31" using c(2) assms(2,3) by auto
  then have "to_int32 (int c) = int c" by (intro to_int32_id) auto
  with c(1) assms(1) show ?thesis
    by (auto simp: ensure_capacity_def realloc_bytes_def split: option.splits)
qed

lemma assert_capacity_returns:
  assumes "\<And>m. alloc_ok L m" and "buffer_wf b" and "capacity b < 2 ^ 31" and "n \<le> 2 ^ 30"
    and "0 < n \<or> 0 < capacity b"
  shows "\<exists>b'. assert_capacity L b n = Inr b'"
proof -
  from ensure_capacity_grants [OF assms(1,3,4)] obtain r b' where
    r: "ensure_capacity L b n = Inr (r, b')" "r = int (capacity b')" by blast
  from grow_capacity_terminates [of n "capacity b"] assms(4) obtain c where
    c: "grow_capacity (capacity b) n = Some c" "n \<le> c" "capacity b \<le> c" by auto
  have "capacity b' = c" using r(1) c(1)
    by (auto simp: ensure_capacity_def split: option.splits if_splits)
  with c assms(5) r show ?thesis by (auto simp: assert_capacity_def)
qed

section \<open>The contract of a growable store\<close>

text \<open>
  What every client of \<^verbatim>\<open>buffer.c\<close> relies on: a reservation keeps what is stored and makes room, a
  store inside the room succeeds and changes nothing else. \<open>put\<close> is the clients' idiom, a
  reservation followed by a store at an offset.
\<close>

definition put :: "('b \<Rightarrow> nat \<Rightarrow> 'b result) \<Rightarrow> (nat \<Rightarrow> string \<Rightarrow> 'b \<Rightarrow> 'b result) \<Rightarrow>
    nat \<Rightarrow> nat \<Rightarrow> string \<Rightarrow> 'b \<Rightarrow> 'b result" where
  "put reserve store off room xs b = and_then (reserve b (off + room)) (store off xs)"

locale byte_store =
  fixes inv :: "'b \<Rightarrow> bool" and cap :: "'b \<Rightarrow> nat" and mem :: "'b \<Rightarrow> string"
    and reserve :: "'b \<Rightarrow> nat \<Rightarrow> 'b result"
    and store :: "nat \<Rightarrow> string \<Rightarrow> 'b \<Rightarrow> 'b result"
  assumes inv_length: "inv b \<Longrightarrow> length (mem b) = cap b"
    and reserve_law: "inv b \<Longrightarrow> reserve b n = Inr b' \<Longrightarrow>
      inv b' \<and> n \<le> cap b' \<and> cap b \<le> cap b' \<and> 0 < cap b' \<and> take (cap b) (mem b') = mem b"
    and store_law: "inv b \<Longrightarrow> store off xs b = Inr b' \<Longrightarrow>
      inv b' \<and> cap b' = cap b \<and> mem b' = take off (mem b) @ xs @ drop (off + length xs) (mem b)"
    and store_returns: "inv b \<Longrightarrow> 0 < cap b \<Longrightarrow> off + length xs \<le> cap b \<Longrightarrow> \<exists>b'. store off xs b = Inr b'"
begin

lemma put_prefix:
  assumes "inv b" and "off \<le> cap b" and "put reserve store off room xs b = Inr b'"
  shows "inv b' \<and> cap b \<le> cap b' \<and> off + length xs \<le> cap b' \<and>
    take (off + length xs) (mem b') = take off (mem b) @ xs"
proof -
  from assms(3) obtain b1 where b1: "reserve b (off + room) = Inr b1" "store off xs b1 = Inr b'"
    by (auto simp: put_def)
  from reserve_law [OF assms(1) b1(1)] have r: "inv b1" "cap b \<le> cap b1"
    "take (cap b) (mem b1) = mem b" by auto
  from store_law [OF r(1) b1(2)] have s: "inv b'" "cap b' = cap b1"
    "mem b' = take off (mem b1) @ xs @ drop (off + length xs) (mem b1)" by auto
  have off: "off \<le> length (mem b1)" using inv_length [OF r(1)] r(2) assms(2) by simp
  have "take off (mem b1) = take off (mem b)"
    using r(3) assms(2) by (metis min.absorb1 take_take)
  moreover have "off + length xs \<le> cap b'"
    using inv_length [OF s(1)] s(3) off by simp
  ultimately show ?thesis
    using s r off assms(2) inv_length [OF assms(1)] by simp
qed

lemma put_returns:
  assumes "inv b" and "length xs \<le> room" and "reserve b (off + room) = Inr b1"
  shows "\<exists>b'. put reserve store off room xs b = Inr b'"
proof -
  from reserve_law [OF assms(1,3)] have "inv b1" "0 < cap b1" "off + length xs \<le> cap b1"
    using assms(2) by auto
  from store_returns [OF this] assms(3) show ?thesis by (simp add: put_def)
qed

end

interpretation store: byte_store buffer_wf capacity bytes "assert_capacity L" write_bytes for L :: libc
proof (unfold_locales, goal_cases)
  case 1
  then show ?case by (rule buffer_wf_length)
next
  case 2
  from assert_capacity_Inr [OF this] show ?case by simp
next
  case 3
  from write_bytes_Inr [OF this] show ?case by simp
next
  case 4
  then show ?case by (rule write_bytes_returns)
qed

lemma assert_capacity_small:
  assumes "capacity b < 2 ^ 31" and "n \<le> 2 ^ 30" and "assert_capacity L b n = Inr b'"
  shows "capacity b' < 2 ^ 31"
proof -
  obtain c where "grow_capacity (capacity b) n = Some c"
    "c = capacity b \<or> c = DEFAULT_BUFFER_SIZE \<or> c < 2 * n"
    using grow_capacity_terminates [of n "capacity b"] assms(2) by auto
  moreover from this(1) have "capacity b' = c" using assms(3)
    by (auto simp: assert_capacity_def ensure_capacity_def split: option.splits if_splits)
  ultimately show ?thesis using assms by auto
qed

lemma snprintf_at_write:
  assumes "off + length xs < capacity b" and "capacity b < 2 ^ 63"
  shows "snprintf_at off xs b = write_bytes off (xs @ [NUL]) b"
proof -
  have "nat (to_uint64 (int (capacity b) - int off)) = capacity b - off"
    and "length xs < capacity b - off" and "off < capacity b"
    using assms by (auto simp: to_uint64_def)
  then show ?thesis by (simp add: snprintf_at_def Let_def)
qed

text \<open>A text printed into its reservation stands behind what was there.\<close>

lemma snprintf_prefix:
  assumes wf: "buffer_wf b" "capacity b < 2 ^ 31" and mem: "\<And>m. alloc_ok L m"
    and room: "length xs < room" "off + room \<le> 2 ^ 30" and off: "off \<le> capacity b"
  shows "\<exists>b1 b'. assert_capacity L b (off + room) = Inr b1 \<and> snprintf_at off xs b1 = Inr b' \<and>
    buffer_wf b' \<and> capacity b' < 2 ^ 31 \<and> off + room \<le> capacity b' \<and> count b' = count b \<and>
    take (off + length xs) (bytes b') = take off (bytes b) @ xs \<and>
    take (off + length xs + 1) (bytes b') = take off (bytes b) @ xs @ [NUL]"
proof -
  obtain b1 where b1: "assert_capacity L b (off + room) = Inr b1"
    using assert_capacity_returns [OF mem wf, of "off + room"] room by auto
  note small = assert_capacity_small [OF wf(2) room(2) b1] and b1s = assert_capacity_Inr [OF wf(1) b1]
  have eq: "snprintf_at off xs b1 = write_bytes off (xs @ [NUL]) b1"
    using small room(1) b1s(2) by (intro snprintf_at_write) auto
  obtain b' where b': "put (assert_capacity L) write_bytes off room (xs @ [NUL]) b = Inr b'"
    using store.put_returns [OF wf(1) _ b1, of "xs @ [NUL]"] room(1) by auto
  then have w0: "write_bytes off (xs @ [NUL]) b1 = Inr b'" using b1 by (simp add: put_def)
  note w = write_bytes_Inr [OF b1s(1) w0]
  from store.put_prefix [OF wf(1) off b'] have
    "take (off + length (xs @ [NUL])) (bytes b') = take off (bytes b) @ xs @ [NUL]"
    by simp
  then have nul: "take (off + length xs + 1) (bytes b') = take off (bytes b) @ xs @ [NUL]" by simp
  then have "take (off + length xs) (take (off + length xs + 1) (bytes b')) =
      take (off + length xs) (take off (bytes b) @ xs @ [NUL])" by simp
  moreover have "length (take off (bytes b)) = off" using off buffer_wf_length [OF wf(1)] by simp
  ultimately have "take (off + length xs) (bytes b') = take off (bytes b) @ xs"
    by (simp add: min_def)
  then show ?thesis using b1 w0 eq w b1s small nul by auto
qed

text \<open>
  \<open>copy_buffer\<close> makes the destination hold exactly the source's counted bytes.
\<close>

lemma copy_buffer_value:
  assumes "\<And>m. alloc_ok L m" and "buffer_wf dest" and "buffer_wf src" and "data src \<noteq> None"
    and "data dest \<noteq> None" and "capacity dest < 2 ^ 31" and "count src \<le> 2 ^ 30"
  shows "\<exists>d. copy_buffer L dest src = Inr (int (count src), d) \<and> buffer_wf d \<and>
           data d \<noteq> None \<and> capacity dest \<le> capacity d \<and> capacity d < 2 ^ 31 \<and>
           (count src \<le> capacity dest \<longrightarrow> capacity d = capacity dest) \<and> count d = count src \<and> take (count src) (bytes d) = take (count src) (bytes src)"
proof -
  from ensure_capacity_grants [OF assms(1,6,7)] obtain r d1 where
    r: "ensure_capacity L dest (count src) = Inr (r, d1)" "r = int (capacity d1)" by blast
  from grow_capacity_terminates [of "count src" "capacity dest"] assms(7) obtain c where
    c: "grow_capacity (capacity dest) (count src) = Some c" "count src \<le> c" "capacity dest \<le> c" "c < 2 ^ 31"
    using assms(6) by fastforce
  have d1: "buffer_wf d1" "capacity d1 = c" "data d1 \<noteq> None"
    using r(1) c assms(1,2,5)
    by (auto simp: ensure_capacity_def buffer_wf_def dest!: realloc_bytes_Some(1)
        split: option.splits if_splits) (simp_all add: realloc_bytes_def)
  obtain ds where ds: "data src = Some ds" using assms(4) by blast
  obtain dd where dd: "data d1 = Some dd" using d1(3) by blast
  let ?xs = "take (count src) ds"
  have len: "length ds = capacity src" "count src \<le> length ds" "length dd = c"
    using assms(3) ds dd d1 by (auto simp: buffer_wf_def)
  have w: "write_bytes 0 ?xs d1 = Inr (d1\<lparr>data := Some (?xs @ drop (count src) dd)\<rparr>)"
    using dd len c by (simp add: write_bytes_def)
  have "to_int32 (int (count src)) = int (count src)"
    using assms(7) by (intro to_int32_id) auto
  then have "copy_buffer L dest src = Inr (int (count src),
      d1\<lparr>data := Some (?xs @ drop (count src) dd), count := count src\<rparr>)"
    using r ds len w by (simp add: copy_buffer_def)
  moreover have "count src \<le> capacity dest \<Longrightarrow> c = capacity dest"
    using c(1) by (simp add: grow_capacity.simps)
  ultimately show ?thesis
    using d1 dd len c ds by (auto simp: buffer_wf_def bytes_def)
qed

section \<open>Properties\<close>

text \<open>
  Above 2^63 the loop never ends from an empty or a power-of-two capacity, the only ones
  \<open>init_buffer\<close> (with a small argument) and the loop itself produce: the doubling wraps to 0 and
  starts over.
\<close>

lemma ensure_capacity_diverges:
  assumes "2 ^ 63 < wanted" and "capacity b = 0 \<or> (\<exists>k \<le> 63. capacity b = 2 ^ k)"
  shows "ensure_capacity L b wanted = Inl (Diverges ''ensure_capacity_'')"
  using grow_capacity_never [of "capacity b" wanted] assms
  by (cases "grow_capacity (capacity b) wanted") (auto simp: ensure_capacity_def)

end
