(* ===== verification/Properties.thy ===== *)
theory Properties
  imports CBase
begin

text \<open>
  \<^verbatim>\<open>src/properties.c\<close>: the static configuration variables of the server and their getters.
\<close>

record properties =
  session_max_size :: nat
  worker_thread_max_size :: nat
  listen_backlog_max_size :: nat
  http_port :: string
  https_port :: string
  env :: string
  log_file :: string
  log_level :: int
  log_type :: int
  properties_file :: string
  cert_file :: string
  private_key_file :: string
  db_url :: string
  reset_db :: bool
  enable_https :: bool

definition default_properties :: properties where
  "default_properties =
     \<lparr>session_max_size = 64, worker_thread_max_size = 1, listen_backlog_max_size = 50,
      http_port = ''8080'', https_port = ''8443'', env = ''dev'', log_file = ''/tmp/app.log'',
      log_level = 0, log_type = 0, properties_file = ''/etc/wind_breaker/properties.conf'',
      cert_file = ''/etc/wind_breaker/cert.pem'', private_key_file = ''/etc/wind_breaker/key.pem'',
      db_url = ''/etc/wind_breaker/data.db'', reset_db = False, enable_https = False\<rparr>"

end
