(* ===== verification/PollArray.thy ===== *)
theory PollArray
  imports MarkedFds Buffer Properties
begin

text \<open>
  \<^verbatim>\<open>src/data_structures/poll_array.c\<close>: the array of descriptors the listener hands to \<open>ppoll\<close>. The
  first \<open>count\<close> entries are in use, entry 0 is the HTTP listening socket (and entry 1 the HTTPS one
  when it is enabled), and \<open>last_in_index\<close> is the entry the next connection replaces once the array
  is full. The contract the listener relies on is the locale \<open>watch_list\<close>.
\<close>

section \<open>State and operations\<close>

record pollfd =
  fd :: int
  events :: "16 word"
  revents :: "16 word"

abbreviation POLLIN :: "16 word" where "POLLIN \<equiv> 1"
abbreviation POLLOUT :: "16 word" where "POLLOUT \<equiv> 4"

abbreviation zero_pollfd :: pollfd where
  "zero_pollfd \<equiv> \<lparr>fd = 0, events = 0, revents = 0\<rparr>"

record poll_array =
  fds :: "pollfd list option"
  pa_count :: nat
  last_in_index :: nat
  max_count :: nat

definition init_poll_array :: "libc \<Rightarrow> properties \<Rightarrow> int \<Rightarrow> poll_array \<Rightarrow> poll_array result" where
  "init_poll_array L p listen_fd pa =
     assert_that ''listen_fd > 0'' (0 < listen_fd) (
     assert_that ''listen_fd < 16384'' (listen_fd < 16384) (
     assert_that ''fds == NULL'' (fds pa = None) (
     let mx = session_max_size p in
     assert_that ''max_count > 0'' (0 < mx) (
     assert_that ''max_count < 16384'' (mx < 16384) (
     assert_that ''fds != NULL'' (alloc_ok L (mx * 8)) (
     Inr \<lparr>fds = Some ((replicate mx zero_pollfd)[0 := \<lparr>fd = listen_fd, events = POLLIN, revents = 0\<rparr>]),
          pa_count = 1, last_in_index = 1, max_count = mx\<rparr>))))))"

definition init_poll_array_ssl :: "libc \<Rightarrow> properties \<Rightarrow> int \<Rightarrow> int \<Rightarrow> poll_array \<Rightarrow> poll_array result" where
  "init_poll_array_ssl L p listen_fd listen_fd_ssl pa =
     assert_that ''listen_fd > 0'' (0 < listen_fd) (
     assert_that ''listen_fd < 16384'' (listen_fd < 16384) (
     assert_that ''fds == NULL'' (fds pa = None) (
     assert_that ''listen_fd_ssl > 0'' (0 < listen_fd_ssl) (
     assert_that ''listen_fd_ssl < 16384'' (listen_fd_ssl < 16384) (
     assert_that ''listen_fd != listen_fd_ssl'' (listen_fd \<noteq> listen_fd_ssl) (
     assert_that ''get_enabled_ssl() == 1'' (enable_https p) (
     let mx = session_max_size p in
     assert_that ''max_count > 0'' (0 < mx) (
     assert_that ''max_count < 16384'' (mx < 16384) (
     assert_that ''fds != NULL'' (alloc_ok L (mx * 8)) (
     in_bounds ''fds'' (1 < mx) (
     Inr \<lparr>fds = Some ((replicate mx zero_pollfd)
            [0 := \<lparr>fd = listen_fd, events = POLLIN, revents = 0\<rparr>,
             1 := \<lparr>fd = listen_fd_ssl, events = POLLIN, revents = 0\<rparr>]),
          pa_count = 2, last_in_index = 2, max_count = mx\<rparr>)))))))))))"

definition destroy_poll_array :: "poll_array \<Rightarrow> poll_array" where
  "destroy_poll_array pa = pa\<lparr>fds := None\<rparr>"

text \<open>
  The loop of \<open>peek_next\<close> on a full array, as written: it tests bits of the descriptor number
  (\<open>fds[i].fd & (POLLIN | POLLOUT)\<close>), and \<open>temp\<close> points at the entry it is meant to save, so the
  second assignment reads the overwritten entry.
\<close>

fun peek_scan :: "nat \<Rightarrow> nat \<Rightarrow> nat \<Rightarrow> pollfd list \<Rightarrow> pollfd list" where
  "peek_scan lst i 0 xs = xs"
| "peek_scan lst i (Suc n) xs =
     peek_scan lst (Suc i) n
       (if fd (xs ! i) AND 5 = 0
        then (let xs1 = xs[i := xs ! lst] in xs1[lst := xs1 ! i])
        else xs)"

definition peek_next_poll :: "poll_array \<Rightarrow> (nat \<times> poll_array) result" where
  "peek_next_poll pa =
     (case fds pa of
        None \<Rightarrow> Inl (Assert_failed ''fds != NULL'')
      | Some xs \<Rightarrow>
          if pa_count pa < max_count pa then Inr (pa_count pa, pa)
          else Inr (last_in_index pa,
            pa\<lparr>fds := Some (peek_scan (last_in_index pa) (last_in_index pa)
                                (max_count pa - last_in_index pa) xs)\<rparr>))"

text \<open>The new \<open>last_in_index\<close> after an entry of a full array was replaced.\<close>

definition next_last_in_index :: "properties \<Rightarrow> nat \<Rightarrow> nat \<Rightarrow> nat" where
  "next_last_in_index p l mx =
     (let l1 = (l + 1) mod mx
      in if l1 = 0 \<or> (enable_https p \<and> l1 = 1) then l1 + 1 else l1)"

definition add_poll_fd_sync :: "properties \<Rightarrow> int \<Rightarrow> poll_array \<Rightarrow> (nat \<times> poll_array) result" where
  "add_poll_fd_sync p new_fd pa =
     assert_that ''fd > 0'' (0 < new_fd) (
     assert_that ''fd < 16384'' (new_fd < 16384) (
     and_then (peek_next_poll pa) (\<lambda>(next0, pa1).
     assert_that ''next < max_count'' (next0 < max_count pa1) (
     let next = (if next0 = 0 then next0 + 1 else next0) in
     case fds pa1 of
       None \<Rightarrow> Inl (Null_pointer ''fds'')
     | Some xs \<Rightarrow>
     in_bounds ''fds'' (next < length xs) (
     let pa2 = pa1\<lparr>fds := Some (xs[next := \<lparr>fd = new_fd, events = POLLIN, revents = 0\<rparr>])\<rparr>;
         pa3 = (if pa_count pa2 < max_count pa2
                then pa2\<lparr>pa_count := pa_count pa2 + 1\<rparr>
                else pa2\<lparr>last_in_index :=
                       next_last_in_index p (last_in_index pa2) (max_count pa2)\<rparr>) in
     assert_that ''count <= max_count'' (pa_count pa3 \<le> max_count pa3) (
     assert_that ''count > 1'' (1 < pa_count pa3) (
     assert_that ''last_in_index < max_count'' (last_in_index pa3 < max_count pa3) (
     assert_that ''last_in_index > 0'' (0 < last_in_index pa3) (
     Inr (next, pa3))))))))))"

text \<open>
  \<open>remove_poll_fd_by_index_sync(&i)\<close>: the descriptor it closes, the new \<open>i\<close>, the array, the marks.
\<close>

fun shift_fds :: "nat \<Rightarrow> nat \<Rightarrow> pollfd list \<Rightarrow> pollfd list" where
  "shift_fds j 0 xs = xs"
| "shift_fds j (Suc n) xs = shift_fds (Suc j) n
     (xs[j := \<lparr>fd = fd (xs ! (j + 1)), events = events (xs ! (j + 1)), revents = revents (xs ! (j + 1))\<rparr>])"

definition remove_poll_fd_by_index_sync ::
  "nat \<Rightarrow> poll_array \<Rightarrow> marked \<Rightarrow> (int \<times> nat \<times> poll_array \<times> marked) result" where
  "remove_poll_fd_by_index_sync i pa marks =
     assert_that ''*i > 0'' (0 < i) (
     assert_that ''*i < max_count'' (i < max_count pa) (
     case fds pa of
       None \<Rightarrow> Inl (Assert_failed ''fds != NULL'')
     | Some xs \<Rightarrow>
     assert_that ''*i < count'' (i < pa_count pa) (
     let closed = fd (xs ! i) in
     and_then (unmark closed marks) (\<lambda>marks'.
     let xs1 = shift_fds i (pa_count pa - 1 - i) xs;
         xs2 = xs1[pa_count pa - 1 := zero_pollfd];
         l = (if i < last_in_index pa then last_in_index pa - 1 else last_in_index pa);
         pa' = pa\<lparr>fds := Some xs2, last_in_index := l, pa_count := pa_count pa - 1\<rparr> in
     assert_that ''count > 0'' (0 < pa_count pa') (
     assert_that ''last_in_index > 0'' (0 < last_in_index pa') (
     Inr (closed, i - 1, pa', marks')))))))"

section \<open>The view: the entries in use\<close>

definition entries :: "poll_array \<Rightarrow> pollfd list" where
  "entries pa = (case fds pa of None \<Rightarrow> [] | Some xs \<Rightarrow> take (pa_count pa) xs)"

abbreviation watched :: "poll_array \<Rightarrow> int list" where
  "watched pa \<equiv> map fd (entries pa)"

text \<open>The invariant; \<open>base\<close> listening sockets in front.\<close>

definition poll_wf :: "nat \<Rightarrow> poll_array \<Rightarrow> bool" where
  "poll_wf base pa \<longleftrightarrow> 0 < base \<and> base \<le> pa_count pa \<and> pa_count pa \<le> max_count pa \<and>
     base \<le> last_in_index pa \<and> last_in_index pa < max_count pa \<and>
     (\<exists>xs. fds pa = Some xs \<and> length xs = max_count pa)"

lemma length_entries: "poll_wf base pa \<Longrightarrow> length (entries pa) = pa_count pa"
  by (auto simp: poll_wf_def entries_def)

lemma pollfd_copy [simp]: "\<lparr>fd = fd x, events = events x, revents = revents x\<rparr> = (x :: pollfd)"
  by simp

lemma length_shift_fds [simp]: "length (shift_fds j n xs) = length xs"
  by (induction j n xs rule: shift_fds.induct) auto

lemma shift_fds_eq:
  "j + n < length xs \<Longrightarrow>
    shift_fds j n xs = take j xs @ take n (drop (Suc j) xs) @ drop (j + n) xs"
proof (induction j n xs rule: shift_fds.induct)
  case (1 j xs)
  then show ?case by simp
next
  case (2 j n xs)
  let ?ys = "xs[j := xs ! Suc j]"
  have "shift_fds j (Suc n) xs = shift_fds (Suc j) n ?ys" by simp
  also have "\<dots> = take (Suc j) ?ys @ take n (drop (Suc (Suc j)) ?ys) @ drop (Suc j + n) ?ys"
    using 2 by simp
  also have "take (Suc j) ?ys = take j xs @ [xs ! Suc j]"
    using 2 by (simp add: take_Suc_conv_app_nth)
  also have "take n (drop (Suc (Suc j)) ?ys) = take n (drop (Suc (Suc j)) xs)" by simp
  also have "drop (Suc j + n) ?ys = drop (Suc j + n) xs" by simp
  also have "(take j xs @ [xs ! Suc j]) @ take n (drop (Suc (Suc j)) xs) @ drop (Suc j + n) xs =
      take j xs @ take (Suc n) (drop (Suc j) xs) @ drop (j + Suc n) xs"
    using 2 by (simp add: Cons_nth_drop_Suc [symmetric])
  finally show ?case .
qed


lemma shift_fds_remove:
  assumes "i < n" and "n \<le> length xs"
  shows "take (n - 1) (shift_fds i (n - 1 - i) xs) = remove_nth i (take n xs)"
    and "drop n (shift_fds i (n - 1 - i) xs) = drop n xs"
proof -
  have eq: "shift_fds i (n - 1 - i) xs = take i xs @ take (n - 1 - i) (drop (Suc i) xs) @ drop (n - 1) xs"
    using assms by (subst shift_fds_eq) auto
  show "take (n - 1) (shift_fds i (n - 1 - i) xs) = remove_nth i (take n xs)"
    unfolding eq using assms
    by (cases "n = Suc i") (auto simp: remove_nth_def min_def drop_take)
  show "drop n (shift_fds i (n - 1 - i) xs) = drop n xs"
    unfolding eq using assms by (simp add: min_def)
qed

lemma length_peek_scan [simp]: "length (peek_scan lst i n xs) = length xs"
  by (induction lst i n xs rule: peek_scan.induct) (auto simp: Let_def)

lemma peek_scan_nth:
  assumes "lst \<le> i" and "i + n \<le> length xs" and "j < length xs"
  shows "peek_scan lst i n xs ! j =
    (if i \<le> j \<and> j < i + n \<and> fd (xs ! j) AND 5 = 0 then xs ! lst else xs ! j)"
  using assms
proof (induction lst i n xs rule: peek_scan.induct)
  case (1 lst i xs)
  then show ?case by auto
next
  case (2 lst i n xs)
  let ?ys = "if fd (xs ! i) AND 5 = 0
        then (let xs1 = xs[i := xs ! lst] in xs1[lst := xs1 ! i]) else xs"
  have ys: "?ys = (if fd (xs ! i) AND 5 = 0 then xs[i := xs ! lst] else xs)"
    using 2 by (cases "lst = i") (auto simp: Let_def nth_list_update intro!: nth_equalityI)
  have "peek_scan lst i (Suc n) xs ! j = peek_scan lst (Suc i) n ?ys ! j" by simp
  also have "\<dots> = (if Suc i \<le> j \<and> j < Suc i + n \<and> fd (?ys ! j) AND 5 = 0 then ?ys ! lst else ?ys ! j)"
    using 2 by (intro "2.IH") (auto simp: ys)
  also have "\<dots> = (if i \<le> j \<and> j < i + Suc n \<and> fd (xs ! j) AND 5 = 0 then xs ! lst else xs ! j)"
    using 2 by (auto simp: ys nth_list_update)
  finally show ?case .
qed

section \<open>What the operations do to the view\<close>

lemma poll_wf_fds: "poll_wf base pa \<Longrightarrow> fds pa = Some xs \<Longrightarrow> length xs = max_count pa"
  by (auto simp: poll_wf_def)

text \<open>An array that is not full: the new descriptor goes behind the others.\<close>

lemma add_poll_fd_room:
  assumes wf: "poll_wf base pa" and room: "pa_count pa < max_count pa"
    and ok: "0 < new_fd" "new_fd < 16384"
  shows "\<exists>pa'. add_poll_fd_sync p new_fd pa = Inr (pa_count pa, pa') \<and> poll_wf base pa' \<and>
    entries pa' = entries pa @ [\<lparr>fd = new_fd, events = POLLIN, revents = 0\<rparr>] \<and>
    max_count pa' = max_count pa \<and> last_in_index pa' = last_in_index pa"
proof -
  let ?e = "\<lparr>fd = new_fd, events = POLLIN, revents = 0\<rparr>"
  from wf obtain xs where xs: "fds pa = Some xs" "length xs = max_count pa"
    by (auto simp: poll_wf_def)
  from wf have pos: "0 < pa_count pa" "0 < last_in_index pa" "last_in_index pa < max_count pa"
    by (auto simp: poll_wf_def)
  let ?pa = "pa\<lparr>fds := Some (xs[pa_count pa := ?e]), pa_count := pa_count pa + 1\<rparr>"
  have "add_poll_fd_sync p new_fd pa = Inr (pa_count pa, ?pa)"
    using room ok xs pos by (simp add: add_poll_fd_sync_def peek_next_poll_def Let_def)
  moreover have "poll_wf base ?pa" using wf room xs by (auto simp: poll_wf_def)
  moreover have "entries ?pa = entries pa @ [?e]"
    using xs room by (simp add: entries_def take_Suc_conv_app_nth)
  ultimately show ?thesis by simp
qed

text \<open>
  A full array: the entry at \<open>last_in_index\<close> is replaced, and so are, by a copy of that entry's old
  contents, all later entries whose descriptor has neither bit 0 nor bit 2 set.
\<close>

lemma add_poll_fd_full:
  assumes wf: "poll_wf base pa" and full: "pa_count pa = max_count pa"
    and ok: "0 < new_fd" "new_fd < 16384"
    and ret: "add_poll_fd_sync p new_fd pa = Inr (i, pa')"
  shows "i = last_in_index pa"
    and "pa_count pa' = pa_count pa" and "max_count pa' = max_count pa"
    and "0 < last_in_index pa'" and "last_in_index pa' < max_count pa"
    and "length (entries pa') = pa_count pa"
    and "last_in_index pa' = next_last_in_index p (last_in_index pa) (max_count pa)"
    and "\<exists>ys. fds pa' = Some ys \<and> length ys = max_count pa"
    and "j < pa_count pa \<Longrightarrow> entries pa' ! j =
      (if j = last_in_index pa then \<lparr>fd = new_fd, events = POLLIN, revents = 0\<rparr>
       else if last_in_index pa < j \<and> fd (entries pa ! j) AND 5 = 0
            then entries pa ! last_in_index pa
       else entries pa ! j)"
proof -
  from wf obtain xs where xs: "fds pa = Some xs" "length xs = max_count pa"
    by (auto simp: poll_wf_def)
  let ?l = "last_in_index pa"
  let ?ys = "peek_scan ?l ?l (max_count pa - ?l) xs"
  from wf have pos: "0 < ?l" "?l < max_count pa" by (auto simp: poll_wf_def)
  define l where "l = next_last_in_index p ?l (max_count pa)"
  have peek: "peek_next_poll pa = Inr (?l, pa\<lparr>fds := Some ?ys\<rparr>)"
    using xs full by (simp add: peek_next_poll_def)
  from ret ok pos full xs
  have pa': "pa' = pa\<lparr>fds := Some (?ys[?l := \<lparr>fd = new_fd, events = POLLIN, revents = 0\<rparr>]), last_in_index := l\<rparr>"
    and i: "i = ?l" and l: "0 < l" "l < max_count pa"
    unfolding add_poll_fd_sync_def peek l_def by (auto simp: Let_def)
  show "i = ?l" by (rule i)
  show "pa_count pa' = pa_count pa" "max_count pa' = max_count pa"
    "0 < last_in_index pa'" "last_in_index pa' < max_count pa"
    "length (entries pa') = pa_count pa"
    "last_in_index pa' = next_last_in_index p (last_in_index pa) (max_count pa)"
    "\<exists>ys. fds pa' = Some ys \<and> length ys = max_count pa"
    using pa' l full xs by (simp_all add: entries_def l_def)
  show "entries pa' ! j =
      (if j = ?l then \<lparr>fd = new_fd, events = POLLIN, revents = 0\<rparr>
       else if ?l < j \<and> fd (entries pa ! j) AND 5 = 0 then entries pa ! ?l
       else entries pa ! j)" if "j < pa_count pa" for j
    using that pa' full xs pos peek_scan_nth [of ?l ?l "max_count pa - ?l" xs j]
    by (auto simp: entries_def nth_list_update)
qed

text \<open>Removal deletes one entry, keeps the order of the others and zeroes the freed one.\<close>

lemma remove_poll_fd_removes:
  assumes wf: "poll_wf base pa" and i: "base \<le> i" "i < pa_count pa"
    and m: "marks_at (fd (entries pa ! i)) marks"
  shows "\<exists>pa' marks'. remove_poll_fd_by_index_sync i pa marks =
      Inr (fd (entries pa ! i), i - 1, pa', marks') \<and>
    poll_wf base pa' \<and> entries pa' = remove_nth i (entries pa) \<and>
    unmark (fd (entries pa ! i)) marks = Inr marks' \<and> max_count pa' = max_count pa"
proof -
  from wf obtain xs where xs: "fds pa = Some xs" "length xs = max_count pa"
    by (auto simp: poll_wf_def)
  let ?n = "pa_count pa"
  let ?f = "fd (entries pa ! i)"
  have f: "?f = fd (xs ! i)" using i xs by (simp add: entries_def)
  from m obtain marks' where marks': "unmark ?f marks = Inr marks'"
    by (simp add: unmark_def)
  let ?ys = "(shift_fds i (?n - 1 - i) xs)[?n - 1 := zero_pollfd]"
  let ?l = "if i < last_in_index pa then last_in_index pa - 1 else last_in_index pa"
  let ?pa = "pa\<lparr>fds := Some ?ys, last_in_index := ?l, pa_count := ?n - 1\<rparr>"
  have bd: "0 < base" "base \<le> last_in_index pa" "last_in_index pa < max_count pa" "?n \<le> max_count pa"
    using wf by (auto simp: poll_wf_def)
  have l: "base \<le> ?l" "?l < max_count pa" using bd i by auto
  have "remove_poll_fd_by_index_sync i pa marks = Inr (?f, i - 1, ?pa, marks')"
    using i xs bd l marks' by (simp add: remove_poll_fd_by_index_sync_def f Let_def)
  moreover have "poll_wf base ?pa" using l bd i xs by (auto simp: poll_wf_def)
  moreover have "entries ?pa = remove_nth i (entries pa)"
    using shift_fds_remove(1) [of i ?n xs] i bd xs by (simp add: entries_def)
  ultimately show ?thesis using marks' by auto
qed


section \<open>The contract: a list of watched descriptors\<close>

text \<open>
  The listener's loop runs an index over the array and, where it removes the entry at the index,
  continues at the same position (\<open>remove_poll_fd_by_index_sync(&i)\<close> decrements \<open>i\<close>, \<open>i++\<close> brings it
  back). \<open>sweep\<close> is that loop for any removal condition on the descriptor; its fuel is the number
  of entries still to visit.
\<close>

fun sweep :: "('s \<Rightarrow> int list) \<Rightarrow> (nat \<Rightarrow> 's \<Rightarrow> 's result) \<Rightarrow> (int \<Rightarrow> bool) \<Rightarrow>
    nat \<Rightarrow> nat \<Rightarrow> 's \<Rightarrow> 's result" where
  "sweep view del P 0 i s = (if i < length (view s) then Inl (Diverges ''sweep'') else Inr s)"
| "sweep view del P (Suc n) i s =
     (if i < length (view s)
      then if P (view s ! i) then and_then (del i s) (sweep view del P n i)
           else sweep view del P n (Suc i) s
      else Inr s)"

locale watch_list =
  fixes inv :: "'s \<Rightarrow> bool" and view :: "'s \<Rightarrow> int list" and room :: "'s \<Rightarrow> nat"
    and known :: "int \<Rightarrow> 's \<Rightarrow> bool" and base :: nat
    and add :: "int \<Rightarrow> 's \<Rightarrow> 's result" and del :: "nat \<Rightarrow> 's \<Rightarrow> 's result"
  assumes add_law: "inv s \<Longrightarrow> length (view s) < room s \<Longrightarrow> known f s \<Longrightarrow>
      \<exists>s'. add f s = Inr s' \<and> inv s' \<and> view s' = view s @ [f] \<and> room s' = room s \<and>
           (\<forall>g. known g s' = known g s)"
    and del_law: "inv s \<Longrightarrow> base \<le> i \<Longrightarrow> i < length (view s) \<Longrightarrow>
      \<exists>s'. del i s = Inr s' \<and> inv s' \<and> view s' = remove_nth i (view s) \<and> room s' = room s"
begin

lemma sweep_filters:
  assumes "inv s" and "base \<le> i" and "length (view s) - i \<le> n"
  shows "\<exists>s'. sweep view del P n i s = Inr s' \<and> inv s' \<and>
    view s' = take i (view s) @ filter (\<lambda>f. \<not> P f) (drop i (view s))"
  using assms
proof (induction n arbitrary: i s)
  case 0
  then show ?case by simp
next
  case (Suc n)
  show ?case
  proof (cases "i < length (view s)")
    case False
    with Suc.prems show ?thesis by simp
  next
    case i: True
    have d: "drop i (view s) = view s ! i # drop (Suc i) (view s)"
      using i by (simp add: Cons_nth_drop_Suc)
    show ?thesis
    proof (cases "P (view s ! i)")
      case True
      from del_law [OF Suc.prems(1,2) i] obtain s1 where
        s1: "del i s = Inr s1" "inv s1" "view s1 = remove_nth i (view s)" by blast
      have "length (view s1) - i \<le> n" using s1(3) i Suc.prems(3) by simp
      from Suc.IH [OF s1(2) Suc.prems(2) this] s1 i True d show ?thesis
        by (simp add: remove_nth_def min_def)
    next
      case False
      have "length (view s) - Suc i \<le> n" using Suc.prems(3) by simp
      from Suc.IH [OF Suc.prems(1) _ this] Suc.prems(2) i False d show ?thesis
        by (simp add: take_Suc_conv_app_nth)
    qed
  qed
qed

lemma add_then_sweep:
  assumes "inv s" and "length (view s) < room s" and "known f s" and "base \<le> length (view s)"
    and "P f"
  shows "\<exists>s1 s2. add f s = Inr s1 \<and>
    sweep view del P (length (view s1)) (length (view s)) s1 = Inr s2 \<and> view s2 = view s"
proof -
  from add_law [OF assms(1-3)] obtain s1 where
    s1: "add f s = Inr s1" "inv s1" "view s1 = view s @ [f]" by blast
  from sweep_filters [OF s1(2) assms(4), of "length (view s1)" P] s1 assms(5) show ?thesis by auto
qed

end

text \<open>The array together with the marks, which a removal clears for the descriptor it closes.\<close>

definition watch_inv :: "nat \<Rightarrow> poll_array \<times> marked \<Rightarrow> bool" where
  "watch_inv base s \<longleftrightarrow> poll_wf base (fst s) \<and> (\<forall>f \<in> set (watched (fst s)). marks_at f (snd s))"

definition watch_known :: "int \<Rightarrow> poll_array \<times> marked \<Rightarrow> bool" where
  "watch_known f s \<longleftrightarrow> 0 < f \<and> f < 16384 \<and> marks_at f (snd s)"

definition watch_add :: "properties \<Rightarrow> int \<Rightarrow> poll_array \<times> marked \<Rightarrow> (poll_array \<times> marked) result" where
  "watch_add p f s = and_then (add_poll_fd_sync p f (fst s)) (\<lambda>(_, pa). Inr (pa, snd s))"

definition watch_remove :: "nat \<Rightarrow> poll_array \<times> marked \<Rightarrow> (poll_array \<times> marked) result" where
  "watch_remove i s =
     and_then (remove_poll_fd_by_index_sync i (fst s) (snd s)) (\<lambda>(_, _, pa, m). Inr (pa, m))"

lemma marks_at_unmark: "unmark f m = Inr m' \<Longrightarrow> marks_at g m' = marks_at g m"
  by (auto simp: unmark_def marks_at_def)

interpretation watch: watch_list "watch_inv base" "\<lambda>s. watched (fst s)" "\<lambda>s. max_count (fst s)"
    watch_known base "watch_add p" watch_remove
  for base :: nat and p :: properties
proof (unfold_locales, goal_cases)
  case (1 s f)
  then have "poll_wf base (fst s)" "pa_count (fst s) < max_count (fst s)" "0 < f" "f < 16384"
    by (auto simp: watch_inv_def watch_known_def dest: length_entries)
  from add_poll_fd_room [OF this, of p] 1 show ?case
    by (auto simp: watch_add_def watch_inv_def watch_known_def)
next
  case (2 s i)
  then have wf: "poll_wf base (fst s)" and i: "i < pa_count (fst s)"
    by (auto simp: watch_inv_def dest: length_entries)
  have "fd (entries (fst s) ! i) \<in> set (watched (fst s))"
    using i length_entries [OF wf] by simp
  then have "marks_at (fd (entries (fst s) ! i)) (snd s)"
    using 2(1) by (auto simp: watch_inv_def)
  from remove_poll_fd_removes [OF wf 2(2) i this] 2(1) show ?case
    by (auto simp: watch_remove_def watch_inv_def map_remove_nth marks_at_unmark
        dest!: subsetD [OF set_remove_nth_subset])
qed

section \<open>Properties\<close>

text \<open>
  \<open>init_poll_array\<close> with at least two entries and an available allocation yields a well-formed
  array that watches exactly the listening socket, for input.
\<close>

lemma init_poll_array_establishes:
  assumes "alloc_ok L (session_max_size p * 8)" and "0 < f" "f < 16384" and "fds pa = None"
    and "2 \<le> session_max_size p" "session_max_size p < 16384"
  shows "\<exists>pa'. init_poll_array L p f pa = Inr pa' \<and> poll_wf 1 pa' \<and>
    entries pa' = [\<lparr>fd = f, events = POLLIN, revents = 0\<rparr>] \<and> max_count pa' = session_max_size p"
proof -
  have "session_max_size p = Suc (Suc (session_max_size p - 2))" using assms(5) by simp
  then obtain n where n: "session_max_size p = Suc (Suc n)" by blast
  with assms show ?thesis by (auto simp: init_poll_array_def poll_wf_def entries_def Let_def)
qed



text \<open>
  On a full array \<open>add_poll_fd_sync\<close> does not only replace the entry at \<open>last_in_index\<close>: the scan
  of \<open>peek_next\<close> looks at descriptor bits instead of events and its swap loses an entry, so each
  later entry whose descriptor has neither bit 0 nor bit 2 is overwritten by a copy of the old
  entry at \<open>last_in_index\<close>, and that connection is never polled again.
\<close>

lemma add_poll_fd_full_overwrites:
  assumes "poll_wf base pa" and "pa_count pa = max_count pa" and "0 < f" and "f < 16384"
    and "add_poll_fd_sync p f pa = Inr (i, pa')" and "j < pa_count pa"
  shows "i = last_in_index pa \<and> entries pa' ! j =
      (if j = last_in_index pa then \<lparr>fd = f, events = POLLIN, revents = 0\<rparr>
       else if last_in_index pa < j \<and> fd (entries pa ! j) AND 5 = 0
            then entries pa ! last_in_index pa
       else entries pa ! j)"
  using add_poll_fd_full [OF assms(1-5)] assms(6) by blast

text \<open>
  With HTTPS enabled the replacement index wraps to 1, the entry of the HTTPS listening socket
  (the code tests for 0 and for 1 but increments once): the second connection added after the
  index reached the last entry of a full array overwrites the HTTPS listener.
\<close>

lemma https_listener_overwritten:
  assumes "enable_https p" and "poll_wf 2 pa" and "pa_count pa = max_count pa"
    and "last_in_index pa = max_count pa - 1"
    and "0 < f" "f < 16384" and "add_poll_fd_sync p f pa = Inr (i, pa1)"
    and "0 < g" "g < 16384" and "add_poll_fd_sync p g pa1 = Inr (j, pa2)"
  shows "j = 1 \<and> entries pa2 ! 1 = \<lparr>fd = g, events = POLLIN, revents = 0\<rparr>"
proof -
  note one = add_poll_fd_full [OF assms(2,3,5-7)]
  have mx: "2 < max_count pa" using assms(2,4) by (auto simp: poll_wf_def)
  have last1: "last_in_index pa1 = 1"
    using one(7) assms(1,4) mx by (simp add: next_last_in_index_def Let_def)
  have wf1: "poll_wf 1 pa1" using one mx assms(3) last1 by (auto simp: poll_wf_def)
  have full1: "pa_count pa1 = max_count pa1" using one(2,3) assms(3) by simp
  from add_poll_fd_full [OF wf1 full1 assms(8-10)] one(2) assms(3) last1 mx show ?thesis by simp
qed

end
