(* ===== verification/HttpTypes.thy ===== *)
theory HttpTypes
  imports CBase
begin

text \<open>
  The types of \<^verbatim>\<open>src/static.h\<close>: methods, status codes, the request and response structures and
  the states of a session. A \<open>char\<close> array that is only read by string functions is represented by
  the string up to its terminating NUL; what its size bounds is checked where it is written. A
  structure cleared by \<open>memset\<close> is the \<open>zero_\<close> value.
\<close>

section \<open>Enumerations\<close>

datatype http_method =
  HTTP_POST | HTTP_GET | HTTP_PATCH | HTTP_PUT | HTTP_HEAD | HTTP_DELETE | HTTP_CONNECT
| HTTP_OPTIONS | HTTP_TRACE | HTTP_BAD_METHOD

datatype http_connection = KEEP_ALIVE | CLOSE

datatype POLL_ERROR_CLASS = RESET | REMOVE_FD | CONTINUE

text \<open>
  A status code is an \<open>int\<close>: a cleared response holds 0, which is not an enumerator.
\<close>

abbreviation HTTP_OK :: int where "HTTP_OK \<equiv> 200"
abbreviation HTTP_MOVED_PERMANENTLY :: int where "HTTP_MOVED_PERMANENTLY \<equiv> 301"
abbreviation HTTP_NOT_MODIFIED :: int where "HTTP_NOT_MODIFIED \<equiv> 304"
abbreviation HTTP_BAD_REQUEST :: int where "HTTP_BAD_REQUEST \<equiv> 400"
abbreviation HTTP_NOT_FOUND :: int where "HTTP_NOT_FOUND \<equiv> 404"
abbreviation HTTP_METHOD_NOT_ALLOWED :: int where "HTTP_METHOD_NOT_ALLOWED \<equiv> 405"
abbreviation HTTP_NOT_ACCEPTABLE :: int where "HTTP_NOT_ACCEPTABLE \<equiv> 406"
abbreviation HTTP_INTERNAL_SERVER_ERROR :: int where "HTTP_INTERNAL_SERVER_ERROR \<equiv> 500"
abbreviation HTTP_NOT_IMPLEMENTED :: int where "HTTP_NOT_IMPLEMENTED \<equiv> 501"
abbreviation HTTP_SERVICE_UNAVAILABLE :: int where "HTTP_SERVICE_UNAVAILABLE \<equiv> 503"

abbreviation HTTP_HEADER_SIZE :: nat where "HTTP_HEADER_SIZE \<equiv> 256"
abbreviation HTTP_URI_TOKEN_COUNT :: nat where "HTTP_URI_TOKEN_COUNT \<equiv> 4"
abbreviation HTTP_URI_TOKEN_SIZE :: nat where "HTTP_URI_TOKEN_SIZE \<equiv> 200"
abbreviation HTTP_VERSION_SIZE :: nat where "HTTP_VERSION_SIZE \<equiv> 16"
abbreviation HTTP_METHOD_SIZE :: nat where "HTTP_METHOD_SIZE \<equiv> 8"
abbreviation HTTP_HEADER_SMALL_SIZE :: nat where "HTTP_HEADER_SMALL_SIZE \<equiv> 128"
abbreviation HTTP_HEADER_ETAG_SIZE :: nat where "HTTP_HEADER_ETAG_SIZE \<equiv> 65"
abbreviation ALLOCATE_MEMORY_ERROR :: int where "ALLOCATE_MEMORY_ERROR \<equiv> - 123"

datatype WORK_STATUS =
  WORK_STATUS_INITIAL | WORK_STATUS_REQUEST_READ | WORK_STATUS_PARSED
| WORK_STATUS_DATA_FETCHED | WORK_STATUS_READY_TO_SEND | WORK_STATUS_SEND_FAILED
| WORK_STATUS_SENT | WORK_STATUS_PROCESSING | WORK_STATUS_REJECTED | WORK_STATUS_INITIAL_SSL

fun ws_bit :: "WORK_STATUS \<Rightarrow> nat" where
  "ws_bit WORK_STATUS_INITIAL = 0"
| "ws_bit WORK_STATUS_REQUEST_READ = 1"
| "ws_bit WORK_STATUS_PARSED = 2"
| "ws_bit WORK_STATUS_DATA_FETCHED = 3"
| "ws_bit WORK_STATUS_READY_TO_SEND = 4"
| "ws_bit WORK_STATUS_SEND_FAILED = 5"
| "ws_bit WORK_STATUS_SENT = 6"
| "ws_bit WORK_STATUS_PROCESSING = 7"
| "ws_bit WORK_STATUS_REJECTED = 8"
| "ws_bit WORK_STATUS_INITIAL_SSL = 9"

text \<open>The value of an enumerator, of C's type \<open>unsigned int\<close>.\<close>

definition ws_code :: "WORK_STATUS \<Rightarrow> 32 word" where
  "ws_code st = 2 ^ ws_bit st"

section \<open>Requests and responses\<close>

type_synonym uri_token_t = "string list"

record http_request_t =
  uri :: uri_token_t
  req_method :: http_method
  is_ssl :: bool
  version :: string
  host :: string
  user_agent :: string
  accept :: string
  accept_language :: string
  accept_encoding :: string
  if_none_match :: string
  connection :: http_connection
  req_content_type :: string
  req_content_length :: int

definition zero_request :: http_request_t where
  "zero_request =
     \<lparr>uri = [[], [], [], []], req_method = HTTP_POST, is_ssl = False, version = [], host = [],
      user_agent = [], accept = [], accept_language = [], accept_encoding = [], if_none_match = [],
      connection = KEEP_ALIVE, req_content_type = [], req_content_length = 0\<rparr>"

record http_response_t =
  status_code :: int
  content_type :: string
  content_length :: int
  content_language :: string
  content_encoding :: string
  last_modified :: string
  date :: string
  etag :: string
  location :: string

definition zero_response :: http_response_t where
  "zero_response =
     \<lparr>status_code = 0, content_type = [], content_length = 0, content_language = [],
      content_encoding = [], last_modified = [], date = [], etag = [], location = []\<rparr>"

section \<open>Sessions\<close>

record session =
  session_id :: int
  related_fd :: int
  thread_id :: nat

definition zero_session :: session where
  "zero_session = \<lparr>session_id = 0, related_fd = 0, thread_id = 0\<rparr>"

end
