(* ===== verification/Session.thy ===== *)
theory Session
  imports HttpTypes MarkedFds Buffer
begin

text \<open>
  \<^verbatim>\<open>src/data_structures/session.c\<close>: the table of sessions that the listener and the workers share.

  The C code keeps seven parallel arrays of pointers (session, status, buffer, request, response,
  BIO and, with TLS, SSL); every function that holds \<open>session_mutex\<close> is one atomic step. The model
  keeps the seven arrays as lists of addresses and one store per kind of object, because workers
  hold the pointers across steps while \<open>del_from_session\<close> moves them in the arrays. OpenSSL is not
  part of the repository: what its calls return is the argument \<open>env\<close>, and a BIO is the descriptor
  set with \<open>BIO_set_fd\<close>.
\<close>

section \<open>State\<close>

type_synonym ptr = nat

record bio =
  bio_fd :: int
  bio_nbio :: bool

record session_cache =
  session_array :: "ptr list"
  status_array :: "ptr list"
  buffer_array :: "ptr list"
  request_array :: "ptr list"
  response_array :: "ptr list"
  bio_array :: "ptr list"
  ssl_array :: "ptr list option"
  max_size :: nat
  session_count :: nat
  session_last_index :: nat
  sessions :: "ptr \<Rightarrow> session"
  statuses :: "ptr \<Rightarrow> 8 word"
  buffers :: "ptr \<Rightarrow> buffer"
  requests :: "ptr \<Rightarrow> http_request_t"
  responses :: "ptr \<Rightarrow> http_response_t"
  bios :: "ptr \<Rightarrow> bio"
  ssl_bio :: "ptr \<Rightarrow> ptr option"

record session_full_return =
  r_session :: ptr
  r_bio :: ptr
  r_ssl :: "ptr option"
  r_buffer :: ptr
  r_request :: ptr
  r_response :: ptr

datatype cond = request_read_cond | parsed_cond | data_fetched_cond | response_generated_cond

text \<open>What \<open>rand\<close> and the calls into OpenSSL return.\<close>

record env =
  rand_ret :: int
  bio_reset_ret :: "ptr \<Rightarrow> int"
  ssl_clear_ret :: "ptr \<Rightarrow> int"
  ssl_accept_ret :: "ptr \<Rightarrow> int"
  ssl_get_error_ret :: "ptr \<Rightarrow> int \<Rightarrow> int"

abbreviation SSL_ERROR_WANT_READ :: int where "SSL_ERROR_WANT_READ \<equiv> 2"
abbreviation SSL_ERROR_WANT_WRITE :: int where "SSL_ERROR_WANT_WRITE \<equiv> 3"

text \<open>The session table, the marks of \<^verbatim>\<open>marked_fds.c\<close> and the conditions broadcast so far.\<close>

record world =
  cache :: session_cache
  marked_fds :: marked
  broadcasts :: "cond list"

section \<open>The status byte\<close>

text \<open>
  \<open>*status\<close> is a \<open>char\<close> (signed): it is promoted to \<open>int\<close> with its sign and combined with enumerators
  of type \<open>unsigned int\<close>; a store keeps the low eight bits.
\<close>

definition promote :: "8 word \<Rightarrow> 32 word" where
  "promote s = scast s"

definition char_or :: "8 word \<Rightarrow> 32 word \<Rightarrow> 8 word" where
  "char_or s w = ucast (promote s OR w)"

definition char_and :: "8 word \<Rightarrow> 32 word \<Rightarrow> 8 word" where
  "char_and s w = ucast (promote s AND w)"

definition has_status :: "8 word \<Rightarrow> WORK_STATUS \<Rightarrow> bool" where
  "has_status s st \<longleftrightarrow> promote s AND ws_code st \<noteq> 0"

section \<open>Initialisation and reset\<close>

definition zero_buffer :: buffer where
  "zero_buffer = \<lparr>capacity = 1024, count = 0, data = Some (replicate 1024 NUL)\<rparr>"

text \<open>
  \<open>init_session_cache(ctx)\<close>: the allocations of each array succeed or an assertion fails; the
  object at index \<open>i\<close> of each array is the \<open>i\<close>-th of its kind. The numbers are the sizes of a
  pointer, \<open>struct session\<close>, \<open>char\<close>, \<open>http_request_t\<close> and \<open>http_response_t\<close>; \<open>BIO_new\<close> and \<open>SSL_new\<close>
  are taken to succeed.
\<close>

definition init_session_cache :: "libc \<Rightarrow> nat \<Rightarrow> bool \<Rightarrow> session_cache result" where
  "init_session_cache L n ctx =
     assert_that ''session_array != NULL'' (alloc_ok L (n * 8)) (
     assert_that ''session_array[i] != NULL'' (n = 0 \<or> alloc_ok L 16) (
     assert_that ''status_array[i] != NULL'' (n = 0 \<or> alloc_ok L 1) (
     assert_that ''buffer_array[i] != NULL'' (n = 0 \<or> init_buffer L 0 \<noteq> None) (
     assert_that ''request_array[i] != NULL'' (n = 0 \<or> alloc_ok L 2440) (
     assert_that ''response_array[i] != NULL'' (n = 0 \<or> alloc_ok L 1112) (
     Inr \<lparr>session_array = [0..<n], status_array = [0..<n], buffer_array = [0..<n],
          request_array = [0..<n], response_array = [0..<n], bio_array = [0..<n],
          ssl_array = (if ctx then Some [0..<n] else None),
          max_size = n, session_count = 0, session_last_index = 0,
          sessions = (\<lambda>_. zero_session), statuses = (\<lambda>_. 0), buffers = (\<lambda>_. zero_buffer),
          requests = (\<lambda>_. zero_request), responses = (\<lambda>_. zero_response),
          bios = (\<lambda>_. \<lparr>bio_fd = -1, bio_nbio = True\<rparr>), ssl_bio = (\<lambda>_. None)\<rparr>))))))"

definition reset_session_at_index :: "env \<Rightarrow> nat \<Rightarrow> session_cache \<Rightarrow> session_cache result" where
  "reset_session_at_index E i sc =
     (let b = buffers sc (buffer_array sc ! i);
          sc1 = sc\<lparr>sessions := (sessions sc)(session_array sc ! i := zero_session),
                   statuses := (statuses sc)(status_array sc ! i := 0),
                   buffers := (buffers sc)(buffer_array sc ! i :=
                     b\<lparr>data := map_option (\<lambda>_. replicate (capacity b) NUL) (data b), count := 0\<rparr>),
                   requests := (requests sc)(request_array sc ! i := zero_request),
                   responses := (responses sc)(response_array sc ! i := zero_response)\<rparr>
      in assert_that ''ret != -1'' (bio_reset_ret E (bio_array sc ! i) \<noteq> -1) (
         let sc2 = sc1\<lparr>bios := (bios sc1)(bio_array sc ! i := \<lparr>bio_fd = -1, bio_nbio = True\<rparr>)\<rparr>
         in (case ssl_array sc of
               None \<Rightarrow> Inr sc2
             | Some ss \<Rightarrow> assert_that ''ret == 1'' (ssl_clear_ret E (ss ! i) = 1)
                 (Inr (sc2\<lparr>ssl_bio := (ssl_bio sc2)(ss ! i := Some (bio_array sc ! i))\<rparr>)))))"

definition reset_request_at_index :: "nat \<Rightarrow> session_cache \<Rightarrow> session_cache" where
  "reset_request_at_index i sc =
     (let ssl = is_ssl (requests sc (request_array sc ! i))
      in sc\<lparr>buffers := (buffers sc)(buffer_array sc ! i := \<lparr>capacity = 0, count = 0, data = None\<rparr>),
            requests := (requests sc)(request_array sc ! i := zero_request\<lparr>is_ssl := ssl\<rparr>)\<rparr>)"

section \<open>Adding and deleting\<close>

text \<open>
  \<open>init_session_connection\<close>: its return value; \<open>SSL_set_bio\<close> binds the BIO of the same index.
  Both reasons of a failed handshake return \<open>-1\<close>.
\<close>

definition init_session_connection :: "env \<Rightarrow> nat \<Rightarrow> session_cache \<Rightarrow> (int \<times> session_cache) result" where
  "init_session_connection E i sc =
     (case ssl_array sc of
        None \<Rightarrow> Inl (Assert_failed ''ssl_array != NULL'')
      | Some ss \<Rightarrow>
          let sc1 = sc\<lparr>ssl_bio := (ssl_bio sc)(ss ! i := Some (bio_array sc ! i))\<rparr>;
              ret = ssl_accept_ret E (ss ! i)
          in if ret \<le> 0 \<or> ret = 2
             then if ssl_get_error_ret E (ss ! i) ret = SSL_ERROR_WANT_READ then Inr (1, sc1)
                  else Inr (-1, sc1)
             else Inr (ret, sc1))"

definition add_to_session :: "env \<Rightarrow> int \<Rightarrow> session_cache \<Rightarrow> (nat \<times> session_cache) result" where
  "add_to_session E f sc =
     (let next = (if session_count sc < max_size sc then session_count sc else session_last_index sc)
      in assert_that ''next < max_size'' (next < max_size sc) (
         and_then (reset_session_at_index E next sc) (\<lambda>sc1.
         let p = session_array sc1 ! next; q = status_array sc1 ! next; r = bio_array sc1 ! next;
             sc2 = sc1\<lparr>sessions := (sessions sc1)(p := \<lparr>session_id = rand_ret E, related_fd = f, thread_id = 0\<rparr>),
                       statuses := (statuses sc1)(q := char_and (statuses sc1 q) (ws_code WORK_STATUS_INITIAL)),
                       bios := (bios sc1)(r := \<lparr>bio_fd = f, bio_nbio = True\<rparr>)\<rparr>
         in Inr (next,
              if session_count sc2 < max_size sc2
              then sc2\<lparr>session_count := session_count sc2 + 1\<rparr>
              else sc2\<lparr>session_last_index := (session_last_index sc2 + 1) mod max_size sc2\<rparr>))))"

text \<open>The seven saved pointers of \<open>del_from_session\<close> and its loop; \<open>n\<close> iterations are left.\<close>

record saved =
  s_session :: ptr
  s_status :: ptr
  s_buffer :: ptr
  s_request :: ptr
  s_response :: ptr
  s_bio :: ptr
  s_ssl :: ptr

definition swap_up :: "nat \<Rightarrow> ptr \<Rightarrow> ptr list \<Rightarrow> ptr list" where
  "swap_up i saved xs = (xs[i := xs ! (i + 1)])[i + 1 := saved]"

fun del_loop :: "saved \<Rightarrow> nat \<Rightarrow> nat \<Rightarrow> session_cache \<Rightarrow> session_cache result" where
  "del_loop s i 0 sc = Inr sc"
| "del_loop s i (Suc n) sc =
     in_bounds ''session_array'' (i + 1 < length (session_array sc)) (
     del_loop s (i + 1) n
       (sc\<lparr>session_array := swap_up i (s_session s) (session_array sc),
           status_array := swap_up i (s_status s) (status_array sc),
           buffer_array := swap_up i (s_buffer s) (buffer_array sc),
           request_array := swap_up i (s_request s) (request_array sc),
           response_array := swap_up i (s_response s) (response_array sc),
           bio_array := swap_up i (s_bio s) (bio_array sc),
           ssl_array := map_option (swap_up i (s_ssl s)) (ssl_array sc)\<rparr>))"

text \<open>
  \<open>for (; i < session_count - 1; i++)\<close> with \<open>session_count\<close> unsigned; the test behind it reads the
  loop's final \<open>i\<close>.
\<close>

definition del_from_session :: "env \<Rightarrow> nat \<Rightarrow> session_cache \<Rightarrow> session_cache result" where
  "del_from_session E i sc =
     (let s = \<lparr>s_session = session_array sc ! i, s_status = status_array sc ! i,
               s_buffer = buffer_array sc ! i, s_request = request_array sc ! i,
               s_response = response_array sc ! i, s_bio = bio_array sc ! i,
               s_ssl = (case ssl_array sc of None \<Rightarrow> 0 | Some ss \<Rightarrow> ss ! i)\<rparr>
      in and_then (reset_session_at_index E i sc) (\<lambda>sc1.
         let n = (session_count sc1 + 2 ^ 32 - 1) mod 2 ^ 32 - i
         in and_then (del_loop s i n sc1) (\<lambda>sc2.
         let sc3 = (if 0 < session_count sc2 then sc2\<lparr>session_count := session_count sc2 - 1\<rparr> else sc2)
         in Inr (if i + n < session_last_index sc3
                 then sc3\<lparr>session_last_index := session_last_index sc3 - 1\<rparr> else sc3))))"

section \<open>Pushing\<close>

text \<open>
  The body of the loop of \<open>push_request\<close> for the session at index \<open>i\<close>, up to the end of the
  \<open>switch\<close> on the pushed status.
\<close>

definition set_status :: "nat \<Rightarrow> (8 word \<Rightarrow> 8 word) \<Rightarrow> session_cache \<Rightarrow> session_cache" where
  "set_status i g sc = sc\<lparr>statuses := (statuses sc)(status_array sc ! i := g (statuses sc (status_array sc ! i)))\<rparr>"

definition status_at :: "nat \<Rightarrow> session_cache \<Rightarrow> 8 word" where
  "status_at i sc = statuses sc (status_array sc ! i)"

definition fd_at :: "nat \<Rightarrow> session_cache \<Rightarrow> int" where
  "fd_at i sc = related_fd (sessions sc (session_array sc ! i))"

abbreviation signal :: "cond \<Rightarrow> world \<Rightarrow> world" where
  "signal c w \<equiv> w\<lparr>broadcasts := broadcasts w @ [c]\<rparr>"

definition push_found :: "env \<Rightarrow> nat \<Rightarrow> int \<Rightarrow> WORK_STATUS \<Rightarrow> world \<Rightarrow> world result" where
  "push_found E i f st w =
     assert_that ''*status_array[i] & WORK_STATUS_PROCESSING''
       (has_status (status_at i (cache w)) WORK_STATUS_PROCESSING) (
     let w1 = w\<lparr>cache := set_status i (\<lambda>s. char_or (char_and s (NOT (ws_code WORK_STATUS_PROCESSING)))
                                          (ws_code st)) (cache w)\<rparr>
     in (case st of
           WORK_STATUS_INITIAL_SSL \<Rightarrow>
             Inr (w1\<lparr>cache := set_status i (\<lambda>s. char_or s (ws_code WORK_STATUS_INITIAL)) (cache w1)\<rparr>)
         | WORK_STATUS_INITIAL \<Rightarrow> Inr w1
         | WORK_STATUS_REQUEST_READ \<Rightarrow> Inr (signal request_read_cond w1)
         | WORK_STATUS_PARSED \<Rightarrow> Inr (signal parsed_cond w1)
         | WORK_STATUS_DATA_FETCHED \<Rightarrow> Inr (signal data_fetched_cond w1)
         | WORK_STATUS_READY_TO_SEND \<Rightarrow> Inr (signal response_generated_cond w1)
         | WORK_STATUS_SEND_FAILED \<Rightarrow>
             Inr (w1\<lparr>cache := set_status i (\<lambda>s. char_and s (NOT (ws_code WORK_STATUS_READY_TO_SEND))) (cache w1)\<rparr>)
         | WORK_STATUS_SENT \<Rightarrow>
             Inr (w1\<lparr>cache := reset_request_at_index i
               (set_status i (\<lambda>s. char_and s (NOT (ws_code WORK_STATUS_REQUEST_READ OR ws_code WORK_STATUS_PARSED
                                   OR ws_code WORK_STATUS_DATA_FETCHED OR ws_code WORK_STATUS_READY_TO_SEND)))
                 (cache w1))\<rparr>)
         | WORK_STATUS_PROCESSING \<Rightarrow> Inr w1
         | WORK_STATUS_REJECTED \<Rightarrow>
             and_then (del_from_session E i (cache w1)) (\<lambda>sc.
             and_then (mark f (marked_fds w1)) (\<lambda>m.
             Inr (w1\<lparr>cache := sc, marked_fds := m\<rparr>)))))"

lemma del_loop_frame:
  "del_loop s i n sc = Inr sc' \<Longrightarrow> session_count sc' = session_count sc \<and>
     max_size sc' = max_size sc \<and> session_last_index sc' = session_last_index sc"
  by (induction s i n sc rule: del_loop.induct) auto

lemma reset_session_frame:
  "reset_session_at_index E i sc = Inr sc' \<Longrightarrow> session_count sc' = session_count sc \<and>
     max_size sc' = max_size sc \<and> session_last_index sc' = session_last_index sc"
  by (auto simp: reset_session_at_index_def Let_def split: option.splits)

lemma del_from_session_count:
  "del_from_session E i sc = Inr sc' \<Longrightarrow> session_count sc' \<le> session_count sc"
  by (auto simp: del_from_session_def Let_def dest!: del_loop_frame reset_session_frame)

lemma push_found_count:
  "push_found E i f st w = Inr w' \<Longrightarrow> session_count (cache w') \<le> session_count (cache w)"
  by (cases st)
    (auto simp: push_found_def set_status_def reset_request_at_index_def Let_def
      dest: del_from_session_count)

text \<open>The loop of \<open>push_request\<close>: it does not stop at the first match.\<close>

function push_scan :: "env \<Rightarrow> int \<Rightarrow> WORK_STATUS \<Rightarrow> nat \<Rightarrow> bool \<Rightarrow> world \<Rightarrow> (bool \<times> world) result" where
  "push_scan E f st i found w =
     (if i < session_count (cache w)
      then if fd_at i (cache w) = f
           then and_then (push_found E i f st w) (push_scan E f st (i + 1) True)
           else push_scan E f st (i + 1) found w
      else Inr (found, w))"
  by pat_completeness auto
termination
  by (relation "measure (\<lambda>(E, f, st, i, found, w). session_count (cache w) - i)")
    (auto dest!: push_found_count)

declare push_scan.simps [simp del]

definition push_request :: "env \<Rightarrow> int \<Rightarrow> WORK_STATUS \<Rightarrow> world \<Rightarrow> world result" where
  "push_request E f st w =
     assert_that ''related_fd > 0'' (0 < f) (
     assert_that ''related_fd < 16384'' (f < 16384) (
     and_then (push_scan E f st 0 False w) (\<lambda>(found, w1).
     if \<not> found \<and> (st = WORK_STATUS_INITIAL \<or> st = WORK_STATUS_INITIAL_SSL)
     then and_then (add_to_session E f (cache w1)) (\<lambda>(i, sc).
       if st = WORK_STATUS_INITIAL_SSL
       then and_then (init_session_connection E i sc) (\<lambda>(ret, sc1).
         if ret = 1
         then Inr (w1\<lparr>cache := sc1\<lparr>requests := (requests sc1)(request_array sc1 ! i :=
                       (requests sc1 (request_array sc1 ! i))\<lparr>is_ssl := True\<rparr>)\<rparr>\<rparr>)
         else if ret = -1
         then and_then (del_from_session E i sc1) (\<lambda>sc2.
              and_then (mark f (marked_fds w1)) (\<lambda>m. Inr (w1\<lparr>cache := sc2, marked_fds := m\<rparr>)))
         else Inl (Assert_failed ''0''))
       else Inr (w1\<lparr>cache := sc\<rparr>))
     else Inr w1)))"

section \<open>Popping\<close>

text \<open>The inner loop of \<open>peek_next\<close> over the bits \<open>n - 1\<close> down to 0.\<close>

fun peek_bits :: "nat \<Rightarrow> WORK_STATUS \<Rightarrow> 8 word \<Rightarrow> bool" where
  "peek_bits 0 st s = False"
| "peek_bits (Suc b) st s =
     (if ws_code st < 2 ^ b \<and> 2 ^ b AND promote s \<noteq> 0 then False
      else if 2 ^ b = ws_code st \<and> ws_code st AND promote s \<noteq> 0 then True
      else peek_bits b st s)"

definition peek_test :: "WORK_STATUS \<Rightarrow> 8 word \<Rightarrow> bool" where
  "peek_test st s \<longleftrightarrow> \<not> promote s < ws_code st \<and> \<not> has_status s WORK_STATUS_PROCESSING \<and>
     \<not> has_status s WORK_STATUS_SEND_FAILED \<and> peek_bits 5 st s"

text \<open>The outer loop: it runs to the end, so a later session overwrites an earlier hit.\<close>

fun peek_scan_sessions :: "WORK_STATUS \<Rightarrow> session_cache \<Rightarrow> nat \<Rightarrow> nat \<Rightarrow> nat option \<Rightarrow> nat option" where
  "peek_scan_sessions st sc i 0 index = index"
| "peek_scan_sessions st sc i (Suc n) index =
     peek_scan_sessions st sc (i + 1) n (if peek_test st (status_at i sc) then Some i else index)"

definition peek_next :: "WORK_STATUS \<Rightarrow> session_cache \<Rightarrow> nat option" where
  "peek_next st sc = peek_scan_sessions st sc 0 (session_count sc) None"

definition full_return :: "nat \<Rightarrow> session_cache \<Rightarrow> session_full_return" where
  "full_return i sc =
     \<lparr>r_session = session_array sc ! i, r_bio = bio_array sc ! i,
      r_ssl = map_option (\<lambda>ss. ss ! i) (ssl_array sc), r_buffer = buffer_array sc ! i,
      r_request = request_array sc ! i, r_response = response_array sc ! i\<rparr>"

fun wait_cond :: "WORK_STATUS \<Rightarrow> cond option" where
  "wait_cond WORK_STATUS_REQUEST_READ = Some request_read_cond"
| "wait_cond WORK_STATUS_PARSED = Some parsed_cond"
| "wait_cond WORK_STATUS_DATA_FETCHED = Some data_fetched_cond"
| "wait_cond WORK_STATUS_READY_TO_SEND = Some response_generated_cond"
| "wait_cond _ = None"

text \<open>
  One evaluation of the guard of \<open>pop_request\<close>: it either waits on a condition (and is woken by a
  broadcast of it, to evaluate the guard again) or returns, with \<open>None\<close> for the null pointers
  returned when the server stops.
\<close>

datatype 'a pop = Waits cond | Pops "'a option"

definition pop_request :: "WORK_STATUS \<Rightarrow> bool \<Rightarrow> session_cache \<Rightarrow>
    (session_full_return pop \<times> session_cache) result" where
  "pop_request st stopped sc =
     (case peek_next st sc of
        Some i \<Rightarrow> Inr (Pops (Some (full_return i sc)),
          set_status i (\<lambda>s. char_or s (ws_code WORK_STATUS_PROCESSING)) sc)
      | None \<Rightarrow>
          if stopped then Inr (Pops None, sc)
          else (case wait_cond st of
                  None \<Rightarrow> Inl (Assert_failed ''0'')
                | Some c \<Rightarrow> Inr (Waits c, sc)))"

fun find_fd :: "int \<Rightarrow> session_cache \<Rightarrow> nat \<Rightarrow> nat \<Rightarrow> nat option" where
  "find_fd f sc i 0 = None"
| "find_fd f sc i (Suc n) = (if fd_at i sc = f then Some i else find_fd f sc (i + 1) n)"

definition pop_request_by_fd :: "int \<Rightarrow> session_cache \<Rightarrow>
    (session_full_return option \<times> session_cache) result" where
  "pop_request_by_fd f sc =
     assert_that ''related_fd > 0'' (0 < f) (
     assert_that ''related_fd < 16384'' (f < 16384) (
     case find_fd f sc 0 (session_count sc) of
       None \<Rightarrow> Inr (None, sc)
     | Some i \<Rightarrow>
         let s = status_at i sc
         in if \<not> has_status s WORK_STATUS_SEND_FAILED \<and>
               (has_status s WORK_STATUS_REQUEST_READ \<or> has_status s WORK_STATUS_PARSED \<or>
                has_status s WORK_STATUS_DATA_FETCHED \<or> has_status s WORK_STATUS_PROCESSING \<or>
                has_status s WORK_STATUS_READY_TO_SEND)
            then Inr (None, sc)
            else Inr (Some (full_return i sc),
                   set_status i (\<lambda>s. char_or s (ws_code WORK_STATUS_PROCESSING)) sc)))"

definition broadcast_session :: "world \<Rightarrow> world" where
  "broadcast_session w = w\<lparr>broadcasts := broadcasts w @
     [request_read_cond, parsed_cond, data_fetched_cond, response_generated_cond]\<rparr>"

fun find_thread :: "nat \<Rightarrow> session_cache \<Rightarrow> nat \<Rightarrow> nat \<Rightarrow> int" where
  "find_thread t sc i 0 = -1"
| "find_thread t sc i (Suc n) =
     (let s = sessions sc (session_array sc ! i)
      in if thread_id s = t then session_id s else find_thread t sc (i + 1) n)"

definition get_session_id_for_thread :: "nat \<Rightarrow> session_cache \<Rightarrow> int" where
  "get_session_id_for_thread t sc = find_thread t sc 0 (session_count sc)"

end
