(* ===== verification/SessionTable.thy ===== *)
theory SessionTable
  imports Session
begin

text \<open>
  The session table of \<^verbatim>\<open>Session\<close> proved correct: the status byte as a set of bits, the scheduling
  rule of \<open>peek_next\<close>, the seven arrays in lockstep, and for each operation what it does to the
  abstract table, the list of connections with their descriptor, status and objects.
\<close>

section \<open>The status byte\<close>

lemma uint_exp_word32: "n < 32 \<Longrightarrow> uint (2 ^ n :: 32 word) = 2 ^ n"
  by (rule uint_2p) (simp add: word_gt_0 exp_eq_zero_iff)

lemma exp_word32_less [simp]: "m < 32 \<Longrightarrow> n < 32 \<Longrightarrow> (2 ^ m :: 32 word) < 2 ^ n \<longleftrightarrow> m < n"
  by (simp add: word_less_alt uint_exp_word32)

lemma exp_word32_eq [simp]: "m < 32 \<Longrightarrow> n < 32 \<Longrightarrow> (2 ^ m :: 32 word) = 2 ^ n \<longleftrightarrow> m = n"
  by (metis bit_exp_iff exp_word32_less linorder_neq_iff)

lemma ws_bit_bound: "ws_bit st < 10"
  by (cases st) auto

lemma bit_ws_code: "bit (ws_code st) n \<longleftrightarrow> n = ws_bit st"
  using ws_bit_bound [of st] by (auto simp: ws_code_def bit_exp_iff)

lemma bit_promote: "bit (promote s) n \<longleftrightarrow> n < 32 \<and> bit s (min n 7)"
  by (auto simp: promote_def bit_word_scast_iff min_def not_le dest: bit_imp_le_length)

lemma has_status_bit: "has_status s st \<longleftrightarrow> bit s (min (ws_bit st) 7)"
  using ws_bit_bound [of st] by (auto simp: has_status_def ws_code_def bit_promote)

lemma bit_char_or: "bit (char_or s w) n \<longleftrightarrow> n < 8 \<and> (bit s n \<or> bit w n)"
  by (auto simp: char_or_def bit_word_ucast_iff bit_or_iff bit_promote min_def)

lemma bit_char_and: "bit (char_and s w) n \<longleftrightarrow> n < 8 \<and> bit s n \<and> bit w n"
  by (auto simp: char_and_def bit_word_ucast_iff bit_and_iff bit_promote min_def)

lemma bit_char_clear:
  "bit (char_and s (NOT w)) n \<longleftrightarrow> n < 8 \<and> bit s n \<and> \<not> bit w n"
  by (auto simp: bit_char_and bit_not_iff)

lemmas status_bits = has_status_bit bit_char_or bit_char_clear bit_ws_code bit_or_iff

text \<open>
  A session is at the stage of the highest of its bits 0 to 4, and may be taken by the worker of
  that stage when it is not being processed and no send has failed.
\<close>

definition at_stage :: "WORK_STATUS \<Rightarrow> 8 word \<Rightarrow> bool" where
  "at_stage st s \<longleftrightarrow> ws_bit st < 5 \<and> bit s (ws_bit st) \<and>
     (\<forall>b \<in> {0, 1, 2, 3, 4}. ws_bit st < b \<longrightarrow> \<not> bit s b)"

definition ready :: "WORK_STATUS \<Rightarrow> 8 word \<Rightarrow> bool" where
  "ready st s \<longleftrightarrow> at_stage st s \<and> \<not> has_status s WORK_STATUS_PROCESSING \<and>
     \<not> has_status s WORK_STATUS_SEND_FAILED"

lemma bit_le_word: "bit w n \<Longrightarrow> 2 ^ n \<le> (w :: 'a::len word)"
proof -
  assume b: "bit w n"
  have "w AND 2 ^ n = 2 ^ n"
    by (rule bit_word_eqI) (use b in \<open>auto simp: bit_and_iff bit_exp_iff\<close>)
  then show "2 ^ n \<le> w" using word_and_le2 [of w "2 ^ n"] by simp
qed

lemma peek_bits_iff:
  assumes "n \<le> 8"
  shows "peek_bits n st s \<longleftrightarrow> ws_bit st < n \<and> bit s (ws_bit st) \<and>
    (\<forall>b. ws_bit st < b \<and> b < n \<longrightarrow> \<not> bit s b)"
  using assms
proof (induction n)
  case 0
  then show ?case by simp
next
  case (Suc b)
  have c: "ws_code st < 2 ^ b \<longleftrightarrow> ws_bit st < b" "2 ^ b = ws_code st \<longleftrightarrow> b = ws_bit st"
    using Suc.prems ws_bit_bound [of st] by (auto simp: ws_code_def)
  have "2 ^ b AND promote s \<noteq> 0 \<longleftrightarrow> bit s b"
    using Suc.prems by (subst and.commute) (auto simp: bit_promote min_def)
  moreover have "ws_code st AND promote s \<noteq> 0 \<longleftrightarrow> bit s (ws_bit st)" if "b = ws_bit st"
    using Suc.prems that by (subst and.commute) (auto simp: ws_code_def bit_promote min_def)
  ultimately have step: "peek_bits (Suc b) st s \<longleftrightarrow>
      (if ws_bit st < b \<and> bit s b then False else if b = ws_bit st \<and> bit s (ws_bit st) then True
       else peek_bits b st s)"
    by (simp add: c cong: conj_cong)
  have IH: "peek_bits b st s \<longleftrightarrow> ws_bit st < b \<and> bit s (ws_bit st) \<and>
      (\<forall>d. ws_bit st < d \<and> d < b \<longrightarrow> \<not> bit s d)"
    using Suc by simp
  show ?case unfolding step IH less_Suc_eq by (cases "ws_bit st < b"; cases "bit s b") auto
qed

lemma less_5_iff: "n < (5::nat) \<longleftrightarrow> n \<in> {0, 1, 2, 3, 4}"
  by auto

lemma peek_bits_stage: "peek_bits 5 st s \<longleftrightarrow> at_stage st s"
proof -
  have "peek_bits 5 st s \<longleftrightarrow> ws_bit st < 5 \<and> bit s (ws_bit st) \<and>
      (\<forall>b. ws_bit st < b \<and> b < 5 \<longrightarrow> \<not> bit s b)"
    by (rule peek_bits_iff) simp
  also have "(\<forall>b. ws_bit st < b \<and> b < 5 \<longrightarrow> \<not> bit s b) \<longleftrightarrow>
      (\<forall>b \<in> {0, 1, 2, 3, 4}. ws_bit st < b \<longrightarrow> \<not> bit s b)"
    unfolding less_5_iff by blast
  finally show ?thesis unfolding at_stage_def .
qed

lemma peek_test_iff: "peek_test st s \<longleftrightarrow> ready st s"
proof -
  have "\<not> promote s < ws_code st" if "at_stage st s"
  proof -
    from that have "bit (promote s) (ws_bit st)"
      by (auto simp: at_stage_def bit_promote)
    from bit_le_word [OF this] show ?thesis by (simp add: ws_code_def not_less)
  qed
  then show ?thesis unfolding peek_test_def ready_def peek_bits_stage by blast
qed

lemma at_stage_unique: "at_stage st s \<Longrightarrow> at_stage st' s \<Longrightarrow> st = st'"
  by (cases st; cases st') (auto simp: at_stage_def)

section \<open>The seven arrays in lockstep\<close>

text \<open>
  The arrays always hold the same addresses in the same order, so a session is one slot. The
  abstract table lists the slots in use with the descriptor and status stored there.
\<close>

definition lockstep :: "session_cache \<Rightarrow> bool" where
  "lockstep sc \<longleftrightarrow> status_array sc = session_array sc \<and> buffer_array sc = session_array sc \<and>
     request_array sc = session_array sc \<and> response_array sc = session_array sc \<and>
     bio_array sc = session_array sc \<and>
     (case ssl_array sc of None \<Rightarrow> True | Some ss \<Rightarrow> ss = session_array sc)"

definition set_slots :: "ptr list \<Rightarrow> session_cache \<Rightarrow> session_cache" where
  "set_slots ps sc = sc\<lparr>session_array := ps, status_array := ps, buffer_array := ps,
     request_array := ps, response_array := ps, bio_array := ps,
     ssl_array := map_option (\<lambda>_. ps) (ssl_array sc)\<rparr>"

lemma set_slots_simps [simp]:
  "session_array (set_slots ps sc) = ps" "status_array (set_slots ps sc) = ps"
  "buffer_array (set_slots ps sc) = ps" "request_array (set_slots ps sc) = ps"
  "response_array (set_slots ps sc) = ps" "bio_array (set_slots ps sc) = ps"
  "ssl_array (set_slots ps sc) = map_option (\<lambda>_. ps) (ssl_array sc)"
  "max_size (set_slots ps sc) = max_size sc" "session_count (set_slots ps sc) = session_count sc"
  "session_last_index (set_slots ps sc) = session_last_index sc"
  "sessions (set_slots ps sc) = sessions sc" "statuses (set_slots ps sc) = statuses sc"
  "buffers (set_slots ps sc) = buffers sc" "requests (set_slots ps sc) = requests sc"
  "responses (set_slots ps sc) = responses sc" "bios (set_slots ps sc) = bios sc"
  "ssl_bio (set_slots ps sc) = ssl_bio sc"
  by (simp_all add: set_slots_def)

lemma lockstep_set_slots [simp]: "lockstep (set_slots ps sc)"
  by (simp add: lockstep_def split: option.splits)

lemma lockstep_arrays:
  assumes "lockstep sc"
  shows "status_array sc = session_array sc" "buffer_array sc = session_array sc"
    "request_array sc = session_array sc" "response_array sc = session_array sc"
    "bio_array sc = session_array sc"
  using assms by (auto simp: lockstep_def)

lemma lockstep_ssl: "lockstep sc \<Longrightarrow> ssl_array sc = Some ss \<Longrightarrow> ss = session_array sc"
  by (simp add: lockstep_def)

text \<open>The shifting loop moves one slot behind the \<open>n\<close> that follow it.\<close>

fun shift_slot :: "ptr \<Rightarrow> nat \<Rightarrow> nat \<Rightarrow> ptr list \<Rightarrow> ptr list" where
  "shift_slot p i 0 ps = ps"
| "shift_slot p i (Suc n) ps = shift_slot p (i + 1) n (swap_up i p ps)"

lemma del_loop_slots:
  "i + n < length ps \<Longrightarrow> ssl_array sc \<noteq> None \<longrightarrow> s_ssl s = p \<Longrightarrow>
   s_session s = p \<Longrightarrow> s_status s = p \<Longrightarrow> s_buffer s = p \<Longrightarrow> s_request s = p \<Longrightarrow>
   s_response s = p \<Longrightarrow> s_bio s = p \<Longrightarrow>
   del_loop s i n (set_slots ps sc) = Inr (set_slots (shift_slot p i n ps) sc)"
proof (induction n arbitrary: i ps)
  case 0
  then show ?case by simp
next
  case (Suc n)
  have len: "i + 1 < length ps" using Suc.prems(1) by simp
  have "(set_slots ps sc)\<lparr>session_array := swap_up i p ps, status_array := swap_up i p ps,
      buffer_array := swap_up i p ps, request_array := swap_up i p ps,
      response_array := swap_up i p ps, bio_array := swap_up i p ps,
      ssl_array := map_option (swap_up i (s_ssl s)) (map_option (\<lambda>_. ps) (ssl_array sc))\<rparr>
    = set_slots (swap_up i p ps) sc"
    using Suc.prems(2) by (cases "ssl_array sc") (auto simp: set_slots_def)
  then show ?case
    using Suc.prems Suc.IH [of "i + 1" "swap_up i p ps"] len by (simp add: swap_up_def)
qed

lemma swap_up_split:
  "length xs = i \<Longrightarrow> swap_up i p (xs @ p # y # ys) = xs @ y # p # ys"
  by (simp add: swap_up_def list_update_append nth_append)

lemma shift_slot_split:
  "length xs = i \<Longrightarrow> length ys = n \<Longrightarrow>
   shift_slot p i n (xs @ p # ys @ zs) = xs @ ys @ p # zs"
proof (induction n arbitrary: i xs ys)
  case 0
  then show ?case by simp
next
  case (Suc n)
  then obtain y ys' where ys: "ys = y # ys'" by (cases ys) auto
  have "shift_slot p (Suc i) n ((xs @ [y]) @ p # ys' @ zs) = (xs @ [y]) @ ys' @ p # zs"
    by (rule Suc.IH) (use Suc.prems ys in auto)
  then show ?case using Suc.prems(1) ys by (simp add: swap_up_split)
qed

lemma shift_slot_eq:
  assumes "i + n < length ps"
  shows "shift_slot (ps ! i) i n ps = take i ps @ take n (drop (Suc i) ps) @ ps ! i # drop (Suc (i + n)) ps"
proof -
  have 1: "ps = take i ps @ ps ! i # drop (Suc i) ps"
    by (rule id_take_nth_drop) (use assms in simp)
  have 2: "drop (Suc i) ps = take n (drop (Suc i) ps) @ drop (Suc (i + n)) ps"
    using append_take_drop_id [of n "drop (Suc i) ps"] by (simp add: add.commute)
  have "shift_slot (ps ! i) i n (take i ps @ ps ! i # take n (drop (Suc i) ps) @ drop (Suc (i + n)) ps)
      = take i ps @ take n (drop (Suc i) ps) @ ps ! i # drop (Suc (i + n)) ps"
    by (rule shift_slot_split) (use assms in simp_all)
  then show ?thesis unfolding 2 [symmetric] 1 [symmetric] .
qed

section \<open>The abstract table\<close>

record conn =
  conn_slot :: ptr
  conn_fd :: int
  conn_status :: "8 word"

definition conn_at :: "session_cache \<Rightarrow> ptr \<Rightarrow> conn" where
  "conn_at sc p = \<lparr>conn_slot = p, conn_fd = related_fd (sessions sc p), conn_status = statuses sc p\<rparr>"

definition slots :: "session_cache \<Rightarrow> ptr list" where
  "slots sc = take (session_count sc) (session_array sc)"

definition conn_table :: "session_cache \<Rightarrow> conn list" where
  "conn_table sc = map (conn_at sc) (slots sc)"

definition spare :: "session_cache \<Rightarrow> ptr \<Rightarrow> bool" where
  "spare sc p \<longleftrightarrow> sessions sc p = zero_session \<and> statuses sc p = 0 \<and> bio_fd (bios sc p) = -1"

definition cache_wf :: "session_cache \<Rightarrow> bool" where
  "cache_wf sc \<longleftrightarrow> lockstep sc \<and> distinct (session_array sc) \<and>
     length (session_array sc) = max_size sc \<and> max_size sc < 2 ^ 31 \<and>
     session_count sc \<le> max_size sc \<and> session_last_index sc \<le> max_size sc - 1 \<and>
     distinct (map conn_fd (conn_table sc)) \<and>
     (\<forall>p \<in> set (slots sc). bio_fd (bios sc p) = related_fd (sessions sc p) \<and>
        0 < related_fd (sessions sc p) \<and> related_fd (sessions sc p) < 16384) \<and>
     (\<forall>p \<in> set (drop (session_count sc) (session_array sc)). spare sc p) \<and>
     (\<forall>p \<in> set (session_array sc). buffer_wf (buffers sc p))"

lemma length_conn_table [simp]:
  "cache_wf sc \<Longrightarrow> length (conn_table sc) = session_count sc"
  by (simp add: conn_table_def slots_def cache_wf_def)

lemma nth_conn_table:
  "i < session_count sc \<Longrightarrow> cache_wf sc \<Longrightarrow> conn_table sc ! i = conn_at sc (session_array sc ! i)"
  by (simp add: conn_table_def slots_def cache_wf_def)

lemma status_at_table:
  "i < session_count sc \<Longrightarrow> cache_wf sc \<Longrightarrow> status_at i sc = conn_status (conn_table sc ! i)"
  by (simp add: nth_conn_table conn_at_def status_at_def cache_wf_def lockstep_arrays)

lemma fd_at_table:
  "i < session_count sc \<Longrightarrow> cache_wf sc \<Longrightarrow> fd_at i sc = conn_fd (conn_table sc ! i)"
  by (simp add: nth_conn_table conn_at_def fd_at_def)

section \<open>Reset, add and delete on the table\<close>

definition blank_slot :: "ptr \<Rightarrow> (ptr \<Rightarrow> ptr option) \<Rightarrow> session_cache \<Rightarrow> session_cache" where
  "blank_slot p sb sc = sc\<lparr>sessions := (sessions sc)(p := zero_session),
     statuses := (statuses sc)(p := 0),
     buffers := (buffers sc)(p := (buffers sc p)\<lparr>
       data := map_option (\<lambda>_. replicate (capacity (buffers sc p)) NUL) (data (buffers sc p)), count := 0\<rparr>),
     requests := (requests sc)(p := zero_request),
     responses := (responses sc)(p := zero_response),
     bios := (bios sc)(p := \<lparr>bio_fd = -1, bio_nbio = True\<rparr>), ssl_bio := sb\<rparr>"

lemma blank_slot_simps [simp]:
  "session_array (blank_slot p sb sc) = session_array sc"
  "lockstep (blank_slot p sb sc) = lockstep sc"
  "ssl_array (blank_slot p sb sc) = ssl_array sc"
  "max_size (blank_slot p sb sc) = max_size sc"
  "session_count (blank_slot p sb sc) = session_count sc"
  "session_last_index (blank_slot p sb sc) = session_last_index sc"
  "sessions (blank_slot p sb sc) = (sessions sc)(p := zero_session)"
  "statuses (blank_slot p sb sc) = (statuses sc)(p := 0)"
  "bios (blank_slot p sb sc) = (bios sc)(p := \<lparr>bio_fd = -1, bio_nbio = True\<rparr>)"
  "slots (blank_slot p sb sc) = slots sc"
  by (simp_all add: blank_slot_def lockstep_def slots_def split: option.split)

lemma reset_session_blank:
  assumes "reset_session_at_index E i sc = Inr sc'" and "lockstep sc"
  shows "\<exists>sb. sc' = blank_slot (session_array sc ! i) sb sc"
proof (cases "ssl_array sc")
  case None
  with assms have "sc' = blank_slot (session_array sc ! i) (ssl_bio sc) sc"
    by (auto simp: reset_session_at_index_def Let_def lockstep_arrays blank_slot_def)
  then show ?thesis by blast
next
  case (Some ss)
  with assms have "sc' = blank_slot (session_array sc ! i)
      ((ssl_bio sc)(session_array sc ! i := Some (session_array sc ! i))) sc"
    by (auto simp: reset_session_at_index_def Let_def lockstep_def blank_slot_def)
  then show ?thesis by blast
qed

text \<open>When OpenSSL resets a socket BIO and clears an \<open>SSL\<close>, which it does unless it has no memory.\<close>

definition resets_ok :: "env \<Rightarrow> bool" where
  "resets_ok E \<longleftrightarrow> (\<forall>p. bio_reset_ret E p \<noteq> -1) \<and> (\<forall>p. ssl_clear_ret E p = 1)"

lemma reset_session_returns:
  "resets_ok E \<Longrightarrow> \<exists>sc'. reset_session_at_index E i sc = Inr sc'"
  by (auto simp: resets_ok_def reset_session_at_index_def Let_def split: option.splits)

definition deleted :: "nat \<Rightarrow> (ptr \<Rightarrow> ptr option) \<Rightarrow> session_cache \<Rightarrow> session_cache" where
  "deleted i sb sc =
     (let ps = session_array sc; n = session_count sc - 1
      in (set_slots (take i ps @ take (n - i) (drop (Suc i) ps) @ ps ! i # drop (Suc n) ps)
           (blank_slot (ps ! i) sb sc))
         \<lparr>session_count := n, session_last_index :=
            (if n < session_last_index sc then session_last_index sc - 1 else session_last_index sc)\<rparr>)"

lemma set_slots_id: "lockstep sc \<Longrightarrow> set_slots (session_array sc) sc = sc"
  by (cases "ssl_array sc") (auto simp: set_slots_def lockstep_def)

lemma count_pred:
  "0 < c \<Longrightarrow> c \<le> 2 ^ 31 \<Longrightarrow> (c + 2 ^ 32 - 1) mod 2 ^ 32 = (c - 1 :: nat)"
proof -
  assume c: "0 < c" "c \<le> 2 ^ 31"
  then obtain k where k: "c = Suc k" by (cases c) auto
  have "c + 2 ^ 32 - 1 = k + 2 ^ 32" unfolding k by linarith
  moreover have "k < 2 ^ 32" using c k by simp
  ultimately have "(c + 2 ^ 32 - 1) mod 2 ^ 32 = k"
    by (simp only: mod_add_self2 mod_less)
  then show ?thesis using k by linarith
qed

lemma del_from_session_eq:
  assumes del: "del_from_session E i sc = Inr sc'" and lock: "lockstep sc"
    and i: "i < session_count sc" and len: "session_count sc \<le> length (session_array sc)"
    and small: "session_count sc \<le> 2 ^ 31"
  shows "\<exists>sb. sc' = deleted i sb sc"
proof -
  let ?ps = "session_array sc"
  let ?p = "?ps ! i"
  define s where "s = \<lparr>s_session = ?ps ! i, s_status = status_array sc ! i,
      s_buffer = buffer_array sc ! i, s_request = request_array sc ! i,
      s_response = response_array sc ! i, s_bio = bio_array sc ! i,
      s_ssl = (case ssl_array sc of None \<Rightarrow> 0 | Some ss \<Rightarrow> ss ! i)\<rparr>"
  have s: "s_session s = ?p" "s_status s = ?p" "s_buffer s = ?p" "s_request s = ?p"
      "s_response s = ?p" "s_bio s = ?p" "ssl_array sc \<noteq> None \<longrightarrow> s_ssl s = ?p"
    using lock by (auto simp: s_def lockstep_arrays dest: lockstep_ssl)
  obtain sc1 sc2 where r: "reset_session_at_index E i sc = Inr sc1"
    and l: "del_loop s i ((session_count sc1 + 2 ^ 32 - 1) mod 2 ^ 32 - i) sc1 = Inr sc2"
    and sc': "sc' = (let sc3 = (if 0 < session_count sc2 then sc2\<lparr>session_count := session_count sc2 - 1\<rparr> else sc2)
      in (if i + ((session_count sc1 + 2 ^ 32 - 1) mod 2 ^ 32 - i) < session_last_index sc3
          then sc3\<lparr>session_last_index := session_last_index sc3 - 1\<rparr> else sc3))"
    using del unfolding del_from_session_def Let_def s_def [symmetric] and_then_Inr by auto
  obtain sb where sc1: "sc1 = blank_slot ?p sb sc"
    using reset_session_blank [OF r lock] by blast
  have cnt: "(session_count sc1 + 2 ^ 32 - 1) mod 2 ^ 32 - i = session_count sc - 1 - i"
    unfolding sc1 blank_slot_simps by (subst count_pred) (use i small in auto)
  have "del_loop s i (session_count sc - 1 - i) (set_slots ?ps sc1)
      = Inr (set_slots (shift_slot ?p i (session_count sc - 1 - i) ?ps) sc1)"
    by (rule del_loop_slots) (use s i len sc1 in auto)
  moreover have "set_slots ?ps sc1 = sc1"
    using set_slots_id [of sc1] lock sc1 by simp
  ultimately have sc2: "sc2 = set_slots (shift_slot ?p i (session_count sc - 1 - i) ?ps) sc1"
    using l cnt by simp
  note sc' = sc' [unfolded cnt]
  have "shift_slot ?p i (session_count sc - 1 - i) ?ps
      = take i ?ps @ take (session_count sc - 1 - i) (drop (Suc i) ?ps) @ ?p # drop (Suc (session_count sc - 1)) ?ps"
    by (subst shift_slot_eq) (use i len in auto)
  then have "sc' = deleted i sb sc"
    using i unfolding sc' sc2 sc1 deleted_def Let_def by simp
  then show ?thesis by blast
qed

lemma deleted_simps [simp]:
  "lockstep (deleted i sb sc)" "max_size (deleted i sb sc) = max_size sc"
  "session_count (deleted i sb sc) = session_count sc - 1"
  "sessions (deleted i sb sc) = (sessions sc)(session_array sc ! i := zero_session)"
  "statuses (deleted i sb sc) = (statuses sc)(session_array sc ! i := 0)"
  "bios (deleted i sb sc) = (bios sc)(session_array sc ! i := \<lparr>bio_fd = -1, bio_nbio = True\<rparr>)"
  by (simp_all add: deleted_def Let_def lockstep_def split: option.split)

lemma take_length_append: "length xs = n \<Longrightarrow> take n (xs @ ys) = xs"
  by simp

lemma drop_length_append: "length xs = n \<Longrightarrow> drop n (xs @ ys) = ys"
  by simp

lemma slots_deleted:
  assumes "i < session_count sc" and "session_count sc \<le> length (session_array sc)"
  shows "slots (deleted i sb sc) = remove_nth i (slots sc)"
    and "drop (session_count sc - 1) (session_array (deleted i sb sc))
      = session_array sc ! i # drop (session_count sc) (session_array sc)"
proof -
  let ?ps = "session_array sc"
  let ?front = "take i ?ps @ take (session_count sc - 1 - i) (drop (Suc i) ?ps)"
  have len: "length ?front = session_count sc - 1" using assms by simp
  have arr: "session_array (deleted i sb sc) = ?front @ ?ps ! i # drop (session_count sc) ?ps"
    using assms(1) by (simp add: deleted_def Let_def)
  have "take (session_count sc - 1) (session_array (deleted i sb sc)) = ?front"
    unfolding arr by (rule take_length_append [OF len])
  moreover have "?front = remove_nth i (slots sc)"
    using assms by (simp add: remove_nth_def slots_def drop_take min_def)
  ultimately show "slots (deleted i sb sc) = remove_nth i (slots sc)"
    by (simp add: slots_def)
  show "drop (session_count sc - 1) (session_array (deleted i sb sc))
      = ?ps ! i # drop (session_count sc) ?ps"
    unfolding arr by (rule drop_length_append [OF len])
qed

lemma slots_deleted_mem:
  assumes wf: "cache_wf sc" and i: "i < session_count sc"
  shows "set (slots (deleted i sb sc)) = set (slots sc) - {session_array sc ! i}"
    and "set (session_array (deleted i sb sc)) = set (session_array sc)"
    and "distinct (session_array (deleted i sb sc))"
    and "length (session_array (deleted i sb sc)) = max_size sc"
proof -
  let ?ps = "session_array sc"
  have le: "session_count sc \<le> length ?ps" and d: "distinct ?ps" and n: "length ?ps = max_size sc"
    using wf by (auto simp: cache_wf_def)
  have ds: "distinct (slots sc)" and ls: "i < length (slots sc)" and nth: "slots sc ! i = ?ps ! i"
    using d i le by (auto simp: slots_def)
  show s: "set (slots (deleted i sb sc)) = set (slots sc) - {?ps ! i}"
    using set_remove_nth [OF ds ls] nth by (simp add: slots_deleted [OF i le])
  have split: "session_array (deleted i sb sc) = remove_nth i (slots sc) @ ?ps ! i # drop (session_count sc) ?ps"
    using slots_deleted [OF i le, of sb] append_take_drop_id [of "session_count sc - 1" "session_array (deleted i sb sc)"]
    by (simp add: slots_def)
  have ps: "?ps = slots sc @ drop (session_count sc) ?ps" by (simp add: slots_def)
  have mem: "?ps ! i \<in> set (slots sc)" using nth ls by (metis nth_mem)
  have disj: "set (slots sc) \<inter> set (drop (session_count sc) ?ps) = {}"
    using d ps by (metis distinct_append)
  show "set (session_array (deleted i sb sc)) = set ?ps"
    unfolding split using mem set_remove_nth [OF ds ls] nth by (subst (3) ps) auto
  show "distinct (session_array (deleted i sb sc))"
    unfolding split using distinct_remove_nth [OF ds, of i] set_remove_nth [OF ds ls] nth disj mem d
    by auto
  show "length (session_array (deleted i sb sc)) = max_size sc"
    unfolding split using ls le n i by (simp add: slots_def)
qed

lemma conn_table_deleted:
  assumes wf: "cache_wf sc" and i: "i < session_count sc"
  shows "conn_table (deleted i sb sc) = remove_nth i (conn_table sc)"
proof -
  have le: "session_count sc \<le> length (session_array sc)" using wf by (simp add: cache_wf_def)
  have "conn_at (deleted i sb sc) p = conn_at sc p" if "p \<in> set (slots (deleted i sb sc))" for p
    using that slots_deleted_mem(1) [OF wf i] by (auto simp: conn_at_def)
  then have "conn_table (deleted i sb sc) = map (conn_at sc) (remove_nth i (slots sc))"
    unfolding conn_table_def using slots_deleted(1) [OF i le, of sb] by (metis map_cong)
  then show ?thesis by (simp add: conn_table_def map_remove_nth)
qed

lemma buffer_wf_blank: "buffer_wf b \<Longrightarrow>
  buffer_wf (b\<lparr>data := map_option (\<lambda>_. replicate (capacity b) NUL) (data b), count := 0\<rparr>)"
  by (auto simp: buffer_wf_def split: option.splits)

lemma cache_wf_deleted:
  assumes wf: "cache_wf sc" and i: "i < session_count sc"
  shows "cache_wf (deleted i sb sc)"
proof -
  let ?p = "session_array sc ! i"
  have le: "session_count sc \<le> length (session_array sc)" using wf by (simp add: cache_wf_def)
  note mem = slots_deleted_mem [OF wf i, of sb]
  have fds: "distinct (map conn_fd (conn_table (deleted i sb sc)))"
    unfolding conn_table_deleted [OF wf i] map_remove_nth
    using wf by (intro distinct_remove_nth) (simp add: cache_wf_def)
  have buf: "buffer_wf (buffers (deleted i sb sc) p)" if "p \<in> set (session_array sc)" for p
    using wf that buffer_wf_blank [of "buffers sc ?p"]
    by (auto simp: deleted_def Let_def blank_slot_def cache_wf_def)
  have sp: "spare (deleted i sb sc) p"
    if "p \<in> set (drop (session_count sc - 1) (session_array (deleted i sb sc)))" for p
    using that wf unfolding slots_deleted(2) [OF i le] by (auto simp: spare_def cache_wf_def)
  have li: "session_last_index (deleted i sb sc) \<le> max_size sc - 1"
    using wf by (auto simp: deleted_def Let_def cache_wf_def)
  show ?thesis
    using wf unfolding cache_wf_def by (auto simp: mem fds buf sp li [simplified])
qed

definition added :: "env \<Rightarrow> nat \<Rightarrow> int \<Rightarrow> (ptr \<Rightarrow> ptr option) \<Rightarrow> session_cache \<Rightarrow> session_cache" where
  "added E n f sb sc =
     (let p = session_array sc ! n; sc1 = blank_slot p sb sc
      in sc1\<lparr>sessions := (sessions sc1)(p := \<lparr>session_id = rand_ret E, related_fd = f, thread_id = 0\<rparr>),
             bios := (bios sc1)(p := \<lparr>bio_fd = f, bio_nbio = True\<rparr>),
             session_count := (if session_count sc < max_size sc then session_count sc + 1 else session_count sc),
             session_last_index := (if session_count sc < max_size sc then session_last_index sc
               else (session_last_index sc + 1) mod max_size sc)\<rparr>)"

lemma added_simps [simp]:
  "session_array (added E n f sb sc) = session_array sc" "lockstep (added E n f sb sc) = lockstep sc"
  "max_size (added E n f sb sc) = max_size sc"
  "session_count (added E n f sb sc) =
     (if session_count sc < max_size sc then session_count sc + 1 else session_count sc)"
  "session_last_index (added E n f sb sc) = (if session_count sc < max_size sc
     then session_last_index sc else (session_last_index sc + 1) mod max_size sc)"
  "sessions (added E n f sb sc) = (sessions sc)
     (session_array sc ! n := \<lparr>session_id = rand_ret E, related_fd = f, thread_id = 0\<rparr>)"
  "statuses (added E n f sb sc) = (statuses sc)(session_array sc ! n := 0)"
  "bios (added E n f sb sc) = (bios sc)(session_array sc ! n := \<lparr>bio_fd = f, bio_nbio = True\<rparr>)"
  by (simp_all add: added_def Let_def lockstep_def blank_slot_def split: option.split)

lemma char_and_0 [simp]: "char_and 0 w = 0"
  by (rule bit_eqI) (simp add: bit_char_and)

lemma add_to_session_eq:
  assumes add: "add_to_session E f sc = Inr (n, sc')" and lock: "lockstep sc"
  shows "n = (if session_count sc < max_size sc then session_count sc else session_last_index sc)"
    and "n < max_size sc" and "\<exists>sb. sc' = added E n f sb sc"
proof -
  let ?n = "if session_count sc < max_size sc then session_count sc else session_last_index sc"
  obtain sc1 where lt: "?n < max_size sc" and r: "reset_session_at_index E ?n sc = Inr sc1" and n: "n = ?n"
    and sc': "sc' = (let p = session_array sc1 ! ?n; q = status_array sc1 ! ?n; r = bio_array sc1 ! ?n;
             sc2 = sc1\<lparr>sessions := (sessions sc1)(p := \<lparr>session_id = rand_ret E, related_fd = f, thread_id = 0\<rparr>),
                       statuses := (statuses sc1)(q := char_and (statuses sc1 q) (ws_code WORK_STATUS_INITIAL)),
                       bios := (bios sc1)(r := \<lparr>bio_fd = f, bio_nbio = True\<rparr>)\<rparr>
         in (if session_count sc2 < max_size sc2
              then sc2\<lparr>session_count := session_count sc2 + 1\<rparr>
              else sc2\<lparr>session_last_index := (session_last_index sc2 + 1) mod max_size sc2\<rparr>))"
    using add unfolding add_to_session_def Let_def assert_that_Inr and_then_Inr by blast
  show "n = ?n" "n < max_size sc" using n lt by simp_all
  obtain sb where sc1: "sc1 = blank_slot (session_array sc ! n) sb sc"
    using reset_session_blank [OF r lock] n by blast
  have arrs: "status_array sc1 = session_array sc" "bio_array sc1 = session_array sc"
    using lock sc1 lockstep_arrays [of sc1] by simp_all
  have "sc' = added E n f sb sc"
    unfolding sc' arrs unfolding n [symmetric] sc1 added_def Let_def by simp
  then show "\<exists>sb. sc' = added E n f sb sc" by blast
qed

definition joined :: "int \<Rightarrow> session_cache \<Rightarrow> conn list" where
  "joined f sc =
     (if session_count sc < max_size sc
      then conn_table sc @ [\<lparr>conn_slot = session_array sc ! session_count sc, conn_fd = f, conn_status = 0\<rparr>]
      else (conn_table sc)[session_last_index sc :=
        \<lparr>conn_slot = session_array sc ! session_last_index sc, conn_fd = f, conn_status = 0\<rparr>])"

lemma conn_at_added:
  "conn_at (added E n f sb sc) p = (if p = session_array sc ! n
     then \<lparr>conn_slot = p, conn_fd = f, conn_status = 0\<rparr> else conn_at sc p)"
  by (simp add: conn_at_def)

lemma conn_table_added:
  assumes wf: "cache_wf sc"
    and n: "n = (if session_count sc < max_size sc then session_count sc else session_last_index sc)"
    and lt: "n < max_size sc"
  shows "conn_table (added E n f sb sc) = joined f sc"
proof (cases "session_count sc < max_size sc")
  case True
  have l: "length (session_array sc) = max_size sc" and d: "distinct (session_array sc)"
    using wf by (auto simp: cache_wf_def)
  have sl: "slots (added E n f sb sc) = slots sc @ [session_array sc ! session_count sc]"
    using True l by (simp add: slots_def take_Suc_conv_app_nth)
  have "session_array sc ! session_count sc \<notin> set (slots sc)"
    using d True l by (auto simp: slots_def in_set_conv_nth nth_eq_iff_index_eq)
  then show ?thesis
    unfolding conn_table_def sl joined_def using True n
    by (auto simp: conn_at_added)
next
  case False
  have l: "length (session_array sc) = max_size sc" and d: "distinct (session_array sc)"
    and c: "session_count sc = max_size sc"
    using wf False by (auto simp: cache_wf_def)
  have sl: "slots (added E n f sb sc) = slots sc" "slots sc = session_array sc"
    using False l c by (simp_all add: slots_def)
  have "map (conn_at (added E n f sb sc)) (session_array sc)
      = (map (conn_at sc) (session_array sc))[n := conn_at (added E n f sb sc) (session_array sc ! n)]"
    by (rule nth_equalityI) (use d l lt in \<open>auto simp: nth_list_update conn_at_added nth_eq_iff_index_eq\<close>)
  then show ?thesis
    unfolding conn_table_def sl joined_def using False n by (simp add: conn_at_added)
qed

definition conn_fds :: "session_cache \<Rightarrow> int set" where
  "conn_fds sc = set (map conn_fd (conn_table sc))"

lemma conn_fd_joined:
  assumes "cache_wf sc" and "f \<notin> conn_fds sc" and "0 < max_size sc"
  shows "distinct (map conn_fd (joined f sc))"
proof -
  have d: "distinct (map conn_fd (conn_table sc))" using assms(1) by (simp add: cache_wf_def)
  have "distinct ((map conn_fd (conn_table sc))[session_last_index sc := f])"
    by (rule distinct_list_update) (use d assms(2) in \<open>auto simp: conn_fds_def\<close>)
  then show ?thesis
    using d assms(2) by (auto simp: joined_def conn_fds_def map_update)
qed

lemma cache_wf_added:
  assumes wf: "cache_wf sc" and f: "f \<notin> conn_fds sc" "0 < f" "f < 16384"
    and n: "n = (if session_count sc < max_size sc then session_count sc else session_last_index sc)"
    and lt: "n < max_size sc"
  shows "cache_wf (added E n f sb sc)"
proof -
  let ?sc = "added E n f sb sc"
  let ?ps = "session_array sc"
  have l: "length ?ps = max_size sc" and d: "distinct ?ps"
    using wf by (auto simp: cache_wf_def)
  have fds: "distinct (map conn_fd (conn_table ?sc))"
    unfolding conn_table_added [OF wf n lt] using conn_fd_joined [OF wf f(1)] lt by simp
  have act: "bio_fd (bios ?sc p) = related_fd (sessions ?sc p) \<and>
      0 < related_fd (sessions ?sc p) \<and> related_fd (sessions ?sc p) < 16384"
    if p: "p \<in> set (slots ?sc)" for p
  proof (cases "p = ?ps ! n")
    case True
    then show ?thesis using f by simp
  next
    case False
    then have "p \<in> set (slots sc)"
      using p n l by (auto simp: slots_def take_Suc_conv_app_nth split: if_splits)
    then show ?thesis using wf False by (auto simp: cache_wf_def)
  qed
  have sp: "spare ?sc p" if p: "p \<in> set (drop (session_count ?sc) ?ps)" for p
  proof -
    from p obtain j where j: "session_count ?sc + j < length ?ps" "p = ?ps ! (session_count ?sc + j)"
      by (auto simp: in_set_conv_nth less_diff_conv add.commute)
    then have "session_count sc < max_size sc" using l wf by (auto simp: cache_wf_def split: if_splits)
    with j n l d have "p \<noteq> ?ps ! n" "p \<in> set (drop (session_count sc) ?ps)"
      by (auto simp: nth_eq_iff_index_eq in_set_conv_nth intro!: exI [of _ "Suc j"])
    then show ?thesis using wf by (auto simp: spare_def cache_wf_def)
  qed
  have buf: "buffer_wf (buffers ?sc p)" if "p \<in> set ?ps" for p
    using wf that buffer_wf_blank [of "buffers sc (?ps ! n)"] nth_mem [of n ?ps] lt l
    by (auto simp: added_def Let_def blank_slot_def cache_wf_def)
  have li: "session_last_index ?sc \<le> max_size sc - 1"
  proof -
    have "0 < max_size sc" using lt by linarith
    from mod_less_divisor [OF this, of "Suc (session_last_index sc)"]
    have "Suc (session_last_index sc) mod max_size sc \<le> max_size sc - Suc 0" by linarith
    then show ?thesis using wf by (simp add: cache_wf_def)
  qed
  have cnt: "session_count ?sc \<le> max_size sc" using wf by (auto simp: cache_wf_def)
  have base: "lockstep sc" "max_size sc < 2 ^ 31" using wf by (auto simp: cache_wf_def)
  show ?thesis
    unfolding cache_wf_def added_simps(1-3)
    by (intro conjI ballI fds base d l li cnt) (use act sp buf in auto)
qed

section \<open>Status updates on the table\<close>

definition restatus :: "(8 word \<Rightarrow> 8 word) \<Rightarrow> conn \<Rightarrow> conn" where
  "restatus g c = c\<lparr>conn_status := g (conn_status c)\<rparr>"

lemma restatus_simps [simp]:
  "conn_fd (restatus g c) = conn_fd c" "conn_slot (restatus g c) = conn_slot c"
  "conn_status (restatus g c) = g (conn_status c)"
  by (simp_all add: restatus_def)

lemma set_status_simps [simp]:
  "session_array (set_status i g sc) = session_array sc" "lockstep (set_status i g sc) = lockstep sc"
  "session_count (set_status i g sc) = session_count sc" "max_size (set_status i g sc) = max_size sc"
  "session_last_index (set_status i g sc) = session_last_index sc"
  "sessions (set_status i g sc) = sessions sc" "bios (set_status i g sc) = bios sc"
  "buffers (set_status i g sc) = buffers sc" "slots (set_status i g sc) = slots sc"
  "requests (set_status i g sc) = requests sc" "responses (set_status i g sc) = responses sc"
  "ssl_array (set_status i g sc) = ssl_array sc"
  by (simp_all add: set_status_def lockstep_def slots_def split: option.split)

lemma statuses_set_status:
  "lockstep sc \<Longrightarrow> statuses (set_status i g sc) =
     (statuses sc)(session_array sc ! i := g (statuses sc (session_array sc ! i)))"
  by (simp add: set_status_def lockstep_arrays)

lemma conn_table_set_status:
  assumes wf: "cache_wf sc" and i: "i < session_count sc"
  shows "conn_table (set_status i g sc) = (conn_table sc)[i := restatus g (conn_table sc ! i)]"
proof (rule nth_equalityI)
  have le: "session_count sc \<le> length (session_array sc)" and d: "distinct (session_array sc)"
    and lock: "lockstep sc"
    using wf by (auto simp: cache_wf_def)
  show "length (conn_table (set_status i g sc)) = length ((conn_table sc)[i := restatus g (conn_table sc ! i)])"
    by (simp add: conn_table_def)
  fix j
  assume "j < length (conn_table (set_status i g sc))"
  then have "j < session_count sc" using le by (simp add: conn_table_def slots_def)
  then show "conn_table (set_status i g sc) ! j = (conn_table sc)[i := restatus g (conn_table sc ! i)] ! j"
    using i le d lock
    by (auto simp: conn_table_def slots_def conn_at_def nth_list_update statuses_set_status
        nth_eq_iff_index_eq restatus_def)
qed

lemma map_fd_restatus:
  "i < length xs \<Longrightarrow> map conn_fd (xs[i := restatus g (xs ! i)]) = map conn_fd xs"
  by (simp add: map_update) (metis list_update_id nth_map length_map)

lemma cache_wf_set_status:
  assumes wf: "cache_wf sc" and i: "i < session_count sc"
  shows "cache_wf (set_status i g sc)"
proof -
  have len: "i < length (conn_table sc)" using wf i by simp
  have d: "distinct (session_array sc)" and lock: "lockstep sc"
    and le: "session_count sc \<le> length (session_array sc)"
    using wf by (auto simp: cache_wf_def)
  have fds: "distinct (map conn_fd (conn_table (set_status i g sc)))"
    using wf unfolding conn_table_set_status [OF wf i] map_fd_restatus [OF len]
    by (simp add: cache_wf_def)
  have sp: "spare (set_status i g sc) p" if p: "p \<in> set (drop (session_count sc) (session_array sc))" for p
  proof -
    have "session_array sc ! i \<in> set (take (session_count sc) (session_array sc))"
      using i le by (metis length_take min.absorb2 nth_mem nth_take)
    moreover have "set (take (session_count sc) (session_array sc))
        \<inter> set (drop (session_count sc) (session_array sc)) = {}"
      using d by (rule set_take_disj_set_drop_if_distinct) simp
    ultimately have "p \<noteq> session_array sc ! i" using p by blast
    then show ?thesis using wf p by (auto simp: spare_def statuses_set_status [OF lock] cache_wf_def)
  qed
  show ?thesis using wf fds sp by (simp add: cache_wf_def)
qed

lemma reset_request_simps [simp]:
  "session_array (reset_request_at_index i sc) = session_array sc"
  "lockstep (reset_request_at_index i sc) = lockstep sc"
  "session_count (reset_request_at_index i sc) = session_count sc"
  "max_size (reset_request_at_index i sc) = max_size sc"
  "session_last_index (reset_request_at_index i sc) = session_last_index sc"
  "sessions (reset_request_at_index i sc) = sessions sc" "bios (reset_request_at_index i sc) = bios sc"
  "statuses (reset_request_at_index i sc) = statuses sc"
  "slots (reset_request_at_index i sc) = slots sc"
  "conn_table (reset_request_at_index i sc) = conn_table sc"
  by (simp_all add: reset_request_at_index_def Let_def lockstep_def slots_def conn_table_def
      conn_at_def [abs_def] split: option.split)

lemma cache_wf_reset_request: "cache_wf sc \<Longrightarrow> cache_wf (reset_request_at_index i sc)"
  by (auto simp: cache_wf_def spare_def) (simp add: reset_request_at_index_def Let_def buffer_wf_def)

section \<open>Giving a session back\<close>

text \<open>The status byte as the set of marks it holds, and what giving it back makes of the set.\<close>

definition marks_of :: "8 word \<Rightarrow> WORK_STATUS set" where
  "marks_of s = {st. bit s (ws_bit st)}"

fun given :: "WORK_STATUS \<Rightarrow> WORK_STATUS set \<Rightarrow> WORK_STATUS set" where
  "given WORK_STATUS_INITIAL_SSL M = insert WORK_STATUS_INITIAL (M - {WORK_STATUS_PROCESSING})"
| "given WORK_STATUS_SEND_FAILED M =
     insert WORK_STATUS_SEND_FAILED (M - {WORK_STATUS_PROCESSING, WORK_STATUS_READY_TO_SEND})"
| "given WORK_STATUS_SENT M =
     insert WORK_STATUS_SENT (M - {WORK_STATUS_PROCESSING, WORK_STATUS_REQUEST_READ,
       WORK_STATUS_PARSED, WORK_STATUS_DATA_FETCHED, WORK_STATUS_READY_TO_SEND})"
| "given WORK_STATUS_REJECTED M = M - {WORK_STATUS_PROCESSING}"
| "given st M = insert st (M - {WORK_STATUS_PROCESSING})"

definition given_status :: "WORK_STATUS \<Rightarrow> 8 word \<Rightarrow> 8 word" where
  "given_status st s =
     (let s1 = char_or (char_and s (NOT (ws_code WORK_STATUS_PROCESSING))) (ws_code st)
      in case st of
           WORK_STATUS_INITIAL_SSL \<Rightarrow> char_or s1 (ws_code WORK_STATUS_INITIAL)
         | WORK_STATUS_SEND_FAILED \<Rightarrow> char_and s1 (NOT (ws_code WORK_STATUS_READY_TO_SEND))
         | WORK_STATUS_SENT \<Rightarrow> char_and s1 (NOT (ws_code WORK_STATUS_REQUEST_READ OR
             ws_code WORK_STATUS_PARSED OR ws_code WORK_STATUS_DATA_FETCHED OR ws_code WORK_STATUS_READY_TO_SEND))
         | _ \<Rightarrow> s1)"

lemma ws_bit_inj [simp]: "ws_bit a = ws_bit b \<longleftrightarrow> a = b"
  by (cases a; cases b) simp_all

lemma marks_of_mem: "st \<in> marks_of s \<longleftrightarrow> bit s (ws_bit st)"
  by (simp add: marks_of_def)

lemma byte_high_bits: "8 \<le> n \<Longrightarrow> \<not> bit (s :: 8 word) n"
  by (auto dest: bit_imp_le_length)

lemma marks_given: "marks_of (given_status st s) = given st (marks_of s)"
proof (rule set_eqI)
  fix x
  show "x \<in> marks_of (given_status st s) \<longleftrightarrow> x \<in> given st (marks_of s)"
    by (cases st; cases x) (simp_all add: given_status_def marks_of_mem bit_char_and bit_char_or
        bit_not_iff bit_and_iff bit_or_iff bit_ws_code byte_high_bits)
qed

definition given_cache :: "nat \<Rightarrow> WORK_STATUS \<Rightarrow> session_cache \<Rightarrow> session_cache" where
  "given_cache i st sc =
     (if st = WORK_STATUS_SENT then reset_request_at_index i (set_status i (given_status st) sc)
      else set_status i (given_status st) sc)"

definition woken :: "WORK_STATUS \<Rightarrow> cond list" where
  "woken st = (case wait_cond st of None \<Rightarrow> [] | Some c \<Rightarrow> [c])"

lemma set_status_twice:
  "set_status i h (set_status i g sc) = set_status i (\<lambda>s. h (g s)) sc"
  by (simp add: set_status_def)

lemma push_found_not_owned:
  "\<not> has_status (status_at i (cache w)) WORK_STATUS_PROCESSING \<Longrightarrow>
   push_found E i f st w = Inl (Assert_failed ''*status_array[i] & WORK_STATUS_PROCESSING'')"
  by (simp add: push_found_def)

lemma push_found_given:
  assumes "st \<noteq> WORK_STATUS_REJECTED" and "has_status (status_at i (cache w)) WORK_STATUS_PROCESSING"
  shows "push_found E i f st w =
    Inr (w\<lparr>cache := given_cache i st (cache w), broadcasts := broadcasts w @ woken st\<rparr>)"
  using assms
  by (cases st) (simp_all add: push_found_def given_cache_def given_status_def [abs_def] Let_def
      set_status_twice woken_def cong: if_cong)

lemma given_cache_simps [simp]:
  "session_array (given_cache i st sc) = session_array sc"
  "session_count (given_cache i st sc) = session_count sc"
  "max_size (given_cache i st sc) = max_size sc"
  "sessions (given_cache i st sc) = sessions sc"
  "conn_table (given_cache i st sc) = conn_table (set_status i (given_status st) sc)"
  by (simp_all add: given_cache_def)

lemma cache_wf_given:
  "cache_wf sc \<Longrightarrow> i < session_count sc \<Longrightarrow> cache_wf (given_cache i st sc)"
  by (simp add: given_cache_def cache_wf_set_status cache_wf_reset_request)

lemma push_found_rejected:
  assumes "push_found E i f WORK_STATUS_REJECTED w = Inr w'" and wf: "cache_wf (cache w)"
    and i: "i < session_count (cache w)"
  shows "\<exists>sb m. mark f (marked_fds w) = Inr m \<and>
    w' = w\<lparr>cache := deleted i sb (set_status i (given_status WORK_STATUS_REJECTED) (cache w)),
           marked_fds := m\<rparr>"
proof -
  let ?sc = "set_status i (given_status WORK_STATUS_REJECTED) (cache w)"
  obtain sc m where d: "del_from_session E i ?sc = Inr sc" and m: "mark f (marked_fds w) = Inr m"
    and w': "w' = w\<lparr>cache := sc, marked_fds := m\<rparr>"
    using assms(1) by (auto simp: push_found_def given_status_def [abs_def] Let_def)
  have "\<exists>sb. sc = deleted i sb ?sc"
    by (rule del_from_session_eq [OF d]) (use wf i in \<open>auto simp: cache_wf_def\<close>)
  with m w' show ?thesis by blast
qed

section \<open>The loop of push_request\<close>

lemma push_scan_none:
  "\<forall>j. i \<le> j \<and> j < session_count (cache w) \<longrightarrow> fd_at j (cache w) \<noteq> f \<Longrightarrow>
   push_scan E f st i found w = Inr (found, w)"
proof (induction E f st i found w rule: push_scan.induct)
  case (1 E f st i found w)
  then show ?case by (subst push_scan.simps) simp
qed

lemma push_scan_at:
  "i \<le> k \<Longrightarrow> k < session_count (cache w) \<Longrightarrow> fd_at k (cache w) = f \<Longrightarrow>
   \<forall>j. i \<le> j \<and> j < k \<longrightarrow> fd_at j (cache w) \<noteq> f \<Longrightarrow>
   push_scan E f st i found w = and_then (push_found E k f st w) (push_scan E f st (k + 1) True)"
proof (induction "k - i" arbitrary: i)
  case 0
  then show ?case by (subst push_scan.simps) simp
next
  case (Suc d)
  then have "push_scan E f st i found w = push_scan E f st (i + 1) found w"
    by (subst push_scan.simps) simp
  also have "\<dots> = and_then (push_found E k f st w) (push_scan E f st (k + 1) True)"
    by (rule Suc.hyps) (use Suc in auto)
  finally show ?case .
qed

text \<open>With distinct descriptors at most one session matches, and the loop is one update.\<close>

lemma fd_at_unique:
  "cache_wf sc \<Longrightarrow> i < session_count sc \<Longrightarrow> j < session_count sc \<Longrightarrow> fd_at i sc = fd_at j sc \<Longrightarrow> i = j"
proof -
  assume wf: "cache_wf sc" and ij: "i < session_count sc" "j < session_count sc" and eq: "fd_at i sc = fd_at j sc"
  have "distinct (map conn_fd (conn_table sc))" using wf by (simp add: cache_wf_def)
  then show "i = j"
    using nth_eq_iff_index_eq [of "map conn_fd (conn_table sc)" i j] ij eq wf
    by (simp add: fd_at_table [OF _ wf])
qed

lemma push_scan_given:
  assumes wf: "cache_wf (cache w)" and k: "k < session_count (cache w)" "fd_at k (cache w) = f"
    and st: "st \<noteq> WORK_STATUS_REJECTED" and p: "has_status (status_at k (cache w)) WORK_STATUS_PROCESSING"
  shows "push_scan E f st 0 found w =
    Inr (True, w\<lparr>cache := given_cache k st (cache w), broadcasts := broadcasts w @ woken st\<rparr>)"
proof -
  let ?w = "w\<lparr>cache := given_cache k st (cache w), broadcasts := broadcasts w @ woken st\<rparr>"
  have only: "fd_at j (cache w) \<noteq> f" if "j < session_count (cache w)" "j \<noteq> k" for j
    using fd_at_unique [OF wf that(1) k(1)] k(2) that(2) by auto
  have "push_scan E f st (k + 1) True ?w = Inr (True, ?w)"
    by (rule push_scan_none) (use only in \<open>auto simp: fd_at_def\<close>)
  moreover have "push_scan E f st 0 found w = and_then (push_found E k f st w) (push_scan E f st (k + 1) True)"
    by (rule push_scan_at) (use k only in auto)
  ultimately show ?thesis by (simp add: push_found_given [OF st p])
qed

end
