(* ===== verification/SessionOps.thy ===== *)
theory SessionOps
  imports SessionTable
begin

text \<open>
  What the callers of \<^verbatim>\<open>session.c\<close> rely on: each operation described on the abstract table, the
  invariant every operation keeps, and the locale \<open>work_pool\<close>, the contract by which one session is
  in the hands of at most one thread.
\<close>

section \<open>push_request\<close>

lemma push_scan_after_delete:
  assumes wf: "cache_wf (cache w)" and k: "k < session_count (cache w)" "fd_at k (cache w) = f"
    and w1: "cache w1 = deleted k sb (set_status k g (cache w))"
  shows "push_scan E f st (k + 1) True w1 = Inr (True, w1)"
proof (rule push_scan_none, intro allI impI, elim conjE)
  let ?sc = "set_status k g (cache w)"
  fix j
  assume j: "k + 1 \<le> j" and "j < session_count (cache w1)"
  then have lt: "j < session_count (cache w) - 1" by (simp add: w1)
  have wf1: "cache_wf ?sc" using wf k(1) by (rule cache_wf_set_status)
  have wf2: "cache_wf (deleted k sb ?sc)"
    by (rule cache_wf_deleted [OF wf1]) (use k(1) in simp)
  have tab: "conn_table (deleted k sb ?sc) = remove_nth k (conn_table ?sc)"
    by (rule conn_table_deleted [OF wf1]) (use k(1) in simp)
  have "fd_at j (deleted k sb ?sc) = conn_fd (remove_nth k (conn_table ?sc) ! j)"
    using fd_at_table [OF _ wf2, of j] lt by (simp add: tab)
  also have "\<dots> = conn_fd (conn_table ?sc ! Suc j)"
    using j lt k(1) wf1 by (simp add: nth_remove_nth)
  also have "\<dots> = fd_at (Suc j) ?sc"
    using lt wf1 by (simp add: fd_at_table)
  also have "\<dots> = fd_at (Suc j) (cache w)" by (simp add: fd_at_def)
  finally have eq: "fd_at j (cache w1) = fd_at (Suc j) (cache w)" by (simp add: w1)
  have "Suc j < session_count (cache w)" using lt by linarith
  then have "fd_at (Suc j) (cache w) \<noteq> fd_at k (cache w)"
    using fd_at_unique [OF wf _ k(1), of "Suc j"] j by auto
  then show "fd_at j (cache w1) \<noteq> f" using eq k(2) by simp
qed

lemma push_scan_rejected:
  assumes wf: "cache_wf (cache w)" and k: "k < session_count (cache w)" "fd_at k (cache w) = f"
    and r: "push_scan E f WORK_STATUS_REJECTED 0 found w = Inr (found', w')"
  shows "found' \<and> (\<exists>sb m. mark f (marked_fds w) = Inr m \<and>
    w' = w\<lparr>cache := deleted k sb (set_status k (given_status WORK_STATUS_REJECTED) (cache w)),
           marked_fds := m\<rparr>)"
proof -
  let ?st = WORK_STATUS_REJECTED
  let ?sc = "set_status k (given_status ?st) (cache w)"
  have only: "fd_at j (cache w) \<noteq> f" if "j < session_count (cache w)" "j \<noteq> k" for j
    using fd_at_unique [OF wf that(1) k(1)] k(2) that(2) by auto
  have "push_scan E f ?st 0 found w = and_then (push_found E k f ?st w) (push_scan E f ?st (k + 1) True)"
    by (rule push_scan_at) (use k only in auto)
  then have "and_then (push_found E k f ?st w) (push_scan E f ?st (k + 1) True) = Inr (found', w')"
    using r by simp
  then obtain w1 where p: "push_found E k f ?st w = Inr w1"
    and s: "push_scan E f ?st (k + 1) True w1 = Inr (found', w')"
    unfolding and_then_Inr by blast
  obtain sb m where m: "mark f (marked_fds w) = Inr m"
    and w1: "w1 = w\<lparr>cache := deleted k sb ?sc, marked_fds := m\<rparr>"
    using push_found_rejected [OF p wf k(1)] by blast
  have "push_scan E f ?st (k + 1) True w1 = Inr (True, w1)"
    by (rule push_scan_after_delete [OF wf k]) (simp add: w1)
  with s m w1 show ?thesis by auto
qed

lemma fd_in_table:
  assumes "cache_wf sc" and "f \<in> conn_fds sc"
  obtains k where "k < session_count sc" and "fd_at k sc = f"
proof -
  from assms(2) obtain c where c: "c \<in> set (conn_table sc)" "conn_fd c = f"
    by (auto simp: conn_fds_def)
  then obtain k where "k < length (conn_table sc)" "conn_table sc ! k = c"
    by (auto simp: in_set_conv_nth)
  with that assms(1) c(2) show thesis by (simp add: fd_at_table)
qed

lemma fd_at_in_table:
  "cache_wf sc \<Longrightarrow> k < session_count sc \<Longrightarrow> fd_at k sc \<in> conn_fds sc"
  by (simp add: fd_at_table conn_fds_def)

lemma table_fd_range:
  "cache_wf sc \<Longrightarrow> f \<in> conn_fds sc \<Longrightarrow> 0 < f \<and> f < 16384"
  by (auto simp: conn_fds_def conn_table_def conn_at_def cache_wf_def)

lemma push_scan_absent:
  "cache_wf (cache w) \<Longrightarrow> f \<notin> conn_fds (cache w) \<Longrightarrow> push_scan E f st 0 found w = Inr (found, w)"
  by (rule push_scan_none) (auto dest: fd_at_in_table)

lemma push_request_present:
  assumes wf: "cache_wf (cache w)" and k: "k < session_count (cache w)" "fd_at k (cache w) = f"
    and st: "st \<noteq> WORK_STATUS_REJECTED" and p: "has_status (status_at k (cache w)) WORK_STATUS_PROCESSING"
  shows "push_request E f st w =
    Inr (w\<lparr>cache := given_cache k st (cache w), broadcasts := broadcasts w @ woken st\<rparr>)"
  using table_fd_range [OF wf, of f] fd_at_in_table [OF wf k(1)] k(2)
  by (simp add: push_request_def push_scan_given [OF wf k st p])

lemma push_request_unowned:
  assumes wf: "cache_wf (cache w)" and k: "k < session_count (cache w)" "fd_at k (cache w) = f"
    and p: "\<not> has_status (status_at k (cache w)) WORK_STATUS_PROCESSING"
  shows "push_request E f st w = Inl (Assert_failed ''*status_array[i] & WORK_STATUS_PROCESSING'')"
proof -
  have "fd_at j (cache w) \<noteq> f" if "j < k" for j
    using fd_at_unique [OF wf _ k(1), of j] k that by auto
  then have "push_scan E f st 0 False w = and_then (push_found E k f st w) (push_scan E f st (k + 1) True)"
    by (intro push_scan_at) (use k in auto)
  then show ?thesis
    using table_fd_range [OF wf, of f] fd_at_in_table [OF wf k(1)] k(2)
    by (simp add: push_request_def push_found_not_owned [OF p])
qed

lemma push_request_rejected:
  assumes wf: "cache_wf (cache w)" and k: "k < session_count (cache w)" "fd_at k (cache w) = f"
    and r: "push_request E f WORK_STATUS_REJECTED w = Inr w'"
  shows "\<exists>sb m. mark f (marked_fds w) = Inr m \<and>
    w' = w\<lparr>cache := deleted k sb (set_status k (given_status WORK_STATUS_REJECTED) (cache w)),
           marked_fds := m\<rparr>"
  using r push_scan_rejected [OF wf k] by (fastforce simp: push_request_def split: if_splits)

lemma del_from_session_returns:
  assumes E: "resets_ok E" and lock: "lockstep sc" and i: "i < session_count sc"
    and len: "session_count sc \<le> length (session_array sc)" and small: "session_count sc \<le> 2 ^ 31"
  shows "\<exists>sc'. del_from_session E i sc = Inr sc'"
proof -
  let ?ps = "session_array sc"
  let ?p = "?ps ! i"
  obtain sc1 where r: "reset_session_at_index E i sc = Inr sc1"
    using reset_session_returns [OF E] by blast
  obtain sb where sc1: "sc1 = blank_slot ?p sb sc"
    using reset_session_blank [OF r lock] by blast
  define s where "s = \<lparr>s_session = ?ps ! i, s_status = status_array sc ! i,
      s_buffer = buffer_array sc ! i, s_request = request_array sc ! i,
      s_response = response_array sc ! i, s_bio = bio_array sc ! i,
      s_ssl = (case ssl_array sc of None \<Rightarrow> 0 | Some ss \<Rightarrow> ss ! i)\<rparr>"
  have s: "s_session s = ?p" "s_status s = ?p" "s_buffer s = ?p" "s_request s = ?p"
      "s_response s = ?p" "s_bio s = ?p" "ssl_array sc1 \<noteq> None \<longrightarrow> s_ssl s = ?p"
    using lock sc1 by (auto simp: s_def lockstep_arrays dest: lockstep_ssl)
  have cnt: "(session_count sc1 + 2 ^ 32 - 1) mod 2 ^ 32 - i = session_count sc - 1 - i"
    unfolding sc1 blank_slot_simps by (subst count_pred) (use i small in auto)
  have "del_loop s i (session_count sc - 1 - i) (set_slots ?ps sc1)
      = Inr (set_slots (shift_slot ?p i (session_count sc - 1 - i) ?ps) sc1)"
    by (rule del_loop_slots) (use s i len in auto)
  moreover have "set_slots ?ps sc1 = sc1"
    using set_slots_id [of sc1] lock sc1 by simp
  ultimately have "del_loop s i ((session_count sc1 + 2 ^ 32 - 1) mod 2 ^ 32 - i) sc1
      = Inr (set_slots (shift_slot ?p i (session_count sc - 1 - i) ?ps) sc1)"
    unfolding cnt by simp
  then show ?thesis
    unfolding del_from_session_def s_def [symmetric] Let_def r and_then_simps by simp
qed

lemma push_request_rejected_returns:
  assumes wf: "cache_wf (cache w)" and k: "k < session_count (cache w)" "fd_at k (cache w) = f"
    and p: "has_status (status_at k (cache w)) WORK_STATUS_PROCESSING"
    and E: "resets_ok E" and m: "marks_at f (marked_fds w)"
  shows "\<exists>w'. push_request E f WORK_STATUS_REJECTED w = Inr w'"
proof -
  let ?st = WORK_STATUS_REJECTED
  let ?sc = "set_status k (given_status ?st) (cache w)"
  have "\<exists>sc. del_from_session E k ?sc = Inr sc"
    by (rule del_from_session_returns [OF E]) (use wf k in \<open>auto simp: cache_wf_def\<close>)
  then obtain sc where d: "del_from_session E k ?sc = Inr sc" by blast
  have "\<exists>sb. sc = deleted k sb ?sc"
    by (rule del_from_session_eq [OF d]) (use wf k in \<open>auto simp: cache_wf_def\<close>)
  then obtain sb where sc: "sc = deleted k sb ?sc" by blast
  let ?w1 = "w\<lparr>cache := sc, marked_fds := (marked_fds w)[nat f := marked_fds w ! nat f + 1]\<rparr>"
  have only: "fd_at j (cache w) \<noteq> f" if "j < session_count (cache w)" "j \<noteq> k" for j
    using fd_at_unique [OF wf that(1) k(1)] k(2) that(2) by auto
  have pf: "push_found E k f ?st w = Inr ?w1"
    using p d m by (simp add: push_found_def given_status_def [abs_def] Let_def mark_def)
  have "push_scan E f ?st 0 False w = and_then (push_found E k f ?st w) (push_scan E f ?st (k + 1) True)"
    by (rule push_scan_at) (use k only in auto)
  also have "\<dots> = push_scan E f ?st (k + 1) True ?w1" unfolding pf by simp
  also have "\<dots> = Inr (True, ?w1)"
    by (rule push_scan_after_delete [OF wf k]) (simp add: sc)
  finally show ?thesis
    using table_fd_range [OF wf, of f] fd_at_in_table [OF wf k(1)] k(2)
    by (simp add: push_request_def)
qed

lemma push_request_late:
  assumes "cache_wf (cache w)" and "f \<notin> conn_fds (cache w)" and "0 < f" "f < 16384"
    and "st \<noteq> WORK_STATUS_INITIAL" and "st \<noteq> WORK_STATUS_INITIAL_SSL"
  shows "push_request E f st w = Inr w"
  using assms by (simp add: push_request_def push_scan_absent)

text \<open>A new descriptor: without TLS the session joins; with TLS it stays when the handshake may go on.\<close>

lemma push_request_join:
  assumes wf: "cache_wf (cache w)" and f: "f \<notin> conn_fds (cache w)"
    and r: "push_request E f WORK_STATUS_INITIAL w = Inr w'"
  shows "\<exists>n sb. n = (if session_count (cache w) < max_size (cache w) then session_count (cache w)
        else session_last_index (cache w)) \<and> n < max_size (cache w) \<and> 0 < f \<and> f < 16384 \<and>
      w' = w\<lparr>cache := added E n f sb (cache w)\<rparr>"
proof -
  obtain n sc where a: "add_to_session E f (cache w) = Inr (n, sc)" and w': "w' = w\<lparr>cache := sc\<rparr>"
    and range: "0 < f" "f < 16384"
    using r push_scan_absent [OF wf f] by (auto simp: push_request_def)
  have lock: "lockstep (cache w)" using wf by (simp add: cache_wf_def)
  from add_to_session_eq [OF a lock] w' range show ?thesis by blast
qed

definition with_ssl_bio :: "(ptr \<Rightarrow> ptr option) \<Rightarrow> session_cache \<Rightarrow> session_cache" where
  "with_ssl_bio sb sc = sc\<lparr>ssl_bio := sb\<rparr>"

lemma with_ssl_bio_simps [simp]:
  "session_array (with_ssl_bio sb sc) = session_array sc" "lockstep (with_ssl_bio sb sc) = lockstep sc"
  "session_count (with_ssl_bio sb sc) = session_count sc" "max_size (with_ssl_bio sb sc) = max_size sc"
  "conn_table (with_ssl_bio sb sc) = conn_table sc"
  "cache_wf (with_ssl_bio sb sc) = cache_wf sc"
  by (simp_all add: with_ssl_bio_def lockstep_def conn_table_def conn_at_def [abs_def] slots_def
      cache_wf_def spare_def split: option.split)

lemma init_session_connection_frame:
  "init_session_connection E i sc = Inr (ret, sc') \<Longrightarrow> \<exists>sb. sc' = with_ssl_bio sb sc"
  by (auto simp: init_session_connection_def with_ssl_bio_def Let_def split: option.splits if_splits)

definition flag_ssl :: "nat \<Rightarrow> session_cache \<Rightarrow> session_cache" where
  "flag_ssl i sc = sc\<lparr>requests := (requests sc)(request_array sc ! i :=
     (requests sc (request_array sc ! i))\<lparr>is_ssl := True\<rparr>)\<rparr>"

lemma flag_ssl_simps [simp]:
  "session_array (flag_ssl i sc) = session_array sc" "lockstep (flag_ssl i sc) = lockstep sc"
  "session_count (flag_ssl i sc) = session_count sc" "max_size (flag_ssl i sc) = max_size sc"
  "conn_table (flag_ssl i sc) = conn_table sc" "cache_wf (flag_ssl i sc) = cache_wf sc"
  by (simp_all add: flag_ssl_def lockstep_def conn_table_def conn_at_def [abs_def] slots_def
      cache_wf_def spare_def split: option.split)

lemma push_request_join_ssl:
  assumes wf: "cache_wf (cache w)" and f: "f \<notin> conn_fds (cache w)"
    and r: "push_request E f WORK_STATUS_INITIAL_SSL w = Inr w'"
  shows "\<exists>n sb sb' sc. n = (if session_count (cache w) < max_size (cache w) then session_count (cache w)
        else session_last_index (cache w)) \<and> n < max_size (cache w) \<and> 0 < f \<and> f < 16384 \<and>
      sc = with_ssl_bio sb' (added E n f sb (cache w)) \<and>
      (w' = w\<lparr>cache := flag_ssl n sc\<rparr> \<or>
       (\<exists>sb2 m. mark f (marked_fds w) = Inr m \<and> w' = w\<lparr>cache := deleted n sb2 sc, marked_fds := m\<rparr>))"
proof -
  obtain n sc ret sc1 where a: "add_to_session E f (cache w) = Inr (n, sc)"
    and i: "init_session_connection E n sc = Inr (ret, sc1)" and range: "0 < f" "f < 16384"
    and w': "(ret = 1 \<and> w' = w\<lparr>cache := flag_ssl n sc1\<rparr>) \<or>
      (ret = -1 \<and> (\<exists>sc2 m. del_from_session E n sc1 = Inr sc2 \<and> mark f (marked_fds w) = Inr m \<and>
        w' = w\<lparr>cache := sc2, marked_fds := m\<rparr>))"
    using r push_scan_absent [OF wf f]
    by (fastforce simp: push_request_def flag_ssl_def split: if_splits)
  have lock: "lockstep (cache w)" using wf by (simp add: cache_wf_def)
  from add_to_session_eq [OF a lock] obtain sb where
    n: "n = (if session_count (cache w) < max_size (cache w) then session_count (cache w)
        else session_last_index (cache w))" "n < max_size (cache w)"
    and sc: "sc = added E n f sb (cache w)" by blast
  from init_session_connection_frame [OF i] obtain sb' where sc1: "sc1 = with_ssl_bio sb' sc" by blast
  have del: "\<exists>sb2. sc2 = deleted n sb2 sc1" if "del_from_session E n sc1 = Inr sc2" for sc2
    by (rule del_from_session_eq [OF that])
      (use n wf in \<open>auto simp: sc1 sc cache_wf_def split: if_splits\<close>)
  from w' show ?thesis
    using n range del sc1 sc by blast
qed

text \<open>Every outcome of \<open>push_request\<close> keeps the invariant.\<close>

lemma push_request_wf:
  assumes wf: "cache_wf (cache w)" and r: "push_request E f st w = Inr w'"
  shows "cache_wf (cache w')"
proof (cases "f \<in> conn_fds (cache w)")
  case True
  then obtain k where k: "k < session_count (cache w)" "fd_at k (cache w) = f"
    using fd_in_table [OF wf] by blast
  have p: "has_status (status_at k (cache w)) WORK_STATUS_PROCESSING"
    using push_request_unowned [OF wf k, of E st] r by auto
  show ?thesis
  proof (cases "st = WORK_STATUS_REJECTED")
    case True
    have "cache_wf (set_status k (given_status st) (cache w))" using wf k(1) by (rule cache_wf_set_status)
    then show ?thesis
      using push_request_rejected [OF wf k r [unfolded True]] k(1) True
      by (auto intro!: cache_wf_deleted)
  next
    case False
    then show ?thesis
      using push_request_present [OF wf k False p, of E] r k(1) wf by (simp add: cache_wf_given)
  qed
next
  case False
  have range: "0 < f" "f < 16384" using r by (auto simp: push_request_def)
  note add = cache_wf_added [OF wf False range]
  consider "st = WORK_STATUS_INITIAL" | "st = WORK_STATUS_INITIAL_SSL"
    | "st \<noteq> WORK_STATUS_INITIAL" "st \<noteq> WORK_STATUS_INITIAL_SSL" by blast
  then show ?thesis
  proof cases
    case 1
    from push_request_join [OF wf False r [unfolded 1]] add show ?thesis by fastforce
  next
    case 2
    obtain n sb sb' sc where n: "n = (if session_count (cache w) < max_size (cache w)
        then session_count (cache w) else session_last_index (cache w))" "n < max_size (cache w)"
      and sc: "sc = with_ssl_bio sb' (added E n f sb (cache w))"
      and w': "w' = w\<lparr>cache := flag_ssl n sc\<rparr> \<or>
       (\<exists>sb2 m. mark f (marked_fds w) = Inr m \<and> w' = w\<lparr>cache := deleted n sb2 sc, marked_fds := m\<rparr>)"
      using push_request_join_ssl [OF wf False r [unfolded 2]] by blast
    have wf': "cache_wf sc" using add [OF n] sc by simp
    moreover have "n < session_count sc" using n sc wf by (auto simp: cache_wf_def)
    ultimately show ?thesis using w' cache_wf_deleted [OF wf'] by auto
  next
    case 3
    then show ?thesis using push_request_late [OF wf False range] r wf by simp
  qed
qed

section \<open>pop_request and pop_request_by_fd\<close>

lemma peek_scan_Some:
  "peek_scan_sessions st sc i n index = Some k \<longleftrightarrow>
     (i \<le> k \<and> k < i + n \<and> ready st (status_at k sc) \<and>
        (\<forall>j. k < j \<and> j < i + n \<longrightarrow> \<not> ready st (status_at j sc))) \<or>
     (index = Some k \<and> (\<forall>j. i \<le> j \<and> j < i + n \<longrightarrow> \<not> ready st (status_at j sc)))"
proof (induction n arbitrary: i index)
  case 0
  then show ?case by auto
next
  case (Suc n)
  have nxt: "peek_scan_sessions st sc i (Suc n) index
      = peek_scan_sessions st sc (Suc i) n (if ready st (status_at i sc) then Some i else index)"
    by (simp add: peek_test_iff)
  have all: "(\<forall>j. i \<le> j \<and> j < i + Suc n \<longrightarrow> \<not> ready st (status_at j sc)) \<longleftrightarrow>
      \<not> ready st (status_at i sc) \<and> (\<forall>j. Suc i \<le> j \<and> j < Suc i + n \<longrightarrow> \<not> ready st (status_at j sc))"
    by (auto simp: Suc_le_eq) (metis le_neq_implies_less)
  have above: "i < j \<longleftrightarrow> Suc i \<le> j" for j by auto
  show ?case
    unfolding nxt Suc.IH all
    by (cases "k = i"; cases "ready st (status_at i sc)") (auto simp: above)
qed

lemma peek_next_Some:
  "peek_next st sc = Some k \<longleftrightarrow> k < session_count sc \<and> ready st (status_at k sc) \<and>
     (\<forall>j. k < j \<and> j < session_count sc \<longrightarrow> \<not> ready st (status_at j sc))"
  by (auto simp: peek_next_def peek_scan_Some)

lemma peek_scan_None:
  "peek_scan_sessions st sc i n index = None \<longleftrightarrow>
     index = None \<and> (\<forall>j. i \<le> j \<and> j < i + n \<longrightarrow> \<not> ready st (status_at j sc))"
proof (induction n arbitrary: i index)
  case 0
  then show ?case by auto
next
  case (Suc n)
  show ?case
    unfolding peek_scan_sessions.simps Suc.IH peek_test_iff
    by (auto simp: Suc_le_eq) (metis le_neq_implies_less)
qed

lemma peek_next_None:
  "peek_next st sc = None \<longleftrightarrow> (\<forall>j < session_count sc. \<not> ready st (status_at j sc))"
  by (simp add: peek_next_def peek_scan_None)

definition taken :: "nat \<Rightarrow> session_cache \<Rightarrow> session_cache" where
  "taken i sc = set_status i (\<lambda>s. char_or s (ws_code WORK_STATUS_PROCESSING)) sc"

lemma pop_request_cases:
  assumes "pop_request st stopped sc = Inr (r, sc')"
  shows "(\<exists>k. peek_next st sc = Some k \<and> r = Pops (Some (full_return k sc)) \<and> sc' = taken k sc) \<or>
    (peek_next st sc = None \<and> sc' = sc \<and>
      ((stopped \<and> r = Pops None) \<or> (\<not> stopped \<and> (\<exists>c. wait_cond st = Some c \<and> r = Waits c))))"
  using assms by (auto simp: pop_request_def taken_def split: option.splits if_splits)

lemma full_return_slots:
  assumes "cache_wf sc" and "k < session_count sc"
  shows "full_return k sc = (let p = conn_slot (conn_table sc ! k) in
    \<lparr>r_session = p, r_bio = p, r_ssl = map_option (\<lambda>_. p) (ssl_array sc), r_buffer = p,
     r_request = p, r_response = p\<rparr>)"
proof -
  have "map_option (\<lambda>ss. ss ! k) (ssl_array sc) = map_option (\<lambda>_. session_array sc ! k) (ssl_array sc)"
    using assms(1) by (cases "ssl_array sc") (auto simp: cache_wf_def dest: lockstep_ssl)
  then show ?thesis
    using assms by (simp add: full_return_def nth_conn_table conn_at_def cache_wf_def lockstep_arrays Let_def)
qed

lemma find_fd_Some:
  "find_fd f sc i n = Some k \<longleftrightarrow> i \<le> k \<and> k < i + n \<and> fd_at k sc = f \<and>
     (\<forall>j. i \<le> j \<and> j < k \<longrightarrow> fd_at j sc \<noteq> f)"
proof (induction n arbitrary: i)
  case 0
  then show ?case by auto
next
  case (Suc n)
  show ?case
    by (auto simp: Suc.IH Suc_le_eq) (metis le_neq_implies_less)+
qed

lemma pop_by_fd_cases:
  assumes "pop_request_by_fd f sc = Inr (r, sc')"
  shows "(r = None \<and> sc' = sc) \<or>
    (\<exists>k < session_count sc. fd_at k sc = f \<and> r = Some (full_return k sc) \<and> sc' = taken k sc \<and>
       (has_status (status_at k sc) WORK_STATUS_SEND_FAILED \<or>
        \<not> has_status (status_at k sc) WORK_STATUS_PROCESSING))"
  using assms
  by (auto simp: pop_request_by_fd_def Let_def taken_def find_fd_Some split: option.splits if_splits)

lemma taken_simps [simp]:
  "session_count (taken k sc) = session_count sc" "max_size (taken k sc) = max_size sc"
  "sessions (taken k sc) = sessions sc" "session_array (taken k sc) = session_array sc"
  by (simp_all add: taken_def)

lemma cache_wf_taken: "cache_wf sc \<Longrightarrow> k < session_count sc \<Longrightarrow> cache_wf (taken k sc)"
  by (simp add: taken_def cache_wf_set_status)

lemma pop_request_wf:
  assumes wf: "cache_wf sc" and r: "pop_request st stopped sc = Inr (r, sc')"
  shows "cache_wf sc'"
proof -
  from pop_request_cases [OF r] consider k where "peek_next st sc = Some k" "sc' = taken k sc" | "sc' = sc"
    by (elim disjE exE conjE)
  then show ?thesis
    by cases (simp_all add: wf peek_next_Some cache_wf_taken [OF wf])
qed

lemma pop_by_fd_wf:
  assumes wf: "cache_wf sc" and r: "pop_request_by_fd f sc = Inr (r, sc')"
  shows "cache_wf sc'"
proof -
  from pop_by_fd_cases [OF r] consider k where "k < session_count sc" "sc' = taken k sc" | "sc' = sc"
    by (elim disjE exE conjE)
  then show ?thesis
    by cases (simp_all add: wf cache_wf_taken [OF wf])
qed

definition take_status :: "8 word \<Rightarrow> 8 word" where
  "take_status s = char_or s (ws_code WORK_STATUS_PROCESSING)"

lemma conn_table_taken:
  "cache_wf sc \<Longrightarrow> k < session_count sc \<Longrightarrow>
   conn_table (taken k sc) = (conn_table sc)[k := restatus take_status (conn_table sc ! k)]"
  by (simp add: taken_def conn_table_set_status take_status_def [abs_def])

lemma marks_take: "marks_of (take_status s) = insert WORK_STATUS_PROCESSING (marks_of s)"
proof (rule set_eqI)
  fix x
  show "x \<in> marks_of (take_status s) \<longleftrightarrow> x \<in> insert WORK_STATUS_PROCESSING (marks_of s)"
    by (cases x) (simp_all add: take_status_def marks_of_mem bit_char_or bit_ws_code byte_high_bits)
qed

section \<open>The contract of the pool\<close>

text \<open>
  The threads' view: \<open>held s\<close> are the descriptors of the sessions some thread works on, \<open>failed s\<close>
  those whose response could not be sent. A worker takes a session of a stage, the listener asks for
  the session of a descriptor, and a thread gives a session back with a mark.
\<close>

datatype event = Take WORK_STATUS | Fetch int | Give int WORK_STATUS

fun run_pool :: "(WORK_STATUS \<Rightarrow> 's \<Rightarrow> (int option \<times> 's) result) \<Rightarrow> (int \<Rightarrow> 's \<Rightarrow> (int option \<times> 's) result) \<Rightarrow>
    (int \<Rightarrow> WORK_STATUS \<Rightarrow> 's \<Rightarrow> 's result) \<Rightarrow> event list \<Rightarrow> 's \<Rightarrow> (int list \<times> 's) result" where
  "run_pool tk fetch give [] s = Inr ([], s)"
| "run_pool tk fetch give (Take st # es) s =
     and_then (tk st s) (\<lambda>(r, s'). and_then (run_pool tk fetch give es s') (\<lambda>(out, s'').
       Inr ((case r of None \<Rightarrow> [] | Some f \<Rightarrow> [f]) @ out, s'')))"
| "run_pool tk fetch give (Fetch f # es) s =
     and_then (fetch f s) (\<lambda>(r, s'). and_then (run_pool tk fetch give es s') (\<lambda>(out, s'').
       Inr ((case r of None \<Rightarrow> [] | Some f \<Rightarrow> [f]) @ out, s'')))"
| "run_pool tk fetch give (Give f st # es) s = and_then (give f st s) (run_pool tk fetch give es)"

definition returns_work :: "event \<Rightarrow> bool" where
  "returns_work e = (case e of Give f st \<Rightarrow> st \<noteq> WORK_STATUS_INITIAL \<and> st \<noteq> WORK_STATUS_INITIAL_SSL
     | _ \<Rightarrow> True)"

locale work_pool =
  fixes ok :: "'s \<Rightarrow> bool"
    and held :: "'s \<Rightarrow> int set"
    and failed :: "'s \<Rightarrow> int set"
    and tk :: "WORK_STATUS \<Rightarrow> 's \<Rightarrow> (int option \<times> 's) result"
    and fetch :: "int \<Rightarrow> 's \<Rightarrow> (int option \<times> 's) result"
    and give :: "int \<Rightarrow> WORK_STATUS \<Rightarrow> 's \<Rightarrow> 's result"
  assumes tk_law: "ok s \<Longrightarrow> tk st s = Inr (r, s') \<Longrightarrow> ok s' \<and> failed s' = failed s \<and>
      (case r of None \<Rightarrow> held s' = held s | Some f \<Rightarrow> f \<notin> held s \<and> held s' = insert f (held s))"
    and fetch_law: "ok s \<Longrightarrow> fetch f s = Inr (r, s') \<Longrightarrow> ok s' \<and> failed s' = failed s \<and>
      (case r of None \<Rightarrow> held s' = held s
       | Some g \<Rightarrow> (g \<in> held s \<longrightarrow> g \<in> failed s) \<and> held s' = insert g (held s))"
    and give_law: "ok s \<Longrightarrow> st \<noteq> WORK_STATUS_INITIAL \<Longrightarrow> st \<noteq> WORK_STATUS_INITIAL_SSL \<Longrightarrow>
      give f st s = Inr s' \<Longrightarrow> ok s' \<and> held s' - {f} = held s - {f} \<and> failed s' - {f} = failed s - {f}"
begin

lemma run_exclusive:
  "ok s \<Longrightarrow> run_pool tk fetch give es s = Inr (out, s') \<Longrightarrow> f \<in> held s \<Longrightarrow> f \<notin> failed s \<Longrightarrow>
   \<forall>e \<in> set es. returns_work e \<Longrightarrow> \<forall>st. Give f st \<notin> set es \<Longrightarrow>
   f \<notin> set out \<and> f \<in> held s' \<and> ok s'"
proof (induction es arbitrary: s out)
  case Nil
  then show ?case by simp
next
  case (Cons e es)
  have later: "f \<notin> set out' \<and> f \<in> held s' \<and> ok s'"
    if "ok s1" "run_pool tk fetch give es s1 = Inr (out', s')" "f \<in> held s1" "f \<notin> failed s1" for s1 out'
    by (rule Cons.IH [OF that]) (use Cons.prems in auto)
  show ?case
  proof (cases e)
    case (Take st)
    with Cons.prems obtain r s1 out' where t: "tk st s = Inr (r, s1)"
      and es: "run_pool tk fetch give es s1 = Inr (out', s')"
      and out: "out = (case r of None \<Rightarrow> [] | Some f \<Rightarrow> [f]) @ out'" by auto
    from tk_law [OF Cons.prems(1) t] later [OF _ es] Cons.prems(3,4) out show ?thesis
      by (auto split: option.splits)
  next
    case (Fetch g)
    with Cons.prems obtain r s1 out' where t: "fetch g s = Inr (r, s1)"
      and es: "run_pool tk fetch give es s1 = Inr (out', s')"
      and out: "out = (case r of None \<Rightarrow> [] | Some f \<Rightarrow> [f]) @ out'" by auto
    from fetch_law [OF Cons.prems(1) t] later [OF _ es] Cons.prems(3,4) out show ?thesis
      by (auto split: option.splits)
  next
    case (Give g st)
    with Cons.prems obtain s1 where t: "give g st s = Inr s1"
      and es: "run_pool tk fetch give es s1 = Inr (out, s')" by auto
    from Give Cons.prems(5) have st: "st \<noteq> WORK_STATUS_INITIAL" "st \<noteq> WORK_STATUS_INITIAL_SSL"
      by (auto simp: returns_work_def)
    have "g \<noteq> f" using Cons.prems(6) Give by auto
    then show ?thesis
      using give_law [OF Cons.prems(1) st t] later [OF _ es] Cons.prems(3,4) by auto
  qed
qed

end

section \<open>The session table keeps the contract\<close>

definition fds_with :: "WORK_STATUS \<Rightarrow> conn list \<Rightarrow> int set" where
  "fds_with x cs = conn_fd ` {c \<in> set cs. x \<in> marks_of (conn_status c)}"

definition take_work :: "bool \<Rightarrow> WORK_STATUS \<Rightarrow> world \<Rightarrow> (int option \<times> world) result" where
  "take_work stopped st w = and_then (pop_request st stopped (cache w)) (\<lambda>(r, sc).
     Inr ((case r of Pops (Some x) \<Rightarrow> Some (related_fd (sessions (cache w) (r_session x))) | _ \<Rightarrow> None),
          w\<lparr>cache := sc\<rparr>))"

definition fetch_work :: "int \<Rightarrow> world \<Rightarrow> (int option \<times> world) result" where
  "fetch_work f w = and_then (pop_request_by_fd f (cache w)) (\<lambda>(r, sc).
     Inr (map_option (\<lambda>x. related_fd (sessions (cache w) (r_session x))) r, w\<lparr>cache := sc\<rparr>))"

lemma fds_with_Cons [simp]: "fds_with x (c # cs) =
    (if x \<in> marks_of (conn_status c) then insert (conn_fd c) (fds_with x cs) else fds_with x cs)"
  by (auto simp: fds_with_def)

lemma fds_with_Nil [simp]: "fds_with x [] = {}"
  by (simp add: fds_with_def)

lemma fds_with_append [simp]: "fds_with x (cs @ ds) = fds_with x cs \<union> fds_with x ds"
  by (auto simp: fds_with_def)

lemma fds_with_subset: "fds_with x cs \<subseteq> conn_fd ` set cs"
  by (auto simp: fds_with_def)

lemma fds_with_restatus:
  assumes "distinct (map conn_fd cs)" and "k < length cs"
  shows "fds_with x (cs[k := restatus g (cs ! k)]) =
    (if x \<in> marks_of (g (conn_status (cs ! k))) then insert (conn_fd (cs ! k)) (fds_with x cs)
     else fds_with x cs - {conn_fd (cs ! k)})"
proof -
  have split: "cs = take k cs @ cs ! k # drop (Suc k) cs" using assms(2) by (rule id_take_nth_drop)
  have upd: "cs[k := restatus g (cs ! k)] = take k cs @ restatus g (cs ! k) # drop (Suc k) cs"
    using assms(2) by (rule upd_conv_take_nth_drop)
  define a b c where "a = take k cs" and "b = cs ! k" and "c = drop (Suc k) cs"
  have "distinct (map conn_fd (a @ b # c))"
    using assms(1) split by (simp add: a_def b_def c_def)
  then have "conn_fd b \<notin> fds_with x a" "conn_fd b \<notin> fds_with x c"
    using fds_with_subset [of x a] fds_with_subset [of x c] by auto
  moreover have "cs = a @ b # c" using split by (simp add: a_def b_def c_def)
  ultimately have "fds_with x (a @ restatus g b # c) =
      (if x \<in> marks_of (g (conn_status b)) then insert (conn_fd b) (fds_with x cs)
       else fds_with x cs - {conn_fd b})"
    by auto
  then show ?thesis unfolding upd by (simp add: a_def b_def c_def)
qed

lemma fds_with_remove:
  assumes "distinct (map conn_fd cs)" and "k < length cs"
  shows "fds_with x (remove_nth k cs) = fds_with x cs - {conn_fd (cs ! k)}"
proof -
  have split: "cs = take k cs @ cs ! k # drop (Suc k) cs" using assms(2) by (rule id_take_nth_drop)
  define a b c where "a = take k cs" and "b = cs ! k" and "c = drop (Suc k) cs"
  have "distinct (map conn_fd (a @ b # c))"
    using assms(1) split by (simp add: a_def b_def c_def)
  then have "conn_fd b \<notin> fds_with x a" "conn_fd b \<notin> fds_with x c"
    using fds_with_subset [of x a] fds_with_subset [of x c] by auto
  moreover have "cs = a @ b # c" using split by (simp add: a_def b_def c_def)
  ultimately have "fds_with x (a @ c) = fds_with x cs - {conn_fd b}"
    by auto
  then show ?thesis by (simp add: remove_nth_def a_def b_def c_def)
qed

lemma fds_with_status:
  assumes "cache_wf sc" and "k < session_count sc"
  shows "conn_fd (conn_table sc ! k) \<in> fds_with x (conn_table sc) \<longleftrightarrow> x \<in> marks_of (status_at k sc)"
proof -
  have d: "distinct (map conn_fd (conn_table sc))" using assms(1) by (simp add: cache_wf_def)
  have "restatus (\<lambda>s. s) (conn_table sc ! k) = conn_table sc ! k" by (simp add: restatus_def)
  then have id: "(conn_table sc)[k := restatus (\<lambda>s. s) (conn_table sc ! k)] = conn_table sc"
    by (simp only: list_update_id)
  have "fds_with x (conn_table sc) =
    (if x \<in> marks_of (conn_status (conn_table sc ! k))
     then insert (conn_fd (conn_table sc ! k)) (fds_with x (conn_table sc))
     else fds_with x (conn_table sc) - {conn_fd (conn_table sc ! k)})"
    using fds_with_restatus [OF d, of k x "\<lambda>s. s"] assms unfolding id by simp
  then show ?thesis
    unfolding status_at_table [OF assms(2,1)] by (metis Diff_iff insertI1)
qed

lemma fds_with_taken:
  assumes "cache_wf sc" and "k < session_count sc"
  shows "fds_with x (conn_table (taken k sc)) = (if x = WORK_STATUS_PROCESSING
     then insert (fd_at k sc) (fds_with x (conn_table sc)) else fds_with x (conn_table sc))"
proof -
  have d: "distinct (map conn_fd (conn_table sc))" and l: "k < length (conn_table sc)"
    using assms by (simp_all add: cache_wf_def conn_table_def slots_def)
  show ?thesis
    using fds_with_status [OF assms, of x]
    by (auto simp: conn_table_taken [OF assms] fds_with_restatus [OF d l] marks_take
        status_at_table [OF assms(2,1)] fd_at_table [OF assms(2,1)])
qed

lemma has_status_marks: "ws_bit st \<le> 7 \<Longrightarrow> has_status s st \<longleftrightarrow> st \<in> marks_of s"
  by (simp add: has_status_bit marks_of_mem min_def)

lemma full_return_fd: "related_fd (sessions sc (r_session (full_return k sc))) = fd_at k sc"
  by (simp add: full_return_def fd_at_def)

lemma push_request_conns:
  assumes wf: "cache_wf (cache w)" and st: "st \<noteq> WORK_STATUS_INITIAL" "st \<noteq> WORK_STATUS_INITIAL_SSL"
    and r: "push_request E f st w = Inr w'"
  shows "fds_with x (conn_table (cache w')) - {f} = fds_with x (conn_table (cache w)) - {f}"
proof (cases "f \<in> conn_fds (cache w)")
  case True
  then obtain k where k: "k < session_count (cache w)" "fd_at k (cache w) = f"
    using fd_in_table [OF wf] by blast
  have p: "has_status (status_at k (cache w)) WORK_STATUS_PROCESSING"
    using push_request_unowned [OF wf k, of E st] r by auto
  have d: "distinct (map conn_fd (conn_table (cache w)))" using wf by (simp add: cache_wf_def)
  have l: "k < length (conn_table (cache w))" using wf k(1) by simp
  have f: "conn_fd (conn_table (cache w) ! k) = f" using fd_at_table [OF k(1) wf] k(2) by simp
  let ?sc = "set_status k (given_status st) (cache w)"
  have wf': "cache_wf ?sc" using wf k(1) by (rule cache_wf_set_status)
  have tab: "conn_table ?sc = (conn_table (cache w))[k := restatus (given_status st) (conn_table (cache w) ! k)]"
    using wf k(1) by (rule conn_table_set_status)
  have eq: "fds_with x (conn_table ?sc) - {f} = fds_with x (conn_table (cache w)) - {f}"
    unfolding tab fds_with_restatus [OF d l] f by auto
  show ?thesis
  proof (cases "st = WORK_STATUS_REJECTED")
    case True
    then obtain sb where "conn_table (cache w') = remove_nth k (conn_table ?sc)"
      using push_request_rejected [OF wf k r [unfolded True]] conn_table_deleted [OF wf'] k(1) by auto
    moreover have "distinct (map conn_fd (conn_table ?sc))" using wf' by (simp add: cache_wf_def)
    moreover have "conn_fd (conn_table ?sc ! k) = f" using l f by (simp add: tab)
    moreover have "k < length (conn_table ?sc)" using wf' k(1) by simp
    ultimately show ?thesis using eq by (simp add: fds_with_remove)
  next
    case False
    then show ?thesis using push_request_present [OF wf k False p, of E] r eq by simp
  qed
next
  case False
  have "0 < f" "f < 16384" using r by (auto simp: push_request_def)
  then show ?thesis using push_request_late [OF wf False _ _ st] r by simp
qed

lemma ready_not_held: "ready st s \<Longrightarrow> WORK_STATUS_PROCESSING \<notin> marks_of s"
  by (simp add: ready_def has_status_marks)

interpretation pool: work_pool "\<lambda>w. cache_wf (cache w)"
    "\<lambda>w. fds_with WORK_STATUS_PROCESSING (conn_table (cache w))"
    "\<lambda>w. fds_with WORK_STATUS_SEND_FAILED (conn_table (cache w))"
    "take_work stopped" fetch_work "push_request E" for stopped E
proof (unfold_locales, goal_cases)
  case (1 w st r w')
  then obtain p sc where p: "pop_request st stopped (cache w) = Inr (p, sc)" and w': "w' = w\<lparr>cache := sc\<rparr>"
    and r: "r = (case p of Pops (Some x) \<Rightarrow> Some (related_fd (sessions (cache w) (r_session x))) | _ \<Rightarrow> None)"
    by (auto simp: take_work_def)
  from pop_request_cases [OF p] show ?case
  proof (elim disjE exE conjE)
    fix k
    assume k: "peek_next st (cache w) = Some k" and "p = Pops (Some (full_return k (cache w)))"
      and sc: "sc = taken k (cache w)"
    then have "r = Some (fd_at k (cache w))" using r by (simp add: full_return_fd)
    moreover have lt: "k < session_count (cache w)" and rd: "ready st (status_at k (cache w))"
      using k by (auto simp: peek_next_Some)
    moreover have "fd_at k (cache w) \<notin> fds_with WORK_STATUS_PROCESSING (conn_table (cache w))"
      using ready_not_held [OF rd] fds_with_status [OF 1(1) lt] by (simp add: fd_at_table [OF lt 1(1)])
    ultimately show ?thesis
      using 1(1) by (simp add: w' sc cache_wf_taken fds_with_taken)
  qed (use 1(1) r w' in auto)
next
  case (2 w f r w')
  note wf = 2(1)
  from 2 obtain p sc where p: "pop_request_by_fd f (cache w) = Inr (p, sc)" and w': "w' = w\<lparr>cache := sc\<rparr>"
    and r: "r = map_option (\<lambda>x. related_fd (sessions (cache w) (r_session x))) p"
    by (auto simp: fetch_work_def)
  consider "p = None" "sc = cache w"
    | k where "k < session_count (cache w)" "p = Some (full_return k (cache w))" "sc = taken k (cache w)"
        "has_status (status_at k (cache w)) WORK_STATUS_SEND_FAILED \<or>
          \<not> has_status (status_at k (cache w)) WORK_STATUS_PROCESSING"
    using pop_by_fd_cases [OF p] by blast
  then show ?case
  proof cases
    case 1
    then show ?thesis using wf r w' by simp
  next
    case (2 k)
    note lt = 2(1) and sc = 2(3) and fl = 2(4)
    have "r = Some (fd_at k (cache w))" using r 2(2) by (simp add: full_return_fd)
    then show ?thesis
      using wf lt fl fds_with_status [OF wf lt]
      by (auto simp: w' sc cache_wf_taken fds_with_taken has_status_marks fd_at_table [OF lt wf])
  qed
next
  case (3 w st f w')
  then show ?case
    using push_request_wf push_request_conns [OF 3(1-4)] by simp
qed

section \<open>Properties\<close>

text \<open>A world for the examples: \<open>n\<close> slots, the given connections in the first of them.\<close>

definition demo_env :: env where
  "demo_env = \<lparr>rand_ret = 7, bio_reset_ret = (\<lambda>_. 1), ssl_clear_ret = (\<lambda>_. 1),
     ssl_accept_ret = (\<lambda>_. 1), ssl_get_error_ret = (\<lambda>_ _. 0)\<rparr>"

definition demo_world :: "nat \<Rightarrow> (int \<times> 8 word) list \<Rightarrow> world" where
  "demo_world n cs = \<lparr>cache = \<lparr>session_array = [0..<n], status_array = [0..<n],
      buffer_array = [0..<n], request_array = [0..<n], response_array = [0..<n],
      bio_array = [0..<n], ssl_array = None, max_size = n, session_count = length cs,
      session_last_index = 0,
      sessions = (\<lambda>p. if p < length cs then \<lparr>session_id = 1, related_fd = fst (cs ! p), thread_id = 0\<rparr>
        else zero_session),
      statuses = (\<lambda>p. if p < length cs then snd (cs ! p) else 0),
      buffers = (\<lambda>_. \<lparr>capacity = 0, count = 0, data = None\<rparr>),
      requests = (\<lambda>_. zero_request), responses = (\<lambda>_. zero_response),
      bios = (\<lambda>p. \<lparr>bio_fd = (if p < length cs then fst (cs ! p) else -1), bio_nbio = True\<rparr>),
      ssl_bio = (\<lambda>_. None)\<rparr>,
    marked_fds = init_marked_fds n, broadcasts = []\<rparr>"

lemma resets_ok_demo: "resets_ok demo_env"
  by (simp add: resets_ok_def demo_env_def)

lemma buffer_wf_zero: "buffer_wf zero_buffer"
  by (simp add: buffer_wf_def zero_buffer_def)

text \<open>\<open>init_session_cache\<close> establishes the invariant with an empty table of the configured size.\<close>

lemma init_session_cache_wf:
  assumes "init_session_cache L n ctx = Inr sc" and "n < 2 ^ 31"
  shows "cache_wf sc \<and> conn_table sc = [] \<and> max_size sc = n"
proof -
  have sc: "sc = \<lparr>session_array = [0..<n], status_array = [0..<n], buffer_array = [0..<n],
      request_array = [0..<n], response_array = [0..<n], bio_array = [0..<n],
      ssl_array = (if ctx then Some [0..<n] else None),
      max_size = n, session_count = 0, session_last_index = 0,
      sessions = (\<lambda>_. zero_session), statuses = (\<lambda>_. 0), buffers = (\<lambda>_. zero_buffer),
      requests = (\<lambda>_. zero_request), responses = (\<lambda>_. zero_response),
      bios = (\<lambda>_. \<lparr>bio_fd = -1, bio_nbio = True\<rparr>), ssl_bio = (\<lambda>_. None)\<rparr>"
    using assms(1) unfolding init_session_cache_def assert_that_Inr sum.inject by (elim conjE) (rule sym)
  show ?thesis
    using assms(2) unfolding sc
    by (cases ctx) (simp_all add: cache_wf_def lockstep_def conn_table_def slots_def spare_def buffer_wf_zero)
qed

text \<open>
  The session table's invariant (arrays in lockstep, distinct slots and descriptors, the BIO of a
  session bound to its descriptor, free slots blank, buffers well-formed) is kept by every call that
  returns: \<open>push_request\<close> with any status, \<open>pop_request\<close> and \<open>pop_request_by_fd\<close>.
\<close>

lemma session_table_invariant:
  assumes "cache_wf (cache w)"
  shows "(\<forall>E f st w'. push_request E f st w = Inr w' \<longrightarrow> cache_wf (cache w')) \<and>
    (\<forall>st stopped r sc. pop_request st stopped (cache w) = Inr (r, sc) \<longrightarrow> cache_wf sc) \<and>
    (\<forall>f r sc. pop_request_by_fd f (cache w) = Inr (r, sc) \<longrightarrow> cache_wf sc)"
  using push_request_wf [OF assms] pop_request_wf [OF assms] pop_by_fd_wf [OF assms] by (intro conjI allI impI)


lemma two_slots: "[0..<2] = [0, Suc 0]"
  by (simp add: upt_rec)

lemma demo_world_wf: "cache_wf (cache (demo_world 2 [(2, 128), (3, 3)]))"
  by (simp add: cache_wf_def demo_world_def lockstep_def conn_table_def slots_def conn_at_def
      buffer_wf_def spare_def two_slots)

lemma demo_table: "conn_table (cache (demo_world 2 [(2, 128), (3, 3)])) =
    [\<lparr>conn_slot = 0, conn_fd = 2, conn_status = 128\<rparr>, \<lparr>conn_slot = 1, conn_fd = 3, conn_status = 3\<rparr>]"
  by (simp add: demo_world_def conn_table_def slots_def conn_at_def two_slots)

lemma demo_marks: "marks_at 2 (marked_fds (demo_world 2 cs))"
  by (simp add: demo_world_def marks_at_def init_marked_fds_def)

definition view :: "conn \<Rightarrow> ptr \<times> int \<times> WORK_STATUS set" where
  "view c = (conn_slot c, conn_fd c, marks_of (conn_status c))"

lemma push_request_view:
  assumes wf: "cache_wf (cache w)" and i: "i < length (conn_table (cache w))"
    and c: "view (conn_table (cache w) ! i) = (p, f, M)" "WORK_STATUS_PROCESSING \<in> M"
    and st: "st \<noteq> WORK_STATUS_REJECTED"
  shows "\<exists>w'. push_request E f st w = Inr w' \<and>
    map view (conn_table (cache w')) = (map view (conn_table (cache w)))[i := (p, f, given st M)] \<and>
    marked_fds w' = marked_fds w \<and> broadcasts w' = broadcasts w @ woken st"
proof -
  have k: "i < session_count (cache w)" using i wf by simp
  have s: "fd_at i (cache w) = f" "has_status (status_at i (cache w)) WORK_STATUS_PROCESSING"
    using c k wf by (auto simp: view_def fd_at_table status_at_table has_status_marks)
  show ?thesis
    using c push_request_present [OF wf k s(1) st s(2), of E]
    by (auto simp: conn_table_set_status [OF wf k] map_update view_def marks_given)
qed





end
