(* ===== verification/Jobs.thy ===== *)
theory Jobs
  imports SessionOps
begin

text \<open>
  What the listener and the workers see of the session table of \<^verbatim>\<open>src/data_structures/session.c\<close>: one
  \<open>job\<close> per session in use, with its descriptor, marks, buffer, request and response. Every
  operation of the table and every store of a worker into the objects it was handed is one update of
  the list of jobs; the theories of the listener and the workers rest on these lemmas.
\<close>

section \<open>The view\<close>

record job =
  j_slot :: ptr
  j_fd :: int
  j_marks :: "WORK_STATUS set"
  j_buffer :: buffer
  j_request :: http_request_t
  j_response :: http_response_t

definition job_at :: "session_cache \<Rightarrow> ptr \<Rightarrow> job" where
  "job_at sc p = \<lparr>j_slot = p, j_fd = related_fd (sessions sc p), j_marks = marks_of (statuses sc p),
     j_buffer = buffers sc p, j_request = requests sc p, j_response = responses sc p\<rparr>"

definition jobs :: "session_cache \<Rightarrow> job list" where
  "jobs sc = map (job_at sc) (slots sc)"

lemma length_slots: "cache_wf sc \<Longrightarrow> length (slots sc) = session_count sc"
  by (simp add: cache_wf_def slots_def)

lemma length_jobs [simp]: "cache_wf sc \<Longrightarrow> length (jobs sc) = session_count sc"
  by (simp add: jobs_def length_slots)

lemma nth_slots: "k < session_count sc \<Longrightarrow> slots sc ! k = session_array sc ! k"
  by (simp add: slots_def)

lemma nth_jobs:
  "cache_wf sc \<Longrightarrow> k < session_count sc \<Longrightarrow> jobs sc ! k = job_at sc (session_array sc ! k)"
  by (simp add: jobs_def length_slots nth_slots)

lemma j_slot_nth: "cache_wf sc \<Longrightarrow> k < session_count sc \<Longrightarrow> j_slot (jobs sc ! k) = session_array sc ! k"
  by (simp add: nth_jobs job_at_def)

lemma fd_at_job: "cache_wf sc \<Longrightarrow> k < session_count sc \<Longrightarrow> fd_at k sc = j_fd (jobs sc ! k)"
  by (simp add: nth_jobs job_at_def fd_at_def)

lemma status_at_job:
  "cache_wf sc \<Longrightarrow> k < session_count sc \<Longrightarrow> marks_of (status_at k sc) = j_marks (jobs sc ! k)"
  by (simp add: nth_jobs job_at_def status_at_def cache_wf_def lockstep_arrays)

lemma job_in_slots: "cache_wf sc \<Longrightarrow> k < session_count sc \<Longrightarrow> session_array sc ! k \<in> set (slots sc)"
  by (metis length_slots nth_mem nth_slots)

lemma job_bio:
  "cache_wf sc \<Longrightarrow> k < session_count sc \<Longrightarrow> bio_fd (bios sc (session_array sc ! k)) = j_fd (jobs sc ! k)"
  using job_in_slots [of sc k] by (auto simp: nth_jobs job_at_def cache_wf_def)

lemma job_buffer_wf: "cache_wf sc \<Longrightarrow> k < session_count sc \<Longrightarrow> buffer_wf (j_buffer (jobs sc ! k))"
  by (auto simp: nth_jobs job_at_def cache_wf_def)

text \<open>A change of the objects at one slot is an update of one job.\<close>

lemma jobs_update:
  assumes wf: "cache_wf sc" and k: "k < session_count sc" and s: "slots sc' = slots sc"
    and others: "\<And>q. q \<noteq> session_array sc ! k \<Longrightarrow> job_at sc' q = job_at sc q"
  shows "jobs sc' = (jobs sc)[k := job_at sc' (session_array sc ! k)]"
proof (rule nth_equalityI)
  show "length (jobs sc') = length ((jobs sc)[k := job_at sc' (session_array sc ! k)])"
    by (simp add: jobs_def s)
  fix j assume "j < length (jobs sc')"
  then have j: "j < session_count sc" using length_slots [OF wf] by (simp add: jobs_def s)
  have "distinct (session_array sc)" "session_count sc \<le> length (session_array sc)"
    using wf by (auto simp: cache_wf_def)
  then have "j \<noteq> k \<Longrightarrow> session_array sc ! j \<noteq> session_array sc ! k"
    using j k by (simp add: nth_eq_iff_index_eq)
  then show "jobs sc' ! j = (jobs sc)[k := job_at sc' (session_array sc ! k)] ! j"
    using j k others length_slots [OF wf]
    by (cases "j = k") (simp_all add: jobs_def s nth_slots)
qed

section \<open>The operations of the table\<close>

definition take_job :: "job \<Rightarrow> job" where
  "take_job j = j\<lparr>j_marks := insert WORK_STATUS_PROCESSING (j_marks j)\<rparr>"

definition give_job :: "WORK_STATUS \<Rightarrow> job \<Rightarrow> job" where
  "give_job st j =
     (let j' = j\<lparr>j_marks := given st (j_marks j)\<rparr>
      in if st = WORK_STATUS_SENT
         then j'\<lparr>j_buffer := \<lparr>capacity = 0, count = 0, data = None\<rparr>,
                 j_request := zero_request\<lparr>is_ssl := is_ssl (j_request j)\<rparr>\<rparr>
         else j')"

lemma jobs_taken:
  assumes wf: "cache_wf sc" and k: "k < session_count sc"
  shows "jobs (taken k sc) = (jobs sc)[k := take_job (jobs sc ! k)]"
proof -
  have lock: "lockstep sc" using wf by (simp add: cache_wf_def)
  have "jobs (taken k sc) = (jobs sc)[k := job_at (taken k sc) (session_array sc ! k)]"
    by (rule jobs_update [OF wf k])
      (auto simp: taken_def job_at_def statuses_set_status [OF lock])
  also have "job_at (taken k sc) (session_array sc ! k) = take_job (jobs sc ! k)"
    using marks_take
    by (simp add: nth_jobs [OF wf k] take_job_def job_at_def taken_def statuses_set_status [OF lock] take_status_def)
  finally show ?thesis .
qed

lemma jobs_given:
  assumes wf: "cache_wf sc" and k: "k < session_count sc"
  shows "jobs (given_cache k st sc) = (jobs sc)[k := give_job st (jobs sc ! k)]"
proof -
  have lock: "lockstep sc" using wf by (simp add: cache_wf_def)
  let ?p = "session_array sc ! k"
  have arr: "buffer_array (set_status k g sc) = session_array sc" "request_array (set_status k g sc) = session_array sc"
    for g using lock by (simp_all add: set_status_def lockstep_arrays)
  have "jobs (given_cache k st sc) = (jobs sc)[k := job_at (given_cache k st sc) ?p]"
    by (rule jobs_update [OF wf k])
      (auto simp: given_cache_def job_at_def statuses_set_status [OF lock] reset_request_at_index_def
        Let_def arr slots_def)
  also have "job_at (given_cache k st sc) ?p = give_job st (jobs sc ! k)"
    by (simp add: nth_jobs [OF wf k] give_job_def job_at_def given_cache_def statuses_set_status [OF lock]
        reset_request_at_index_def Let_def arr marks_given)
  finally show ?thesis .
qed

text \<open>Giving a job back, and taking one by its descriptor.\<close>

lemma push_job:
  assumes wf: "cache_wf (cache w)" and k: "k < session_count (cache w)"
    and j: "WORK_STATUS_PROCESSING \<in> j_marks (jobs (cache w) ! k)" and st: "st \<noteq> WORK_STATUS_REJECTED"
  shows "push_request E (j_fd (jobs (cache w) ! k)) st w =
    Inr (w\<lparr>cache := given_cache k st (cache w), broadcasts := broadcasts w @ woken st\<rparr>)"
  using j by (intro push_request_present [OF wf k _ st])
    (simp_all add: fd_at_job [OF wf k] has_status_marks status_at_job [OF wf k])

lemma push_job_unowned:
  assumes wf: "cache_wf (cache w)" and k: "k < session_count (cache w)"
    and j: "WORK_STATUS_PROCESSING \<notin> j_marks (jobs (cache w) ! k)"
  shows "push_request E (j_fd (jobs (cache w) ! k)) st w =
    Inl (Assert_failed ''*status_array[i] & WORK_STATUS_PROCESSING'')"
  using j by (intro push_request_unowned [OF wf k])
    (simp_all add: fd_at_job [OF wf k] has_status_marks status_at_job [OF wf k])

definition stages :: "WORK_STATUS set" where
  "stages = {WORK_STATUS_REQUEST_READ, WORK_STATUS_PARSED, WORK_STATUS_DATA_FETCHED,
     WORK_STATUS_READY_TO_SEND, WORK_STATUS_PROCESSING}"

text \<open>A session the listener may read for: no stage pending or running, or a failed send.\<close>

definition readable_job :: "job \<Rightarrow> bool" where
  "readable_job j \<longleftrightarrow> WORK_STATUS_SEND_FAILED \<in> j_marks j \<or> j_marks j \<inter> stages = {}"

lemma fetch_job:
  assumes wf: "cache_wf sc" and k: "k < session_count sc"
  shows "pop_request_by_fd (j_fd (jobs sc ! k)) sc =
    (if readable_job (jobs sc ! k) then Inr (Some (full_return k sc), taken k sc) else Inr (None, sc))"
proof -
  let ?f = "j_fd (jobs sc ! k)"
  have range: "0 < ?f" "?f < 16384"
    using table_fd_range [OF wf, of ?f] fd_at_in_table [OF wf k] fd_at_job [OF wf k] by auto
  have "fd_at j sc \<noteq> ?f" if "j < k" for j
    using fd_at_unique [OF wf _ k, of j] that k fd_at_job [OF wf k] by auto
  then have find: "find_fd ?f sc 0 (session_count sc) = Some k"
    unfolding find_fd_Some using k fd_at_job [OF wf k] by auto
  show ?thesis
    using range
    by (auto simp: pop_request_by_fd_def find Let_def has_status_marks status_at_job [OF wf k]
        readable_job_def stages_def simp flip: taken_def)
qed

lemma return_job:
  assumes wf: "cache_wf sc" and k: "k < session_count sc" and p: "p = j_slot (jobs sc ! k)"
  shows "full_return k sc = \<lparr>r_session = p, r_bio = p, r_ssl = map_option (\<lambda>_. p) (ssl_array sc),
    r_buffer = p, r_request = p, r_response = p\<rparr>"
  using p full_return_slots [OF wf k] wf k
  by (simp add: j_slot_nth nth_conn_table conn_at_def Let_def cache_wf_def)

lemma peek_job:
  assumes wf: "cache_wf sc" and k: "peek_next st sc = Some k"
  shows "k < session_count sc" and "ready st (status_at k sc)"
  using k by (simp_all add: peek_next_Some)

section \<open>Stores into the objects of a job\<close>

definition set_buffer :: "ptr \<Rightarrow> buffer \<Rightarrow> session_cache \<Rightarrow> session_cache" where
  "set_buffer p b sc = sc\<lparr>buffers := (buffers sc)(p := b)\<rparr>"

definition set_request :: "ptr \<Rightarrow> http_request_t \<Rightarrow> session_cache \<Rightarrow> session_cache" where
  "set_request p r sc = sc\<lparr>requests := (requests sc)(p := r)\<rparr>"

definition set_response :: "ptr \<Rightarrow> http_response_t \<Rightarrow> session_cache \<Rightarrow> session_cache" where
  "set_response p r sc = sc\<lparr>responses := (responses sc)(p := r)\<rparr>"

definition set_thread :: "ptr \<Rightarrow> nat \<Rightarrow> session_cache \<Rightarrow> session_cache" where
  "set_thread p t sc = sc\<lparr>sessions := (sessions sc)(p := (sessions sc p)\<lparr>thread_id := t\<rparr>)\<rparr>"

lemmas set_object_defs = set_buffer_def set_request_def set_response_def set_thread_def

lemma set_objects_simps [simp]:
  "session_count (set_buffer p b sc) = session_count sc" "session_array (set_buffer p b sc) = session_array sc"
  "session_count (set_request p r sc) = session_count sc" "session_array (set_request p r sc) = session_array sc"
  "session_count (set_response p s sc) = session_count sc" "session_array (set_response p s sc) = session_array sc"
  "session_count (set_thread p t sc) = session_count sc" "session_array (set_thread p t sc) = session_array sc"
  "slots (set_buffer p b sc) = slots sc" "slots (set_request p r sc) = slots sc"
  "slots (set_response p s sc) = slots sc" "slots (set_thread p t sc) = slots sc"
  by (simp_all add: set_object_defs slots_def)

lemma jobs_set_buffer:
  "cache_wf sc \<Longrightarrow> k < session_count sc \<Longrightarrow>
    jobs (set_buffer (j_slot (jobs sc ! k)) b sc) = (jobs sc)[k := (jobs sc ! k)\<lparr>j_buffer := b\<rparr>]"
  by (subst jobs_update) (auto simp: j_slot_nth set_buffer_def job_at_def nth_jobs slots_def)

lemma jobs_set_request:
  "cache_wf sc \<Longrightarrow> k < session_count sc \<Longrightarrow>
    jobs (set_request (j_slot (jobs sc ! k)) r sc) = (jobs sc)[k := (jobs sc ! k)\<lparr>j_request := r\<rparr>]"
  by (subst jobs_update) (auto simp: j_slot_nth set_request_def job_at_def nth_jobs slots_def)

lemma jobs_set_response:
  "cache_wf sc \<Longrightarrow> k < session_count sc \<Longrightarrow>
    jobs (set_response (j_slot (jobs sc ! k)) r sc) = (jobs sc)[k := (jobs sc ! k)\<lparr>j_response := r\<rparr>]"
  by (subst jobs_update) (auto simp: j_slot_nth set_response_def job_at_def nth_jobs slots_def)

lemma jobs_set_thread: "jobs (set_thread p t sc) = jobs sc"
  by (auto simp: jobs_def set_thread_def job_at_def slots_def)

lemma conn_at_set [simp]:
  "conn_at (set_buffer p b sc) = conn_at sc" "conn_at (set_request p r sc) = conn_at sc"
  "conn_at (set_response p s sc) = conn_at sc" "conn_at (set_thread p t sc) = conn_at sc"
  by (auto simp: set_object_defs conn_at_def)

lemma cache_wf_set_buffer: "cache_wf sc \<Longrightarrow> buffer_wf b \<Longrightarrow> cache_wf (set_buffer p b sc)"
  by (auto simp: cache_wf_def lockstep_def conn_table_def slots_def spare_def set_buffer_def conn_at_def [abs_def]
      split: option.splits)

lemma cache_wf_set_request: "cache_wf sc \<Longrightarrow> cache_wf (set_request p r sc)"
  by (auto simp: cache_wf_def lockstep_def conn_table_def slots_def spare_def set_request_def conn_at_def [abs_def]
      split: option.splits)

lemma cache_wf_set_response: "cache_wf sc \<Longrightarrow> cache_wf (set_response p r sc)"
  by (auto simp: cache_wf_def lockstep_def conn_table_def slots_def spare_def set_response_def conn_at_def [abs_def]
      split: option.splits)

end
