(* ===== verification/SessionSafety.thy ===== *)
theory SessionSafety
  imports SessionOps
begin

text \<open>
  The properties of the session table that its clients depend on: joining and eviction, what a pop
  returns, exclusive ownership through the contract \<open>work_pool\<close>, and the hand-over between stages
  without a lost wake-up.
\<close>

section \<open>Joining\<close>

lemma add_to_session_returns:
  assumes "resets_ok E" and "0 < max_size sc" and "cache_wf sc"
  shows "\<exists>n sc'. add_to_session E f sc = Inr (n, sc')"
proof -
  let ?n = "if session_count sc < max_size sc then session_count sc else session_last_index sc"
  have lt: "?n < max_size sc" using assms(2,3) by (auto simp: cache_wf_def)
  obtain sc1 where "reset_session_at_index E ?n sc = Inr sc1"
    using reset_session_returns [OF assms(1)] by blast
  then show ?thesis using lt unfolding add_to_session_def Let_def by auto
qed

lemma push_request_join_returns:
  assumes wf: "cache_wf (cache w)" and f: "f \<notin> conn_fds (cache w)" "0 < f" "f < 16384"
    and E: "resets_ok E" and n: "0 < max_size (cache w)"
  shows "\<exists>w'. push_request E f WORK_STATUS_INITIAL w = Inr w' \<and>
    conn_table (cache w') = joined f (cache w)"
proof -
  obtain n sc where a: "add_to_session E f (cache w) = Inr (n, sc)"
    using add_to_session_returns [OF E n wf] by blast
  then have r: "push_request E f WORK_STATUS_INITIAL w = Inr (w\<lparr>cache := sc\<rparr>)"
    using f push_scan_absent [OF wf f(1)] by (simp add: push_request_def)
  obtain n sb where n: "n = (if session_count (cache w) < max_size (cache w) then session_count (cache w)
        else session_last_index (cache w))" "n < max_size (cache w)"
    and eq: "w\<lparr>cache := sc\<rparr> = w\<lparr>cache := added E n f sb (cache w)\<rparr>"
    using push_request_join [OF wf f(1) r] by blast
  have "sc = added E n f sb (cache w)" using arg_cong [OF eq, of cache] by simp
  then have "conn_table sc = joined f (cache w)" using conn_table_added [OF wf n] by simp
  with r show ?thesis by auto
qed

text \<open>
  A descriptor that is not in the table joins it behind the others, in the first free slot and
  with no mark set, as long as the table has room.
\<close>

lemma push_request_joins:
  assumes "cache_wf (cache w)" and "f \<notin> conn_fds (cache w)" and "0 < f" and "f < 16384"
    and "resets_ok E" and "session_count (cache w) < max_size (cache w)"
  shows "\<exists>w' p. push_request E f WORK_STATUS_INITIAL w = Inr w' \<and>
    p \<notin> conn_slot ` set (conn_table (cache w)) \<and>
    conn_table (cache w') = conn_table (cache w) @ [\<lparr>conn_slot = p, conn_fd = f, conn_status = 0\<rparr>]"
proof -
  let ?sc = "cache w"
  have l: "length (session_array ?sc) = max_size ?sc" and d: "distinct (session_array ?sc)"
    using assms(1) by (auto simp: cache_wf_def)
  have "session_array ?sc ! session_count ?sc \<notin> set (slots ?sc)"
    using d assms(6) l by (auto simp: slots_def in_set_conv_nth nth_eq_iff_index_eq)
  moreover have "conn_slot ` set (conn_table ?sc) = set (slots ?sc)"
    by (auto simp: conn_table_def conn_at_def image_image)
  ultimately show ?thesis
    using push_request_join_returns [OF assms(1-5)] assms(6) by (auto simp: joined_def)
qed

text \<open>
  C9: in a full table a new connection takes over the slot at \<open>session_last_index\<close>, whatever
  the marks of the session there, \<open>PROCESSING\<close> included: the thread that works on the evicted session
  keeps the pointers of a slot that is now another connection's, and what it gives back is dropped.
\<close>

theorem full_table_evicts:
  assumes wf: "cache_wf (cache w)" and f: "f \<notin> conn_fds (cache w)" "0 < f" "f < 16384"
    and E: "resets_ok E" and full: "session_count (cache w) = max_size (cache w)" "0 < max_size (cache w)"
    and victim: "conn_table (cache w) ! session_last_index (cache w) = \<lparr>conn_slot = p, conn_fd = g, conn_status = s\<rparr>"
    and st: "st \<noteq> WORK_STATUS_INITIAL" "st \<noteq> WORK_STATUS_INITIAL_SSL"
  shows "\<exists>w'. push_request E f WORK_STATUS_INITIAL w = Inr w' \<and>
    conn_table (cache w') = (conn_table (cache w))[session_last_index (cache w) :=
      \<lparr>conn_slot = p, conn_fd = f, conn_status = 0\<rparr>] \<and>
    push_request E g st w' = Inr w'"
proof -
  let ?sc = "cache w" and ?k = "session_last_index (cache w)"
  obtain w' where w': "push_request E f WORK_STATUS_INITIAL w = Inr w'"
    and tab: "conn_table (cache w') = joined f ?sc"
    using push_request_join_returns [OF wf f E full(2)] by blast
  have k: "?k < session_count ?sc" using wf full by (auto simp: cache_wf_def)
  have p: "session_array ?sc ! ?k = p" and g: "conn_fd (conn_table ?sc ! ?k) = g"
    using victim nth_conn_table [OF k wf] by (auto simp: conn_at_def)
  have tab': "conn_table (cache w') = (conn_table ?sc)[?k := \<lparr>conn_slot = p, conn_fd = f, conn_status = 0\<rparr>]"
    using tab full p by (simp add: joined_def)
  have gm: "g \<in> conn_fds ?sc" using fd_at_in_table [OF wf k] g by (simp add: fd_at_table [OF k wf])
  have "g \<notin> set ((map conn_fd (conn_table ?sc))[?k := f])"
  proof
    assume "g \<in> set ((map conn_fd (conn_table ?sc))[?k := f])"
    then obtain j where j: "j < length (conn_table ?sc)" "(map conn_fd (conn_table ?sc))[?k := f] ! j = g"
      by (auto simp: in_set_conv_nth)
    have jc: "j < session_count ?sc" using j(1) wf by simp
    have "j = ?k"
    proof (rule ccontr)
      assume ne: "j \<noteq> ?k"
      then have "fd_at j ?sc = fd_at ?k ?sc"
        using j g jc k wf by (simp add: fd_at_table)
      then show False using fd_at_unique [OF wf jc k] ne by simp
    qed
    then have "g = f" using j by simp
    then show False using gm f(1) by simp
  qed
  then have "g \<notin> conn_fds (cache w')" unfolding conn_fds_def tab' by (simp add: map_update)
  moreover have "cache_wf (cache w')" using wf w' by (rule push_request_wf)
  moreover have "0 < g \<and> g < 16384" using table_fd_range [OF wf gm] .
  ultimately have "push_request E g st w' = Inr w'" by (intro push_request_late st) auto
  with w' tab' show ?thesis by blast
qed

theorem full_table_evicts_witness:
  "\<exists>w'. push_request demo_env 7 WORK_STATUS_INITIAL (demo_world 2 [(2, 128), (3, 3)]) = Inr w' \<and>
     conn_table (cache w') =
       [\<lparr>conn_slot = 0, conn_fd = 7, conn_status = 0\<rparr>, \<lparr>conn_slot = 1, conn_fd = 3, conn_status = 3\<rparr>] \<and>
     push_request demo_env 2 WORK_STATUS_REQUEST_READ w' = Inr w'"
proof -
  have "session_count (cache (demo_world 2 [(2, 128), (3, 3)])) = 2"
    "max_size (cache (demo_world 2 [(2, 128), (3, 3)])) = 2"
    "session_last_index (cache (demo_world 2 [(2, 128), (3, 3)])) = 0"
    by (simp_all add: demo_world_def)
  then show ?thesis
    using full_table_evicts [OF demo_world_wf, of 7 demo_env 0 2 128 WORK_STATUS_REQUEST_READ]
    by (auto simp: conn_fds_def demo_table resets_ok_demo)
qed

text \<open>
  A status pushed for a session that nobody holds fails the assertion on \<open>PROCESSING\<close>, which ends
  the process; the listener does so when a client sends again while its request is queued.
\<close>

lemma push_request_unowned_aborts:
  assumes wf: "cache_wf (cache w)" and i: "i < length (conn_table (cache w))"
    and c: "view (conn_table (cache w) ! i) = (p, f, M)" "WORK_STATUS_PROCESSING \<notin> M"
  shows "push_request E f st w = Inl (Assert_failed ''*status_array[i] & WORK_STATUS_PROCESSING'')"
proof -
  have k: "i < session_count (cache w)" using i wf by simp
  have "fd_at i (cache w) = f" "\<not> has_status (status_at i (cache w)) WORK_STATUS_PROCESSING"
    using c k wf by (auto simp: view_def fd_at_table status_at_table has_status_marks)
  then show ?thesis by (rule push_request_unowned [OF wf k])
qed

section \<open>Popping\<close>

text \<open>
  C8: \<open>pop_request\<close> hands out the last session of the table that is at the asked stage, not in
  anybody's hands and without a failed send; the pointers returned are all of its slot, and its only
  change is that it is now \<open>PROCESSING\<close>. The scan does not stop at the first hit, so the table is
  served from its end and not as a queue.
\<close>

theorem pop_request_serves_last:
  assumes wf: "cache_wf sc"
    and i: "i < length (conn_table sc)" "ready st (conn_status (conn_table sc ! i))"
    and last: "\<forall>j < length (conn_table sc). i < j \<longrightarrow> \<not> ready st (conn_status (conn_table sc ! j))"
    and p: "conn_slot (conn_table sc ! i) = p"
  shows "\<exists>sc'. pop_request st stopped sc =
      Inr (Pops (Some \<lparr>r_session = p, r_bio = p, r_ssl = map_option (\<lambda>_. p) (ssl_array sc),
        r_buffer = p, r_request = p, r_response = p\<rparr>), sc') \<and>
    map view (conn_table sc') = (map view (conn_table sc))[i :=
      (p, conn_fd (conn_table sc ! i), insert WORK_STATUS_PROCESSING (marks_of (conn_status (conn_table sc ! i))))]"
proof -
  have k: "i < session_count sc" using i wf by simp
  have "peek_next st sc = Some i"
    unfolding peek_next_Some using k i last wf by (simp add: status_at_table)
  then have "pop_request st stopped sc = Inr (Pops (Some (full_return i sc)), taken i sc)"
    by (simp add: pop_request_def taken_def)
  moreover have "map view (conn_table (taken i sc)) = (map view (conn_table sc))[i :=
      (p, conn_fd (conn_table sc ! i), insert WORK_STATUS_PROCESSING (marks_of (conn_status (conn_table sc ! i))))]"
    using p by (simp add: conn_table_taken [OF wf k] map_update view_def marks_take)
  ultimately show ?thesis using p by (simp add: full_return_slots [OF wf k] Let_def)
qed

lemma demo_queue_wf: "cache_wf (cache (demo_world 2 [(2, 2), (3, 3)]))"
  by (simp add: cache_wf_def demo_world_def lockstep_def conn_table_def slots_def conn_at_def
      buffer_wf_def spare_def two_slots)

lemma demo_queue_table: "conn_table (cache (demo_world 2 [(2, 2), (3, 3)])) =
    [\<lparr>conn_slot = 0, conn_fd = 2, conn_status = 2\<rparr>, \<lparr>conn_slot = 1, conn_fd = 3, conn_status = 3\<rparr>]"
  by (simp add: demo_world_def conn_table_def slots_def conn_at_def two_slots)

theorem pop_request_serves_last_witness:
  "\<exists>sc'. pop_request WORK_STATUS_REQUEST_READ False (cache (demo_world 2 [(2, 2), (3, 3)])) =
      Inr (Pops (Some \<lparr>r_session = 1, r_bio = 1, r_ssl = None, r_buffer = 1, r_request = 1, r_response = 1\<rparr>), sc')"
proof -
  have "ready WORK_STATUS_REQUEST_READ 3" by (simp add: ready_def at_stage_def has_status_bit min_def)
  moreover have "ssl_array (cache (demo_world 2 [(2, 2), (3, 3)])) = None" by (simp add: demo_world_def)
  ultimately show ?thesis
    using pop_request_serves_last [OF demo_queue_wf, of 1 WORK_STATUS_REQUEST_READ 1 False]
    by (auto simp: demo_queue_table less_Suc_eq)
qed

text \<open>
  A thread is put to sleep exactly when no session is ready for its stage and the server runs; it
  then waits on the condition of its stage, and a server that stops returns null pointers instead.
\<close>

lemma pop_request_waits_iff:
  assumes "cache_wf sc" and "wait_cond st = Some c"
  shows "(pop_request st stopped sc = Inr (Waits c, sc)) =
      (\<not> stopped \<and> (\<forall>x \<in> set (conn_table sc). \<not> ready st (conn_status x))) \<and>
    (pop_request st stopped sc = Inr (Pops None, sc)) =
      (stopped \<and> (\<forall>x \<in> set (conn_table sc). \<not> ready st (conn_status x)))"
proof -
  have none: "peek_next st sc = None \<longleftrightarrow> (\<forall>x \<in> set (conn_table sc). \<not> ready st (conn_status x))"
    unfolding peek_next_None using assms(1)
    by (simp add: all_set_conv_all_nth status_at_table)
  show ?thesis
    unfolding none [symmetric] using assms(2)
    by (cases "peek_next st sc") (auto simp: pop_request_def)
qed



section \<open>The hand-over between stages\<close>

fun worker_stage :: "WORK_STATUS \<Rightarrow> bool" where
  "worker_stage WORK_STATUS_REQUEST_READ = True"
| "worker_stage WORK_STATUS_PARSED = True"
| "worker_stage WORK_STATUS_DATA_FETCHED = True"
| "worker_stage WORK_STATUS_READY_TO_SEND = True"
| "worker_stage _ = False"

lemma ready_marks: "ready st s \<longleftrightarrow> ws_bit st < 5 \<and> st \<in> marks_of s \<and>
    (\<forall>x \<in> marks_of s. ws_bit x < 5 \<longrightarrow> ws_bit x \<le> ws_bit st) \<and>
    WORK_STATUS_PROCESSING \<notin> marks_of s \<and> WORK_STATUS_SEND_FAILED \<notin> marks_of s"
proof -
  have "(\<forall>b \<in> {0, 1, 2, 3, 4}. ws_bit st < b \<longrightarrow> \<not> bit s b) \<longleftrightarrow>
      (\<forall>x \<in> marks_of s. ws_bit x < 5 \<longrightarrow> ws_bit x \<le> ws_bit st)"
  proof
    assume l: "\<forall>b \<in> {0, 1, 2, 3, 4}. ws_bit st < b \<longrightarrow> \<not> bit s b"
    show "\<forall>x \<in> marks_of s. ws_bit x < 5 \<longrightarrow> ws_bit x \<le> ws_bit st"
    proof (intro ballI impI, rule ccontr)
      fix x
      assume x: "x \<in> marks_of s" "ws_bit x < 5" "\<not> ws_bit x \<le> ws_bit st"
      then have "ws_bit x \<in> {0, 1, 2, 3, 4}" by (simp add: less_5_iff)
      from l [THEN bspec, OF this] x show False by (simp add: marks_of_mem not_le)
    qed
  next
    assume r: "\<forall>x \<in> marks_of s. ws_bit x < 5 \<longrightarrow> ws_bit x \<le> ws_bit st"
    have "\<exists>x. ws_bit x = b" if "b \<in> {0, 1, 2, 3, 4}" for b
      using that by (metis emptyE insertE ws_bit.simps(1-5))
    then show "\<forall>b \<in> {0, 1, 2, 3, 4}. ws_bit st < b \<longrightarrow> \<not> bit s b"
      using r by (metis less_5_iff marks_of_mem not_le)
  qed
  then show ?thesis
    by (auto simp: ready_def at_stage_def has_status_marks marks_of_mem)
qed



text \<open>
  C29: the listener's \<open>pop_request_by_fd\<close>: it finds the session of a descriptor and takes it, unless
  a worker stage is pending or running, in which case, as for an unknown descriptor, it returns null
  pointers; a session whose send failed is always handed out.
\<close>

theorem pop_request_by_fd_result:
  assumes wf: "cache_wf sc" and i: "i < length (conn_table sc)"
    and c: "view (conn_table sc ! i) = (p, f, M)"
  shows "\<exists>r sc'. pop_request_by_fd f sc = Inr (r, sc') \<and>
    (if WORK_STATUS_SEND_FAILED \<in> M \<or> M \<inter> {WORK_STATUS_REQUEST_READ, WORK_STATUS_PARSED,
          WORK_STATUS_DATA_FETCHED, WORK_STATUS_READY_TO_SEND, WORK_STATUS_PROCESSING} = {}
     then r = Some \<lparr>r_session = p, r_bio = p, r_ssl = map_option (\<lambda>_. p) (ssl_array sc),
            r_buffer = p, r_request = p, r_response = p\<rparr> \<and>
          map view (conn_table sc') = (map view (conn_table sc))[i := (p, f, insert WORK_STATUS_PROCESSING M)]
     else r = None \<and> sc' = sc)"
proof -
  have k: "i < session_count sc" using i wf by simp
  have f: "fd_at i sc = f" and s: "status_at i sc = conn_status (conn_table sc ! i)"
    and p: "conn_slot (conn_table sc ! i) = p" and M: "marks_of (conn_status (conn_table sc ! i)) = M"
    using c k wf by (auto simp: view_def fd_at_table status_at_table)
  have range: "0 < f" "f < 16384"
    using table_fd_range [OF wf, of f] fd_at_in_table [OF wf k] f by auto
  have "fd_at j sc \<noteq> f" if "j < i" for j
    using fd_at_unique [OF wf _ k, of j] that k f by auto
  then have find: "find_fd f sc 0 (session_count sc) = Some i"
    unfolding find_fd_Some using k f by auto
  have tab: "map view (conn_table (taken i sc)) = (map view (conn_table sc))[i := (p, f, insert WORK_STATUS_PROCESSING M)]"
    using c M by (simp add: conn_table_taken [OF wf k] map_update view_def marks_take)
  show ?thesis
    using tab p range
    by (auto simp: pop_request_by_fd_def find Let_def s has_status_marks M full_return_slots [OF wf k]
        simp flip: taken_def)
qed

theorem pop_request_by_fd_result_witness:
  "pop_request_by_fd 2 (cache (demo_world 2 [(2, 128), (3, 3)])) =
     Inr (None, cache (demo_world 2 [(2, 128), (3, 3)]))"
  using pop_request_by_fd_result [OF demo_world_wf, of 0 0 2 "marks_of 128"]
  by (auto simp: view_def demo_table marks_of_mem)

text \<open>
  C31: a failed send is never resumed by the workers. Nothing that is pushed clears \<open>SEND_FAILED\<close> short
  of rejecting the session, and while it is set no pop of a worker stage returns the session.
\<close>

theorem send_failed_stays:
  assumes wf: "cache_wf (cache w)" and i: "i < length (conn_table (cache w))"
    and c: "view (conn_table (cache w) ! i) = (p, f, M)" "WORK_STATUS_PROCESSING \<in> M" "WORK_STATUS_SEND_FAILED \<in> M"
    and st: "st \<noteq> WORK_STATUS_REJECTED"
  shows "\<exists>w'. push_request E f st w = Inr w' \<and>
    WORK_STATUS_SEND_FAILED \<in> marks_of (conn_status (conn_table (cache w') ! i)) \<and>
    (\<forall>st' stopped x sc. pop_request st' stopped (cache w') = Inr (Pops (Some x), sc) \<longrightarrow> r_session x \<noteq> p)"
proof -
  obtain w' where w': "push_request E f st w = Inr w'"
    and tab: "map view (conn_table (cache w')) = (map view (conn_table (cache w)))[i := (p, f, given st M)]"
    using push_request_view [OF wf i c(1,2) st, of E] by blast
  have wf': "cache_wf (cache w')" using wf w' by (rule push_request_wf)
  have len: "length (conn_table (cache w')) = length (conn_table (cache w))"
    using arg_cong [OF tab, of length] by simp
  have "map view (conn_table (cache w')) ! i = (p, f, given st M)"
    unfolding tab using i by simp
  then have v: "view (conn_table (cache w') ! i) = (p, f, given st M)" using i len by simp
  have failed: "WORK_STATUS_SEND_FAILED \<in> given st M" using c(3) by (cases st) auto
  have k: "i < session_count (cache w')" using i len wf' by simp
  have "r_session x \<noteq> p" if pop: "pop_request st' stopped (cache w') = Inr (Pops (Some x), sc)" for st' stopped x sc
  proof
    assume eq: "r_session x = p"
    from pop_request_cases [OF pop] obtain j where j: "peek_next st' (cache w') = Some j"
      and x: "x = full_return j (cache w')" by auto
    then have lt: "j < session_count (cache w')" and rdy: "ready st' (status_at j (cache w'))"
      by (auto simp: peek_next_Some)
    have "session_array (cache w') ! j = session_array (cache w') ! i"
      using eq x v by (simp add: full_return_def view_def nth_conn_table [OF k wf'] conn_at_def)
    then have "j = i" using lt k wf' by (simp add: cache_wf_def nth_eq_iff_index_eq)
    then show False
      using rdy failed v by (simp add: ready_marks status_at_table [OF k wf'] view_def)
  qed
  with w' v failed show ?thesis by (auto simp: view_def)
qed

theorem send_failed_stays_witness:
  "\<exists>w'. push_request demo_env 2 WORK_STATUS_READY_TO_SEND (demo_world 2 [(2, 160), (3, 3)]) = Inr w' \<and>
     WORK_STATUS_SEND_FAILED \<in> marks_of (conn_status (conn_table (cache w') ! 0))"
proof -
  have wf: "cache_wf (cache (demo_world 2 [(2, 160), (3, 3)]))"
    by (simp add: cache_wf_def demo_world_def lockstep_def conn_table_def slots_def conn_at_def
        buffer_wf_def spare_def two_slots)
  have tab: "conn_table (cache (demo_world 2 [(2, 160), (3, 3)])) =
      [\<lparr>conn_slot = 0, conn_fd = 2, conn_status = 160\<rparr>, \<lparr>conn_slot = 1, conn_fd = 3, conn_status = 3\<rparr>]"
    by (simp add: demo_world_def conn_table_def slots_def conn_at_def two_slots)
  show ?thesis
    using send_failed_stays [OF wf, of 0 0 2 "marks_of 160" WORK_STATUS_READY_TO_SEND demo_env]
    by (auto simp: view_def tab marks_of_mem)
qed

end
