(* ===== verification/Socket.thy ===== *)
theory Socket
  imports Buffer
begin

text \<open>
  \<^verbatim>\<open>src/socket.c\<close>: the calls on sockets, and the exchange of bytes with a client through a
  \<open>BIO\<close> or an \<open>SSL\<close> object of OpenSSL. What the operating system and OpenSSL answer is an argument
  (the records \<open>sockets\<close>, \<open>bio_io\<close> and \<open>ssl_io\<close>); the state of a \<open>BIO\<close> or \<open>SSL\<close> object is of any
  type and is passed along. Logging is left out.
\<close>

section \<open>Sockets\<close>

record addrinfo =
  ai_family :: int
  ai_socktype :: int
  ai_protocol :: int
  ai_addr :: "string option"
  ai_addrlen :: nat

record sockets =
  os_socket :: "int \<Rightarrow> int \<Rightarrow> int \<Rightarrow> int"
  os_bind :: "int \<Rightarrow> string \<Rightarrow> nat \<Rightarrow> int"
  os_listen :: "int \<Rightarrow> int \<Rightarrow> int"
  os_accept :: "int \<Rightarrow> int"
  os_connect :: "int \<Rightarrow> string \<Rightarrow> nat \<Rightarrow> int"
  os_getfl :: "int \<Rightarrow> int"               \<comment> \<open>\<open>fcntl\<close> with \<open>F_GETFL\<close>\<close>
  os_setfl :: "int \<Rightarrow> int \<Rightarrow> int"        \<comment> \<open>\<open>fcntl\<close> with \<open>F_SETFL\<close>\<close>
  os_send :: "int \<Rightarrow> string \<Rightarrow> int"
  os_recv :: "int \<Rightarrow> nat \<Rightarrow> int \<times> string"

abbreviation O_NONBLOCK :: int where "O_NONBLOCK \<equiv> 2048"
abbreviation AF_INET :: int where "AF_INET \<equiv> 2"

definition open_socket :: "sockets \<Rightarrow> addrinfo option \<Rightarrow> int result" where
  "open_socket K server_info =
     (case server_info of
        None \<Rightarrow> Inl (Assert_failed ''server_info != NULL'')
      | Some p \<Rightarrow>
          assert_that ''server_info->ai_family > 0'' (0 < ai_family p) (
          assert_that ''server_info->ai_socktype > 0'' (0 < ai_socktype p) (
          assert_that ''server_info->ai_protocol > 0'' (0 < ai_protocol p) (
          let socket_fd = os_socket K (ai_family p) (ai_socktype p) (ai_protocol p) in
          assert_that ''socket_fd != -1'' (socket_fd \<noteq> -1) (Inr socket_fd)))))"

definition bind_socket :: "sockets \<Rightarrow> int \<Rightarrow> addrinfo option \<Rightarrow> int result" where
  "bind_socket K socket_fd server_info =
     assert_that ''socket_fd > 0'' (0 < socket_fd) (
     case server_info of
       None \<Rightarrow> Inl (Assert_failed ''server_info != NULL'')
     | Some p \<Rightarrow>
         (case ai_addr p of
            None \<Rightarrow> Inl (Assert_failed ''server_info->ai_addr != NULL'')
          | Some a \<Rightarrow>
              assert_that ''server_info->ai_addrlen > 0'' (0 < ai_addrlen p) (
              let bind_result = os_bind K socket_fd a (ai_addrlen p) in
              assert_that ''bind_result != -1'' (bind_result \<noteq> -1) (Inr bind_result))))"

definition listen_socket :: "sockets \<Rightarrow> int \<Rightarrow> int \<Rightarrow> int result" where
  "listen_socket K socket_fd backlog_size =
     assert_that ''socket_fd > 0'' (0 < socket_fd) (
     assert_that ''backlog_size > 0'' (0 < backlog_size) (
     let listen_result = os_listen K socket_fd backlog_size in
     assert_that ''listen_result != -1'' (listen_result \<noteq> -1) (Inr listen_result)))"

definition disable_socket_blocking :: "sockets \<Rightarrow> int \<Rightarrow> unit result" where
  "disable_socket_blocking K socket_fd =
     assert_that ''socket_fd > 0'' (0 < socket_fd) (
     let flags = os_getfl K socket_fd in
     assert_that ''flags != -1'' (flags \<noteq> -1) (
     assert_that ''fcntl(socket_fd, F_SETFL, flags) != -1''
       (os_setfl K socket_fd (flags OR O_NONBLOCK) \<noteq> -1) (Inr ())))"

text \<open>\<open>in_addr\<close> says whether the caller passed room for the address.\<close>

definition accept_socket :: "sockets \<Rightarrow> int \<Rightarrow> bool \<Rightarrow> int result" where
  "accept_socket K socket_fd in_addr =
     assert_that ''socket_fd > 0'' (0 < socket_fd) (
     assert_that ''in_addr != NULL'' in_addr (
     let client_socket_fd = os_accept K socket_fd in
     and_then (disable_socket_blocking K client_socket_fd) (\<lambda>_.
     assert_that ''client_socket_fd != -1'' (client_socket_fd \<noteq> -1) (Inr client_socket_fd))))"

definition connect_socket :: "sockets \<Rightarrow> int \<Rightarrow> string option \<Rightarrow> nat \<Rightarrow> int result" where
  "connect_socket K socket_fd in_addr addr_length =
     assert_that ''socket_fd > 0'' (0 < socket_fd) (
     case in_addr of
       None \<Rightarrow> Inl (Assert_failed ''in_addr != NULL'')
     | Some a \<Rightarrow>
         assert_that ''addr_length > 0'' (0 < addr_length) (
         let connect_return = os_connect K socket_fd a addr_length in
         assert_that ''connect_return != -1'' (connect_return \<noteq> -1) (Inr connect_return)))"

text \<open>The two deprecated calls on a plain array of the given bytes.\<close>

definition send_socket :: "sockets \<Rightarrow> int \<Rightarrow> string option \<Rightarrow> nat \<Rightarrow> int result" where
  "send_socket K socket_fd buf buffer_size =
     assert_that ''socket_fd > 0'' (0 < socket_fd) (
     case buf of
       None \<Rightarrow> Inl (Assert_failed ''buffer != NULL'')
     | Some d \<Rightarrow>
         assert_that ''buffer_size > 0'' (0 < buffer_size) (
         in_bounds ''buffer'' (buffer_size \<le> length d) (
         let send_return = os_send K socket_fd (take buffer_size d) in
         if send_return = -1 then Inr (-1) else Inr send_return)))"

definition recv_socket :: "sockets \<Rightarrow> int \<Rightarrow> string option \<Rightarrow> nat \<Rightarrow> (int \<times> string) result" where
  "recv_socket K socket_fd buf buffer_size =
     assert_that ''socket_fd > 0'' (0 < socket_fd) (
     case buf of
       None \<Rightarrow> Inl (Assert_failed ''buffer != NULL'')
     | Some d \<Rightarrow>
         assert_that ''buffer_size > 0'' (0 < buffer_size) (
         in_bounds ''buffer'' (buffer_size \<le> length d) (
         let (recv_return, xs) = os_recv K socket_fd (buffer_size - 1);
             d1 = replicate buffer_size NUL @ drop buffer_size d
         in if recv_return = -1 then Inr (-1, d1)
            else let d2 = xs @ drop (length xs) d1 in
              in_bounds ''buffer'' (buffer_size < length d2)
                (Inr (recv_return, d2[buffer_size := NUL])))))"

section \<open>Addresses\<close>

text \<open>The two layouts of a socket address share the family and the port.\<close>

record sockaddr =
  sa_family :: int
  sin_port :: "16 word"
  sin_addr :: string
  sin6_port :: "16 word"
  sin6_addr :: string

definition ntohs :: "16 word \<Rightarrow> 16 word" where
  "ntohs w = push_bit 8 w OR drop_bit 8 w"

definition get_in_addr :: "sockaddr option \<Rightarrow> string result" where
  "get_in_addr sa =
     (case sa of
        None \<Rightarrow> Inl (Assert_failed ''sa != NULL'')
      | Some a \<Rightarrow> Inr (if sa_family a = AF_INET then sin_addr a else sin6_addr a))"

definition get_in_addr_port :: "sockaddr option \<Rightarrow> int result" where
  "get_in_addr_port sa =
     (case sa of
        None \<Rightarrow> Inl (Assert_failed ''sa != NULL'')
      | Some a \<Rightarrow> Inr (uint (ntohs (if sa_family a = AF_INET then sin_port a else sin6_port a))))"

definition get_in_addr_str :: "(int \<Rightarrow> string \<Rightarrow> nat \<Rightarrow> string) \<Rightarrow> sockaddr option \<Rightarrow> nat \<Rightarrow> string result" where
  "get_in_addr_str inet_ntop sa len =
     (case sa of
        None \<Rightarrow> Inl (Assert_failed ''sa != NULL'')
      | Some a \<Rightarrow> and_then (get_in_addr sa) (\<lambda>p. Inr (inet_ntop (sa_family a) p len)))"

section \<open>Reading and writing through OpenSSL\<close>

record 'b bio_io =
  BIO_read :: "'b \<Rightarrow> int \<Rightarrow> int \<times> string \<times> 'b"     \<comment> \<open>the return value, the bytes stored, what is left\<close>
  BIO_write :: "'b \<Rightarrow> string \<Rightarrow> int \<times> 'b"
  BIO_should_retry :: "'b \<Rightarrow> int"

record 'p ssl_io =
  SSL_pending :: "'p \<Rightarrow> int"
  SSL_read :: "'p \<Rightarrow> int \<Rightarrow> int \<times> string \<times> 'p"
  SSL_write :: "'p \<Rightarrow> string \<Rightarrow> int \<times> 'p"
  SSL_get_error :: "'p \<Rightarrow> int \<Rightarrow> int"

text \<open>The bytes handed to a write: \<open>count\<close> of them, as an \<open>int\<close>.\<close>

definition counted :: "buffer \<Rightarrow> string result" where
  "counted b =
     (case data b of
        None \<Rightarrow> Inl (Assert_failed ''buffer->data != NULL'')
      | Some _ \<Rightarrow> assert_that ''buffer->count > 0'' (0 < count b) (read_bytes (nat (to_int32 (int (count b)))) b))"

definition send_bio :: "'b bio_io \<Rightarrow> 'b \<Rightarrow> buffer \<Rightarrow> (int \<times> 'b) result" where
  "send_bio B s b =
     and_then (counted b) (\<lambda>xs.
     let (send_return, s') = BIO_write B s xs in
     assert_that ''send_return != -2'' (send_return \<noteq> -2) (Inr (send_return, s')))"

definition send_ssl :: "'p ssl_io \<Rightarrow> 'p \<Rightarrow> buffer \<Rightarrow> (int \<times> 'p) result" where
  "send_ssl T s b =
     and_then (counted b) (\<lambda>xs.
     let (send_return, s') = SSL_write T s xs in
     assert_that ''send_return != -2'' (send_return \<noteq> -2) (Inr (send_return, s')))"

text \<open>
  The loop of \<open>recv_bio\<close>. \<open>c\<close> is its \<open>unsigned char\<close> count of rounds, which wraps at 256. The loop
  ends when a read returns nothing; whether it does is a theorem about the reader.
\<close>

partial_function (option) recv_loop ::
  "libc \<Rightarrow> 'b bio_io \<Rightarrow> 8 word \<Rightarrow> 'b \<Rightarrow> buffer \<Rightarrow> (int \<times> 'b \<times> buffer) result option" where
  "recv_loop L B c s b =
     (case assert_capacity L b (unat (c + 1) * DEFAULT_BUFFER_SIZE) of
        Inl e \<Rightarrow> Some (Inl e)
      | Inr b1 \<Rightarrow>
          (case BIO_read B s (to_int32 (to_uint64 (int (capacity b1) - int (count b1)))) of
             (recv_return, xs, s') \<Rightarrow>
               (case write_bytes (count b1) xs b1 of
                  Inl e \<Rightarrow> Some (Inl e)
                | Inr b2 \<Rightarrow>
                    if 0 < recv_return
                    then recv_loop L B (c + 1) s' (b2\<lparr>count := count b2 + nat recv_return\<rparr>)
                    else Some (Inr (recv_return, s', b2)))))"

declare recv_loop.simps [code]

definition recv_bio :: "libc \<Rightarrow> 'b bio_io \<Rightarrow> 'b \<Rightarrow> buffer \<Rightarrow> (int \<times> 'b \<times> buffer) result" where
  "recv_bio L B s b =
     assert_that ''buffer->data == NULL || buffer->capacity > 0'' (data b = None \<or> 0 < capacity b) (
     case recv_loop L B 0 s b of
       None \<Rightarrow> Inl (Diverges ''recv_bio'')
     | Some r \<Rightarrow>
         and_then r (\<lambda>(recv_return, s', b1).
         if recv_return < 0 \<and> count b1 = 0 then Inr (to_int32 (int (count b1)), s', b1)
         else and_then (write_bytes (count b1) [NUL] b1) (\<lambda>b2.
              Inr (to_int32 (int (count b1 + 1)), s', b2\<lparr>count := count b1 + 1\<rparr>))))"

text \<open>
  \<open>pending\<close> is a \<open>size_t\<close>: the return value of \<open>SSL_read\<close> is converted to it before the two are
  compared, and to be added to \<open>count\<close>.
\<close>

definition recv_ssl :: "libc \<Rightarrow> 'p ssl_io \<Rightarrow> 'p \<Rightarrow> buffer \<Rightarrow> (int \<times> 'p \<times> buffer) result" where
  "recv_ssl L T s b =
     assert_that ''buffer->data == NULL || buffer->capacity > 0'' (data b = None \<or> 0 < capacity b) (
     let pending = to_uint64 (SSL_pending T s); old_count = count b in
     and_then (assert_capacity L b (nat (to_uint64 (int old_count + pending + 1)))) (\<lambda>b1.
     let (recv_return, xs, s') = SSL_read T s (to_int32 (to_uint64 (pending - 1))) in
     and_then (write_bytes old_count xs b1) (\<lambda>b2.
     let n = nat (to_uint64 (int (count b2) + recv_return)) in
     assert_that ''recv_return <= pending'' (to_uint64 recv_return \<le> pending) (
     if recv_return < 0 then Inr (-1, s', b2\<lparr>count := n\<rparr>)
     else and_then (write_bytes n [NUL] b2) (\<lambda>b3.
          Inr (recv_return, s', b3\<lparr>count := n + 1\<rparr>))))))"

section \<open>The reading loop\<close>

text \<open>
  What \<open>BIO_read\<close> promises of a call with room for \<open>k\<close> bytes: it stores no more than \<open>k\<close>, and its
  return value, when positive, is their number.
\<close>

definition bio_bounded :: "'b bio_io \<Rightarrow> bool" where
  "bio_bounded B \<longleftrightarrow> (\<forall>s k. case BIO_read B s k of (n, xs, s') \<Rightarrow>
     n \<le> max 0 k \<and> length xs = nat n)"

text \<open>And of a client: the bytes stored are the next of those that have arrived.\<close>

definition bio_stream :: "'b bio_io \<Rightarrow> ('b \<Rightarrow> string) \<Rightarrow> bool" where
  "bio_stream B arrived \<longleftrightarrow> bio_bounded B \<and> (\<forall>s k. 0 \<le> k \<longrightarrow> (case BIO_read B s k of (n, xs, s') \<Rightarrow>
     arrived s = xs @ arrived s' \<and> (n \<le> 0 \<longrightarrow> k = 0 \<or> arrived s = [])))"

lemma bio_streamD:
  assumes "bio_stream B arrived" and "0 \<le> k" and rd: "BIO_read B s k = (n, xs, s')"
  shows "arrived s = xs @ arrived s' \<and> (n \<le> 0 \<longrightarrow> k = 0 \<or> arrived s = [])"
proof -
  from assms(1,2) have "case BIO_read B s k of (n, xs, s') \<Rightarrow>
      arrived s = xs @ arrived s' \<and> (n \<le> 0 \<longrightarrow> k = 0 \<or> arrived s = [])"
    by (simp add: bio_stream_def)
  then show ?thesis unfolding rd prod.case .
qed

lemma bio_stream_bounded: "bio_stream B arrived \<Longrightarrow> bio_bounded B"
  by (simp add: bio_stream_def)

lemma assert_capacity_grown:
  "assert_capacity L b n = Inr b' \<Longrightarrow> grow_capacity (capacity b) n = Some c \<Longrightarrow> capacity b' = c"
  by (auto simp: assert_capacity_def ensure_capacity_def split: if_splits option.splits)

lemma rounds_bound: "unat (c :: 8 word) * DEFAULT_BUFFER_SIZE \<le> 261120"
  using unsigned_less [of c, where ?'a = nat] by simp

text \<open>One round, with what it leaves in the buffer.\<close>

lemma recv_round:
  assumes B: "bio_bounded B" and mem: "\<And>m. alloc_ok L m" and wf: "buffer_wf b" "capacity b < 2 ^ 31"
    and pos: "c + 1 \<noteq> 0 \<or> 0 < capacity b"
    and grow: "grow_capacity (capacity b) (unat (c + 1) * DEFAULT_BUFFER_SIZE) = Some C"
    and rd: "BIO_read B s (int C - int (count b)) = (n, xs, s')"
  obtains b' where "recv_loop L B c s b =
      (if 0 < n then recv_loop L B (c + 1) s' b' else Some (Inr (n, s', b')))"
    and "buffer_wf b'" and "capacity b' = C" and "count b' = count b + length xs"
    and "take (count b') (bytes b') = take (count b) (bytes b) @ xs"
    and "length xs = nat n" and "n \<le> int C - int (count b)" and "count b \<le> C" and "capacity b \<le> C"
    and "C < 2 ^ 31" and "data b' \<noteq> None"
proof -
  let ?w = "unat (c + 1) * DEFAULT_BUFFER_SIZE"
  have w: "?w \<le> 2 ^ 30" using rounds_bound [of "c + 1"] by (rule order_trans) simp
  have "0 < ?w \<or> 0 < capacity b" using pos by (auto simp: unat_gt_0)
  then obtain b1 where b1: "assert_capacity L b ?w = Inr b1"
    using assert_capacity_returns [OF mem wf w] by blast
  note b1s = assert_capacity_Inr [OF wf(1) b1] and small = assert_capacity_small [OF wf(2) w b1]
  have C: "capacity b1 = C" by (rule assert_capacity_grown [OF b1 grow])
  have le: "count b \<le> C" using b1s(1,4) C by (simp add: buffer_wf_def)
  have room: "to_int32 (to_uint64 (int (capacity b1) - int (count b1))) = int C - int (count b)"
    using le small C b1s(4) by (simp add: to_uint64_def to_int32_def)
  have n: "n \<le> int C - int (count b)" "length xs = nat n"
    using B [unfolded bio_bounded_def, rule_format, of "int C - int (count b)" s] rd le by auto
  have "count b1 + length xs \<le> capacity b1" using n le C b1s(4) by linarith
  then obtain b2 where b2: "write_bytes (count b1) xs b1 = Inr b2"
    using write_bytes_returns [OF b1s(1,6)] by blast
  note b2s = write_bytes_Inr [OF b1s(1) b2]
  let ?b' = "b2\<lparr>count := count b2 + nat n\<rparr>"
  have same: "\<not> 0 < n \<Longrightarrow> ?b' = b2" by simp
  have loop: "recv_loop L B c s b =
      (if 0 < n then recv_loop L B (c + 1) s' ?b' else Some (Inr (n, s', ?b')))"
    by (subst recv_loop.simps) (use b1 b2 rd room same in simp)
  have wf': "buffer_wf ?b'" using b2s n le C b1s(4) by (auto simp: buffer_wf_def split: option.splits)
  have pre: "take (count b) (bytes b1) = take (count b) (bytes b)"
    using b1s(5) wf(1) by (metis buffer_wf_def min.absorb1 take_take)
  have len: "length (bytes b1) = C" using buffer_wf_length [OF b1s(1)] C by simp
  have "take (count b + length xs) (bytes b2) = take (count b) (bytes b) @ xs"
    using b2s(4) b1s(4) len le pre buffer_wf_length [OF wf(1)] wf(1) by (simp add: buffer_wf_def)
  moreover have "bytes ?b' = bytes b2" by (simp add: bytes_def)
  ultimately have "take (count ?b') (bytes ?b') = take (count b) (bytes b) @ xs"
    using b2s(3) b1s(4) n by simp
  moreover have "data ?b' \<noteq> None" using b2 by (auto simp: write_bytes_def split: option.splits)
  ultimately show ?thesis
    using that [OF loop wf'] b2s C n le b1s(3,4) small by auto
qed

text \<open>
  Every client, even one that never stops sending, fills a bounded buffer: the room asked for is at
  most 255 times the default size, so a capacity is at most the greater of the old one and 522240.
\<close>

lemma recv_loop_ends:
  assumes B: "bio_bounded B" and mem: "\<And>m. alloc_ok L m"
  shows "buffer_wf b \<Longrightarrow> capacity b \<le> M \<Longrightarrow> 522240 \<le> M \<Longrightarrow> M < 2 ^ 31 \<Longrightarrow>
    c + 1 \<noteq> 0 \<or> 0 < capacity b \<Longrightarrow>
    \<exists>n s' b' xs. recv_loop L B c s b = Some (Inr (n, s', b')) \<and> n \<le> 0 \<and> buffer_wf b' \<and> capacity b' \<le> M \<and>
      count b' = count b + length xs \<and> take (count b') (bytes b') = take (count b) (bytes b) @ xs \<and>
      data b' \<noteq> None \<and> 0 < capacity b' \<and> capacity b \<le> capacity b' \<and> (c = 0 \<longrightarrow> 1024 \<le> capacity b') \<and>
      (\<forall>arrived. bio_stream B arrived \<longrightarrow>
         arrived s = xs @ arrived s' \<and> (arrived s' = [] \<or> count b' = capacity b'))"
proof (induction "M - count b" arbitrary: b c s rule: less_induct)
  case less
  let ?w = "unat (c + 1) * DEFAULT_BUFFER_SIZE"
  note w = rounds_bound [of "c + 1"]
  then obtain C where C: "grow_capacity (capacity b) ?w = Some C" "?w \<le> C"
    "C = capacity b \<or> C = DEFAULT_BUFFER_SIZE \<or> C < 2 * ?w"
    using grow_capacity_terminates [of ?w "capacity b"] by auto
  have CM: "C \<le> M" using C(3) w less.prems(2,3) by linarith
  have "0 < ?w \<or> 0 < capacity b" using less.prems(5) by (auto simp: unat_gt_0)
  moreover have "capacity b \<le> C" using C(1) w grow_capacity_terminates [of ?w "capacity b"] by auto
  ultimately have posC: "0 < C" using C(2) by linarith
  have first: "c = 0 \<Longrightarrow> 1024 \<le> C" using C(2) by simp
  obtain n xs s' where rd: "BIO_read B s (int C - int (count b)) = (n, xs, s')"
    by (metis prod_cases3)
  have small: "capacity b < 2 ^ 31" using less.prems by simp
  obtain b1 where b1: "recv_loop L B c s b =
      (if 0 < n then recv_loop L B (c + 1) s' b1 else Some (Inr (n, s', b1)))"
    "buffer_wf b1" "capacity b1 = C" "count b1 = count b + length xs"
    "take (count b1) (bytes b1) = take (count b) (bytes b) @ xs"
    "length xs = nat n" "n \<le> int C - int (count b)" "count b \<le> C" "data b1 \<noteq> None" "capacity b \<le> C"
    by (rule recv_round [OF B mem less.prems(1) small less.prems(5) C(1) rd]) blast
  have str: "arrived s = xs @ arrived s' \<and> (n \<le> 0 \<longrightarrow> count b = C \<or> arrived s = [])"
    if "bio_stream B arrived" for arrived
    using bio_streamD [OF that _ rd] b1(8) by auto
  show ?case
  proof (cases "0 < n")
    case False
    have r: "recv_loop L B c s b = Some (Inr (n, s', b1))" using b1(1) False by simp
    have e: "arrived s = xs @ arrived s'" "arrived s' = [] \<or> count b1 = capacity b1"
      if "bio_stream B arrived" for arrived
      using str [OF that] False b1(3,4,6) by auto
    show ?thesis
    proof (intro exI conjI allI impI)
      show "recv_loop L B c s b = Some (Inr (n, s', b1))" by (rule r)
      show "take (count b1) (bytes b1) = take (count b) (bytes b) @ xs" by (rule b1(5))
      show "count b1 = count b + length xs" by (rule b1(4))
    qed (use False b1 CM posC first e in auto)
  next
    case True
    then have up: "M - count b1 < M - count b" using b1(4,6,7) CM by auto
    have "capacity b1 \<le> M" "c + 1 + 1 \<noteq> 0 \<or> 0 < capacity b1" using b1(3) CM posC by auto
    from less.hyps [OF up b1(2) this(1) less.prems(3,4) this(2), of s']
    obtain n2 s2 b2 ys where ih: "recv_loop L B (c + 1) s' b1 = Some (Inr (n2, s2, b2))" "n2 \<le> 0"
      "buffer_wf b2" "capacity b2 \<le> M" "count b2 = count b1 + length ys"
      "take (count b2) (bytes b2) = take (count b1) (bytes b1) @ ys" "data b2 \<noteq> None" "0 < capacity b2"
      "capacity b1 \<le> capacity b2" "\<And>arrived. bio_stream B arrived \<Longrightarrow>
         arrived s' = ys @ arrived s2 \<and> (arrived s2 = [] \<or> count b2 = capacity b2)"
      by auto
    have r: "recv_loop L B c s b = Some (Inr (n2, s2, b2))" using b1(1) True ih(1) by simp
    have t: "take (count b2) (bytes b2) = take (count b) (bytes b) @ xs @ ys" using ih(6) b1(5) by simp
    show ?thesis
    proof (intro exI conjI allI impI)
      show "recv_loop L B c s b = Some (Inr (n2, s2, b2))" by (rule r)
      show "take (count b2) (bytes b2) = take (count b) (bytes b) @ (xs @ ys)" using t by simp
      show "count b2 = count b + length (xs @ ys)" using ih(5) b1(4) by simp
      fix arrived assume a: "bio_stream B arrived"
      show "arrived s = (xs @ ys) @ arrived s2" "arrived s2 = [] \<or> count b2 = capacity b2"
        using str [OF a] ih(10) [OF a] by auto
    qed (use ih b1 first in auto)
  qed
qed

text \<open>
  From an empty or a fresh buffer the capacities of the rounds are 1024, 2048 and 4096, each greater
  than what the rounds before it can have read: fewer than 4096 bytes leave room for the NUL.
\<close>

lemma recv_loop_room:
  assumes B: "bio_stream B arrived" and mem: "\<And>m. alloc_ok L m"
  shows "buffer_wf b \<Longrightarrow> capacity b < 2 ^ 31 \<Longrightarrow> count b + length (arrived s) < 4096 \<Longrightarrow>
    (c = 0 \<and> count b = 0 \<and> capacity b \<in> {0, 1024}) \<or> (c = 1 \<and> capacity b = 1024) \<or>
    (c = 2 \<and> capacity b = 2048) \<or> 4096 \<le> capacity b \<Longrightarrow>
    \<exists>n s' b'. recv_loop L B c s b = Some (Inr (n, s', b')) \<and> count b' < capacity b'"
proof (induction "length (arrived s)" arbitrary: b c s rule: less_induct)
  case less
  have one: "(1 :: 8 word) + 1 = 2" "(2 :: 8 word) + 1 = 3" by simp_all
  obtain C where C: "grow_capacity (capacity b) (unat (c + 1) * DEFAULT_BUFFER_SIZE) = Some C"
    "count b < C" "(c = 0 \<and> C = 1024) \<or> (c = 1 \<and> C = 2048) \<or> 4096 \<le> C" "c + 1 \<noteq> 0 \<or> 0 < capacity b"
  proof -
    have le: "count b \<le> capacity b" using less.prems(1) by (simp add: buffer_wf_def)
    have big: "\<exists>C. grow_capacity (capacity b) (unat (c + 1) * DEFAULT_BUFFER_SIZE) = Some C \<and> capacity b \<le> C"
      using grow_capacity_terminates [of "unat (c + 1) * DEFAULT_BUFFER_SIZE" "capacity b"]
        rounds_bound [of "c + 1"] by auto
    from less.prems(4) consider "c = 0" "count b = 0" "capacity b = 0 \<or> capacity b = 1024"
      | "c = 1" "capacity b = 1024" | "c = 2" "capacity b = 2048" | "4096 \<le> capacity b"
      by auto
    then show ?thesis
    proof cases
      case 1
      then have "grow_capacity (capacity b) (unat (c + 1) * DEFAULT_BUFFER_SIZE) = Some 1024"
        by (auto simp: grow_capacity.simps)
      then show ?thesis using that 1 by simp
    next
      case 2
      then have "grow_capacity (capacity b) (unat (c + 1) * DEFAULT_BUFFER_SIZE) = Some 2048"
        by (simp add: grow_capacity.simps)
      then show ?thesis using that 2 le by simp
    next
      case 3
      then have "grow_capacity (capacity b) (unat (c + 1) * DEFAULT_BUFFER_SIZE) = Some 4096"
        by (simp add: grow_capacity.simps)
      then show ?thesis using that 3 le by simp
    next
      case 4
      from big obtain C where "grow_capacity (capacity b) (unat (c + 1) * DEFAULT_BUFFER_SIZE) = Some C"
        "capacity b \<le> C" by blast
      then show ?thesis using that 4 less.prems(3) by simp
    qed
  qed
  obtain n xs s' where rd: "BIO_read B s (int C - int (count b)) = (n, xs, s')"
    by (metis prod_cases3)
  obtain b1 where b1: "recv_loop L B c s b =
      (if 0 < n then recv_loop L B (c + 1) s' b1 else Some (Inr (n, s', b1)))"
    "buffer_wf b1" "capacity b1 = C" "count b1 = count b + length xs" "length xs = nat n" "C < 2 ^ 31"
    by (rule recv_round [OF bio_stream_bounded [OF B] mem less.prems(1,2) C(4,1) rd]) blast
  have str: "arrived s = xs @ arrived s'" using bio_streamD [OF B _ rd] C(2) by simp
  show ?case
  proof (cases "0 < n")
    case False
    then show ?thesis using b1 C(2) by simp
  next
    case True
    have "length (arrived s') < length (arrived s)" "count b1 + length (arrived s') < 4096"
      using str b1(4,5) True less.prems(3) by auto
    moreover have "(c + 1 = 1 \<and> capacity b1 = 1024) \<or> (c + 1 = 2 \<and> capacity b1 = 2048) \<or> 4096 \<le> capacity b1"
      using C(3) b1(3) one by auto
    ultimately have "\<exists>n s'' b'. recv_loop L B (c + 1) s' b1 = Some (Inr (n, s'', b')) \<and> count b' < capacity b'"
      using less.hyps [of s' b1 "c + 1"] b1(2,3,6) by auto
    then show ?thesis using b1(1) True by simp
  qed
qed

text \<open>A client whose reads deliver as much as there is room for: 4096 bytes leave none.\<close>

definition bio_eager :: "'b bio_io \<Rightarrow> ('b \<Rightarrow> string) \<Rightarrow> bool" where
  "bio_eager B arrived \<longleftrightarrow> bio_stream B arrived \<and> (\<forall>s k. 0 < k \<longrightarrow> arrived s \<noteq> [] \<longrightarrow>
     fst (BIO_read B s k) = min k (int (length (arrived s))))"

lemma recv_round_full:
  assumes B: "bio_eager B arrived" and mem: "\<And>m. alloc_ok L m" and wf: "buffer_wf b" "capacity b < 2 ^ 31"
    and grow: "grow_capacity (capacity b) (unat (c + 1) * DEFAULT_BUFFER_SIZE) = Some C"
    and C: "count b < C" "C \<le> count b + length (arrived s)" and pos: "c + 1 \<noteq> 0"
  shows "\<exists>s' b'. recv_loop L B c s b = recv_loop L B (c + 1) s' b' \<and> buffer_wf b' \<and> capacity b' = C \<and>
    count b' = C \<and> C < 2 ^ 31 \<and> length (arrived s') = count b + length (arrived s) - C"
proof -
  have str: "bio_stream B arrived" using B by (simp add: bio_eager_def)
  obtain n xs s' where rd: "BIO_read B s (int C - int (count b)) = (n, xs, s')"
    by (metis prod_cases3)
  have "arrived s \<noteq> []" using C by auto
  then have n: "n = int C - int (count b)"
    using B [unfolded bio_eager_def, THEN conjunct2, rule_format, of "int C - int (count b)" s] rd C by auto
  obtain b1 where b1: "recv_loop L B c s b =
      (if 0 < n then recv_loop L B (c + 1) s' b1 else Some (Inr (n, s', b1)))"
    "buffer_wf b1" "capacity b1 = C" "count b1 = count b + length xs" "length xs = nat n" "C < 2 ^ 31"
    by (rule recv_round [OF bio_stream_bounded [OF str] mem wf disjI1 [OF pos] grow rd]) blast
  have "arrived s = xs @ arrived s'" using bio_streamD [OF str _ rd] C(1) by simp
  then have "length (arrived s) = length xs + length (arrived s')" by simp
  then have "length (arrived s') = count b + length (arrived s) - C" using b1(5) n C by linarith
  then show ?thesis using b1 n C by (intro exI [of _ s'] exI [of _ b1]) auto
qed

text \<open>Whatever is read, the buffer stays well-formed.\<close>

lemma recv_loop_wf:
  assumes B: "bio_bounded B" and r: "recv_loop L B c s b = Some r"
  shows "buffer_wf b \<Longrightarrow> r = Inr (n, s', b') \<Longrightarrow> buffer_wf b'"
proof (rule recv_loop.raw_induct
    [where P = "\<lambda>L B c s b r. bio_bounded B \<longrightarrow> buffer_wf b \<longrightarrow> (\<forall>n s' b'. r = Inr (n, s', b') \<longrightarrow> buffer_wf b')",
      OF _ r, THEN mp, OF _ B, THEN mp, THEN spec, THEN spec, THEN spec, THEN mp])
  fix loop :: "libc \<Rightarrow> 'a bio_io \<Rightarrow> 8 word \<Rightarrow> 'a \<Rightarrow> buffer \<Rightarrow> (int \<times> 'a \<times> buffer) result option"
    and L :: libc and B :: "'a bio_io" and c :: "8 word" and s :: 'a and b :: buffer
    and r :: "(int \<times> 'a \<times> buffer) result"
  assume IH: "\<And>L B c s b r. loop L B c s b = Some r \<Longrightarrow>
      bio_bounded B \<longrightarrow> buffer_wf b \<longrightarrow> (\<forall>n s' b'. r = Inr (n, s', b') \<longrightarrow> buffer_wf b')"
  let ?w = "unat (c + 1) * DEFAULT_BUFFER_SIZE"
  assume eq: "(case assert_capacity L b ?w of Inl e \<Rightarrow> Some (Inl e)
      | Inr b1 \<Rightarrow> (case BIO_read B s (to_int32 (to_uint64 (int (capacity b1) - int (count b1)))) of
          (n, xs, s') \<Rightarrow> (case write_bytes (count b1) xs b1 of Inl e \<Rightarrow> Some (Inl e)
            | Inr b2 \<Rightarrow> if 0 < n then loop L B (c + 1) s' (b2\<lparr>count := count b2 + nat n\<rparr>)
                else Some (Inr (n, s', b2))))) = Some r"
  show "bio_bounded B \<longrightarrow> buffer_wf b \<longrightarrow> (\<forall>n s' b'. r = Inr (n, s', b') \<longrightarrow> buffer_wf b')"
  proof (intro impI)
    assume B: "bio_bounded B" and wf: "buffer_wf b"
    show "\<forall>n s' b'. r = Inr (n, s', b') \<longrightarrow> buffer_wf b'"
    proof (cases "assert_capacity L b ?w")
      case (Inl e)
      then show ?thesis using eq by auto
    next
      case (Inr b1)
      note b1 = assert_capacity_Inr [OF wf Inr]
      obtain n xs s1 where rd: "BIO_read B s (to_int32 (to_uint64 (int (capacity b1) - int (count b1)))) = (n, xs, s1)"
        by (metis prod_cases3)
      have len: "length xs = nat n"
        using B [unfolded bio_bounded_def, rule_format, of "to_int32 (to_uint64 (int (capacity b1) - int (count b1)))" s] rd
        by simp
      show ?thesis
      proof (cases "write_bytes (count b1) xs b1")
        case (Inl e)
        then show ?thesis using eq Inr rd by auto
      next
        case w: (Inr b2)
        note b2 = write_bytes_Inr [OF b1(1) w]
        have fits: "count b1 + length xs \<le> capacity b1"
          using w b1(1) by (auto simp: write_bytes_def buffer_wf_def split: option.splits)
        have wf': "buffer_wf (b2\<lparr>count := count b2 + nat n\<rparr>)"
          using b2(1,2,3) fits len by (auto simp: buffer_wf_def split: option.splits)
        show ?thesis
        proof (cases "0 < n")
          case True
          then have "loop L B (c + 1) s1 (b2\<lparr>count := count b2 + nat n\<rparr>) = Some r" using eq Inr rd w by simp
          from IH [OF this] B wf' show ?thesis by simp
        next
          case False
          then have "r = Inr (n, s1, b2)" using eq Inr rd w by simp
          then show ?thesis using b2(1) by simp
        qed
      qed
    qed
  qed
qed simp_all

lemma write_nul_wf:
  assumes "buffer_wf b" and "write_bytes n [NUL] b = Inr b'"
  shows "buffer_wf (b'\<lparr>count := n + 1\<rparr>)"
  using write_bytes_Inr [OF assms] assms
  by (auto simp: buffer_wf_def write_bytes_def split: option.splits)

lemma recv_bio_wf:
  assumes B: "bio_bounded B" and wf: "buffer_wf b" and r: "recv_bio L B s b = Inr (n, s', b')"
  shows "buffer_wf b'"
proof -
  from r obtain r0 where r0: "recv_loop L B 0 s b = Some r0"
    by (auto simp: recv_bio_def split: option.splits)
  with r obtain m b1 where m: "r0 = Inr (m, s', b1)"
    by (auto simp: recv_bio_def split: option.splits if_splits)
  have w1: "buffer_wf b1" by (rule recv_loop_wf [OF B r0 wf m])
  show ?thesis
    using r r0 m w1 write_nul_wf [OF w1] by (auto simp: recv_bio_def split: if_splits)
qed

text \<open>An \<open>SSL\<close> object: the pending bytes and a return value are of type \<open>int\<close>.\<close>

definition ssl_bounded :: "'p ssl_io \<Rightarrow> bool" where
  "ssl_bounded T \<longleftrightarrow> (\<forall>s. 0 \<le> SSL_pending T s \<and> SSL_pending T s < 2 ^ 31) \<and>
     (\<forall>s k. case SSL_read T s k of (n, xs, s') \<Rightarrow> - (2 ^ 31) \<le> n \<and> n < 2 ^ 31)"

lemma recv_ssl_wf:
  assumes T: "ssl_bounded T" and wf: "buffer_wf b" and r: "recv_ssl L T s b = Inr (n, s', b')"
  shows "buffer_wf b'"
proof -
  let ?p = "to_uint64 (SSL_pending T s)"
  obtain m xs s1 where rd: "SSL_read T s (to_int32 (to_uint64 (?p - 1))) = (m, xs, s1)"
    by (metis prod_cases3)
  from r rd obtain b1 b2 where b1: "assert_capacity L b (nat (to_uint64 (int (count b) + ?p + 1))) = Inr b1"
    and b2: "write_bytes (count b) xs b1 = Inr b2" and le: "to_uint64 m \<le> ?p"
    and fin: "(if m < 0 then Inr (-1, s1, b2\<lparr>count := nat (to_uint64 (int (count b2) + m))\<rparr>)
      else and_then (write_bytes (nat (to_uint64 (int (count b2) + m))) [NUL] b2)
        (\<lambda>b3. Inr (m, s1, b3\<lparr>count := nat (to_uint64 (int (count b2) + m)) + 1\<rparr>))) = Inr (n, s', b')"
    by (auto simp: recv_ssl_def Let_def)
  have "0 \<le> SSL_pending T s" "SSL_pending T s < 2 ^ 31" "- (2 ^ 31) \<le> m"
    using T [unfolded ssl_bounded_def, THEN conjunct1, rule_format, of s]
      T [unfolded ssl_bounded_def, THEN conjunct2, rule_format, of s "to_int32 (to_uint64 (?p - 1))"] rd
    by simp_all
  moreover have "to_uint64 m = m + 2 ^ 64" if "- (2 ^ 31) \<le> m" "m < 0" for m
    using that mod_pos_pos_trivial [of "m + 2 ^ 64" "2 ^ 64"] by (simp add: to_uint64_def)
  moreover have "to_uint64 (SSL_pending T s) = SSL_pending T s" using calculation(1,2) by (simp add: to_uint64_def)
  ultimately have "\<not> m < 0" using le by force
  moreover have "buffer_wf b2"
    using write_bytes_Inr(1) [OF assert_capacity_Inr(1) [OF wf b1] b2] .
  ultimately show ?thesis using fin write_nul_wf by auto
qed

text \<open>What every read keeps, the loop keeps.\<close>

lemma recv_loop_keeps:
  assumes r: "recv_loop L B c s b = Some r"
  shows "(\<And>s k. I s \<Longrightarrow> I (snd (snd (BIO_read B s k)))) \<Longrightarrow> I s \<Longrightarrow> r = Inr (n, s', b') \<Longrightarrow> I s'"
proof (rule recv_loop.raw_induct
    [where P = "\<lambda>L B c s b r. (\<forall>s k. I s \<longrightarrow> I (snd (snd (BIO_read B s k)))) \<longrightarrow> I s \<longrightarrow>
        (\<forall>n s' b'. r = Inr (n, s', b') \<longrightarrow> I s')",
      OF _ r, THEN mp, THEN mp, THEN spec, THEN spec, THEN spec, THEN mp])
  fix loop :: "libc \<Rightarrow> 'a bio_io \<Rightarrow> 8 word \<Rightarrow> 'a \<Rightarrow> buffer \<Rightarrow> (int \<times> 'a \<times> buffer) result option"
    and L :: libc and B :: "'a bio_io" and c :: "8 word" and s :: 'a and b :: buffer
    and r :: "(int \<times> 'a \<times> buffer) result"
  assume IH: "\<And>L B c s b r. loop L B c s b = Some r \<Longrightarrow>
      (\<forall>s k. I s \<longrightarrow> I (snd (snd (BIO_read B s k)))) \<longrightarrow> I s \<longrightarrow> (\<forall>n s' b'. r = Inr (n, s', b') \<longrightarrow> I s')"
  let ?w = "unat (c + 1) * DEFAULT_BUFFER_SIZE"
  assume eq: "(case assert_capacity L b ?w of Inl e \<Rightarrow> Some (Inl e)
      | Inr b1 \<Rightarrow> (case BIO_read B s (to_int32 (to_uint64 (int (capacity b1) - int (count b1)))) of
          (n, xs, s') \<Rightarrow> (case write_bytes (count b1) xs b1 of Inl e \<Rightarrow> Some (Inl e)
            | Inr b2 \<Rightarrow> if 0 < n then loop L B (c + 1) s' (b2\<lparr>count := count b2 + nat n\<rparr>)
                else Some (Inr (n, s', b2))))) = Some r"
  show "(\<forall>s k. I s \<longrightarrow> I (snd (snd (BIO_read B s k)))) \<longrightarrow> I s \<longrightarrow> (\<forall>n s' b'. r = Inr (n, s', b') \<longrightarrow> I s')"
  proof (intro impI)
    assume keep: "\<forall>s k. I s \<longrightarrow> I (snd (snd (BIO_read B s k)))" and "I s"
    show "\<forall>n s' b'. r = Inr (n, s', b') \<longrightarrow> I s'"
    proof (cases "assert_capacity L b ?w")
      case (Inl e)
      then show ?thesis using eq by auto
    next
      case (Inr b1)
      obtain n xs s1 where rd: "BIO_read B s (to_int32 (to_uint64 (int (capacity b1) - int (count b1)))) = (n, xs, s1)"
        by (metis prod_cases3)
      have I1: "I s1"
        using keep [rule_format, OF \<open>I s\<close>, of "to_int32 (to_uint64 (int (capacity b1) - int (count b1)))"] rd by simp
      show ?thesis
      proof (cases "write_bytes (count b1) xs b1")
        case (Inl e)
        then show ?thesis using eq Inr rd by auto
      next
        case w: (Inr b2)
        show ?thesis
        proof (cases "0 < n")
          case True
          then have "loop L B (c + 1) s1 (b2\<lparr>count := count b2 + nat n\<rparr>) = Some r" using eq Inr rd w by simp
          from IH [OF this] keep I1 show ?thesis by blast
        next
          case False
          then have "r = Inr (n, s1, b2)" using eq Inr rd w by simp
          then show ?thesis using I1 by simp
        qed
      qed
    qed
  qed
qed auto

lemma recv_bio_short:
  assumes B: "bio_stream B arrived" and mem: "\<And>m. alloc_ok L m" and wf: "buffer_wf b"
    and empty: "count b = 0" "capacity b = 0 \<and> data b = None \<or> capacity b = 1024"
    and len: "arrived s \<noteq> []" "length (arrived s) < 4096"
  shows "\<exists>s' b'. recv_bio L B s b = Inr (int (length (arrived s)) + 1, s', b') \<and> arrived s' = [] \<and>
    buffer_wf b' \<and> count b' = length (arrived s) + 1 \<and>
    take (count b') (bytes b') = arrived s @ [NUL] \<and> capacity b' \<le> 522240 \<and> data b' \<noteq> None \<and>
    (\<forall>I. (\<forall>s k. I s \<longrightarrow> I (snd (snd (BIO_read B s k)))) \<longrightarrow> I s \<longrightarrow> I s')"
proof -
  have small: "capacity b < 2 ^ 31" "capacity b \<le> 522240" using empty by auto
  obtain n s' b1 where l: "recv_loop L B 0 s b = Some (Inr (n, s', b1))" "count b1 < capacity b1"
    using recv_loop_room [OF B mem wf small(1), of s 0] empty len by auto
  then have e: "buffer_wf b1" "count b1 = length (arrived s)" "arrived s' = []"
    "take (count b1) (bytes b1) = arrived s" "capacity b1 \<le> 522240"
    using recv_loop_ends [OF bio_stream_bounded [OF B] mem wf small(2), of 0 s] B empty by auto
  obtain b2 where b2: "write_bytes (count b1) [NUL] b1 = Inr b2"
    using write_bytes_returns [OF e(1), of "count b1" "[NUL]"] l(2) by auto
  note w = write_bytes_Inr [OF e(1) b2]
  let ?b = "b2\<lparr>count := count b1 + 1\<rparr>"
  have wf': "buffer_wf ?b" using w l(2) by (auto simp: buffer_wf_def split: option.splits)
  have "length (bytes b1) = capacity b1" by (rule buffer_wf_length [OF e(1)])
  then have t: "take (count b1 + 1) (bytes b2) = arrived s @ [NUL]"
    using w(4) e(2,4) l(2) by simp
  have nn: "data b = None \<or> 0 < capacity b" using empty by auto
  have "to_int32 (int (length (arrived s) + 1)) = int (length (arrived s)) + 1"
    using len(2) by (subst to_int32_id) auto
  then have "recv_bio L B s b = Inr (int (length (arrived s)) + 1, s', ?b)"
    using nn l b2 e(2) len(1) by (simp add: recv_bio_def)
  moreover have "data ?b \<noteq> None" using b2 by (auto simp: write_bytes_def split: option.splits)
  moreover have "\<forall>I. (\<forall>s k. I s \<longrightarrow> I (snd (snd (BIO_read B s k)))) \<longrightarrow> I s \<longrightarrow> I s'"
    using recv_loop_keeps [OF l(1) _ _ refl] by blast
  ultimately show ?thesis using wf' e t w(2)
    by (intro exI [of _ s'] exI [of _ ?b]) (simp add: bytes_def)
qed

section \<open>Properties\<close>

text \<open>An example client: the bytes that have arrived, delivered as far as there is room.\<close>

definition eager_bio :: "string bio_io" where
  "eager_bio = \<lparr>BIO_read = (\<lambda>s k. if s = [] then (-1, [], s)
       else (int (length (take (nat k) s)), take (nat k) s, drop (nat k) s)),
     BIO_write = (\<lambda>s xs. (int (length xs), s)), BIO_should_retry = (\<lambda>s. 8)\<rparr>"

lemma eager_bio_stream: "bio_stream eager_bio (\<lambda>s. s)"
  by (auto simp: bio_stream_def bio_bounded_def eager_bio_def min_def split: if_splits)

abbreviation roomy :: libc where
  "roomy \<equiv> \<lparr>alloc_ok = (\<lambda>_. True), junk = (\<lambda>_. NUL)\<rparr>"

abbreviation no_buffer :: buffer where
  "no_buffer \<equiv> \<lparr>capacity = 0, count = 0, data = None\<rparr>"




definition endless_bio :: "unit bio_io" where
  "endless_bio = \<lparr>BIO_read = (\<lambda>s k. (k, replicate (nat k) (CHR ''x''), s)),
     BIO_write = (\<lambda>s xs. (int (length xs), s)), BIO_should_retry = (\<lambda>s. 8)\<rparr>"


text \<open>
  C36: A client that has sent 4096 bytes or more when the listener reads makes the server write the
  terminating NUL behind the end of the buffer: the third round asks for 3072 bytes, the capacity
  becomes 4096, the reads fill it, and the fourth round neither grows it nor reads anything.
\<close>

theorem recv_bio_overflows:
  assumes B: "bio_eager B arrived" and mem: "\<And>m. alloc_ok L m" and wf: "buffer_wf b"
    and empty: "count b = 0" "capacity b = 0 \<and> data b = None \<or> capacity b = 1024"
    and len: "4096 \<le> length (arrived s)"
  shows "recv_bio L B s b = Inl (Out_of_bounds ''data'')"
proof -
  have str: "bio_stream B arrived" using B by (simp add: bio_eager_def)
  have g: "grow_capacity (capacity b) 1024 = Some 1024" "grow_capacity 1024 2048 = Some 2048"
    "grow_capacity 2048 3072 = Some 4096" "grow_capacity 4096 4096 = Some 4096"
    using empty(2) by (auto simp: grow_capacity.simps)
  have small: "capacity b < 2 ^ 31" using empty by auto
  obtain s1 b1 where 1: "recv_loop L B 0 s b = recv_loop L B 1 s1 b1" "buffer_wf b1" "capacity b1 = 1024"
    "count b1 = 1024" "length (arrived s1) = length (arrived s) - 1024"
    using recv_round_full [OF B mem wf small, of 0 1024 s] g empty len by auto
  obtain s2 b2 where 2: "recv_loop L B 1 s1 b1 = recv_loop L B 2 s2 b2" "buffer_wf b2" "capacity b2 = 2048"
    "count b2 = 2048" "length (arrived s2) = length (arrived s) - 2048"
    using recv_round_full [OF B mem 1(2), of 1 2048 s1] g 1 len by auto
  obtain s3 b3 where 3: "recv_loop L B 2 s2 b2 = recv_loop L B 3 s3 b3" "buffer_wf b3" "capacity b3 = 4096"
    "count b3 = 4096"
    using recv_round_full [OF B mem 2(2), of 2 4096 s2] g 2 len by auto
  obtain n xs s4 where rd: "BIO_read B s3 (int 4096 - int (count b3)) = (n, xs, s4)"
    by (metis prod_cases3)
  have grow: "grow_capacity (capacity b3) (unat ((3 :: 8 word) + 1) * DEFAULT_BUFFER_SIZE) = Some 4096"
    using g(4) 3(3) by simp
  obtain b4 where 4: "recv_loop L B 3 s3 b3 =
      (if 0 < n then recv_loop L B (3 + 1) s4 b4 else Some (Inr (n, s4, b4)))"
    "capacity b4 = 4096" "count b4 = count b3 + length xs" "length xs = nat n" "buffer_wf b4"
    "n \<le> int 4096 - int (count b3)" "data b4 \<noteq> None"
    by (rule recv_round [OF bio_stream_bounded [OF str] mem 3(2) _ _ grow rd]) (use 3(3) in auto)
  have "recv_loop L B 0 s b = Some (Inr (n, s4, b4))" "count b4 = 4096"
    using 1(1) 2(1) 3(1,4) 4 by simp_all
  moreover have "write_bytes (count b4) [NUL] b4 = Inl (Out_of_bounds ''data'')"
    using 4(2,5,7) calculation(2) by (auto simp: write_bytes_def buffer_wf_def in_bounds_def)
  moreover have "data b = None \<or> 0 < capacity b" using empty by auto
  ultimately show ?thesis by (simp add: recv_bio_def)
qed

lemma eager_bio_eager: "bio_eager eager_bio (\<lambda>s. s)"
  using eager_bio_stream by (auto simp: bio_eager_def eager_bio_def)

theorem recv_bio_overflows_witness:
  "recv_bio roomy eager_bio (replicate 5000 (CHR ''x'')) no_buffer = Inl (Out_of_bounds ''data'')"
  by (rule recv_bio_overflows [OF eager_bio_eager]) (simp_all add: buffer_wf_def)

text \<open>
  \<open>SSL_pending\<close> counts only bytes already decrypted. When there are none, \<open>pending - 1\<close> becomes
  the length -1, \<open>SSL_read\<close> refuses it with a negative value, and the comparison of that value as a
  \<open>size_t\<close> with 0 fails the assertion: the server ends.
\<close>

lemma recv_ssl_without_pending_aborts:
  assumes pending: "SSL_pending T s = 0"
    and refuses: "\<And>k. k < 0 \<Longrightarrow> (case SSL_read T s k of (n, xs, s') \<Rightarrow> n = -1 \<and> xs = [])"
    and mem: "\<And>m. alloc_ok L m" and wf: "buffer_wf b" "capacity b < 2 ^ 31" "count b < 2 ^ 30"
    and null: "data b = None \<or> 0 < capacity b"
  shows "recv_ssl L T s b = Inl (Assert_failed ''recv_return <= pending'')"
proof -
  have [simp]: "to_int32 18446744073709551615 = -1" "to_uint64 (-1) = 18446744073709551615" "to_uint64 0 = 0"
    by (simp_all add: to_int32_def to_uint64_def)
  obtain xs s' where rd: "SSL_read T s (-1) = (-1, xs, s')" "xs = []"
    using refuses [of "-1"] by (auto split: prod.splits)
  have sz: "nat (to_uint64 (int (count b) + 0 + 1)) = count b + 1"
    using wf(3) by (simp add: to_uint64_def)
  obtain b1 where b1: "assert_capacity L b (count b + 1) = Inr b1"
    using assert_capacity_returns [OF mem wf(1,2), of "count b + 1"] wf(3) by auto
  note b1s = assert_capacity_Inr [OF wf(1) b1]
  obtain b2 where b2: "write_bytes (count b) [] b1 = Inr b2"
    using write_bytes_returns [OF b1s(1,6), of "count b" "[]"] b1s(2) by auto
  then show ?thesis
    using null pending rd sz b1 b2 by (simp add: recv_ssl_def Let_def)
qed

definition fresh_ssl :: "unit ssl_io" where
  "fresh_ssl = \<lparr>SSL_pending = (\<lambda>s. 0), SSL_read = (\<lambda>s k. (-1, [], s)),
     SSL_write = (\<lambda>s xs. (int (length xs), s)), SSL_get_error = (\<lambda>s n. 2)\<rparr>"

text \<open>
  An \<open>accept\<close> that fails (no descriptor left, a client gone again) ends the server: the new
  descriptor is made non-blocking, with an assertion that it is positive, before the error is seen.
\<close>

lemma accept_failure_aborts:
  assumes "0 < socket_fd" and "os_accept K socket_fd = -1"
  shows "accept_socket K socket_fd True = Inl (Assert_failed ''socket_fd > 0'')"
  using assms by (simp add: accept_socket_def disable_socket_blocking_def)

definition no_descriptors :: sockets where
  "no_descriptors = \<lparr>os_socket = (\<lambda>_ _ _. 3), os_bind = (\<lambda>_ _ _. 0), os_listen = (\<lambda>_ _. 0),
     os_accept = (\<lambda>_. -1), os_connect = (\<lambda>_ _ _. 0), os_getfl = (\<lambda>_. 2), os_setfl = (\<lambda>_ _. 0),
     os_send = (\<lambda>_ _. 0), os_recv = (\<lambda>_ _. (0, []))\<rparr>"

end
