(* ===== verification/Listener.thy ===== *)
theory Listener
  imports PollArray Jobs SessionSafety Socket
begin

text \<open>
  \<^verbatim>\<open>src/listener.c\<close>: the thread that polls the descriptors, accepts clients, reads requests into the
  buffers of their sessions and drops connections that failed. It ties the poll array, the session
  table and the sockets together: its state \<open>server\<close> holds all three, and the state of each
  connection's socket and TLS object by descriptor. What the operating system answers is an argument.
\<close>

section \<open>State\<close>

record ('b, 'p) server =
  sw :: world
  polls :: poll_array
  bio_state :: "int \<Rightarrow> 'b"
  ssl_state :: "int \<Rightarrow> 'p"

record ('b, 'p) platform =
  p_libc :: libc
  p_env :: env
  p_props :: properties
  p_bio :: "'b bio_io"
  p_ssl :: "'p ssl_io"
  p_sockets :: sockets
  p_errno :: int
  p_so_error :: "nat \<Rightarrow> int \<Rightarrow> int option"   \<comment> \<open>\<open>getsockopt(SO_ERROR)\<close>, first and second call for an entry\<close>
  p_new_bio :: "int \<Rightarrow> 'b"                    \<comment> \<open>the client behind a descriptor just accepted\<close>
  p_new_ssl :: "int \<Rightarrow> 'p"

abbreviation POLLERR :: "16 word" where "POLLERR \<equiv> 8"
abbreviation POLLHUP :: "16 word" where "POLLHUP \<equiv> 16"
abbreviation POLLNVAL :: "16 word" where "POLLNVAL \<equiv> 32"
abbreviation POLLPRI :: "16 word" where "POLLPRI \<equiv> 2"
abbreviation POLLRDHUP :: "16 word" where "POLLRDHUP \<equiv> 0x2000"

abbreviation EINTR :: int where "EINTR \<equiv> 4"
abbreviation ENOMEM :: int where "ENOMEM \<equiv> 12"
abbreviation EFAULT :: int where "EFAULT \<equiv> 14"
abbreviation EINVAL :: int where "EINVAL \<equiv> 22"

definition classify_poll_error :: "int \<Rightarrow> POLL_ERROR_CLASS" where
  "classify_poll_error code =
     (if code = EFAULT then RESET
      else if code = EINTR then CONTINUE
      else if code = EINVAL then RESET
      else if code = ENOMEM then REMOVE_FD
      else REMOVE_FD)"

definition get_poll_event_description :: "16 word \<Rightarrow> string" where
  "get_poll_event_description event =
     (if event = POLLIN then ''There is data to read.''
      else if event = POLLPRI then ''There is some exceptional condition on the file descriptor.''
      else if event = POLLOUT then ''Writing is now possible, though a write larger than the available '' @
        ''space in a socket or pipe will still block (unless O_NONBLOCK is '' @ ''set).''
      else if event = POLLRDHUP then ''Stream socket peer closed connection, or shut down writing half of '' @
        ''connection.''
      else if event = POLLERR then ''Error condition (only returned in revents; ignored in events).''
      else if event = POLLHUP then ''Hang up (only returned in revents; ignored in events).''
      else if event = POLLNVAL then ''Invalid request: fd not open (only returned in revents; ignored in '' @
        ''events).''
      else ''Unknown event.'')"

definition check_for_socket_error :: "('b, 'p) platform \<Rightarrow> nat \<Rightarrow> int \<Rightarrow> int" where
  "check_for_socket_error P call f = (case p_so_error P call f of None \<Rightarrow> -1 | Some err \<Rightarrow> err)"

section \<open>The listening socket\<close>

text \<open>
  The loop over the addresses \<open>getaddrinfo\<close> found for the port: open, allow quick restarts, bind.
  \<open>None\<close> is the end of the list.
\<close>

fun bind_first :: "sockets \<Rightarrow> (int \<Rightarrow> int) \<Rightarrow> addrinfo list \<Rightarrow> (int \<times> addrinfo) option result" where
  "bind_first K setsockopt [] = Inr None"
| "bind_first K setsockopt (p # ps) =
     and_then (open_socket K (Some p)) (\<lambda>socket_fd.
     if socket_fd < 0 then bind_first K setsockopt ps
     else assert_that ''setsockopt(socket_fd, SOL_SOCKET, SO_REUSEADDR, &yes, sizeof(int)) != -1''
       (setsockopt socket_fd \<noteq> -1)
       (and_then (bind_socket K socket_fd (Some p)) (\<lambda>bound.
          if bound < 0 then bind_first K setsockopt ps else Inr (Some (socket_fd, p)))))"

definition get_listener_socket :: "sockets \<Rightarrow> (int \<Rightarrow> int) \<Rightarrow> (string \<Rightarrow> int \<times> addrinfo list) \<Rightarrow>
    string option \<Rightarrow> int \<Rightarrow> int result" where
  "get_listener_socket K setsockopt getaddrinfo port backlog =
     (case port of
        None \<Rightarrow> Inl (Assert_failed ''port != NULL'')
      | Some service \<Rightarrow>
          let (return_val, servinfo) = getaddrinfo service in
          assert_that ''return_val = getaddrinfo(NULL, port, &hints, &servinfo) == 0'' (return_val = 0) (
          and_then (bind_first K setsockopt servinfo) (\<lambda>found.
          case found of
            None \<Rightarrow> Inl (Assert_failed ''p != NULL'')
          | Some (socket_fd, p) \<Rightarrow>
              and_then (listen_socket K socket_fd backlog) (\<lambda>_. Inr socket_fd))))"

text \<open>
  Only the first address is ever used: a socket that cannot be opened or bound fails an assertion
  before the loop can go on to the next one.
\<close>

lemma bind_first_only:
  assumes "\<And>a b c. os_socket K a b c = -1 \<or> 0 \<le> os_socket K a b c"
    and "\<And>s a n. os_bind K s a n = -1 \<or> 0 \<le> os_bind K s a n"
  shows "bind_first K setsockopt (p # ps) = bind_first K setsockopt (p # qs)"
proof -
  have open_ok: "\<not> fd < 0" if "open_socket K (Some p) = Inr fd" for fd
    using that assms(1) [of "ai_family p" "ai_socktype p" "ai_protocol p"] by (auto simp: open_socket_def Let_def)
  have bind_ok: "\<not> r < 0" if b: "bind_socket K fd (Some p) = Inr r" for fd r
  proof -
    obtain a where "ai_addr p = Some a" using b by (auto simp: bind_socket_def split: option.splits)
    then show ?thesis using b assms(2) [of fd a "ai_addrlen p"] by (auto simp: bind_socket_def Let_def)
  qed
  show ?thesis
  proof (cases "open_socket K (Some p)")
    case (Inl e)
    then show ?thesis by simp
  next
    case (Inr fd)
    note o = this
    show ?thesis
    proof (cases "bind_socket K fd (Some p)")
      case (Inl e)
      then show ?thesis using o open_ok [OF o] by simp
    next
      case (Inr r)
      then show ?thesis using o open_ok [OF o] bind_ok [OF Inr] by simp
    qed
  qed
qed

section \<open>Reading a request\<close>

definition push :: "('b, 'p) platform \<Rightarrow> int \<Rightarrow> WORK_STATUS \<Rightarrow> ('b, 'p) server \<Rightarrow> ('b, 'p) server result" where
  "push P f st W = and_then (push_request (p_env P) f st (sw W)) (\<lambda>w. Inr (W\<lparr>sw := w\<rparr>))"

text \<open>What follows a read: \<open>n\<close> is its return value, \<open>retry\<close> whether it is to be tried again later.\<close>

definition after_read :: "('b, 'p) platform \<Rightarrow> int \<Rightarrow> int \<Rightarrow> bool \<Rightarrow> ('b, 'p) server \<Rightarrow> (int \<times> ('b, 'p) server) result" where
  "after_read P f n retry W =
     (if 0 < n then and_then (push P f WORK_STATUS_REQUEST_READ W) (\<lambda>W'. Inr (0, W'))
      else if retry then and_then (push P f WORK_STATUS_INITIAL W) (\<lambda>W'. Inr (0, W'))
      else Inr (-1, W))"

definition read_plain :: "('b, 'p) platform \<Rightarrow> int \<Rightarrow> session_full_return \<Rightarrow> ('b, 'p) server \<Rightarrow>
    (int \<times> ('b, 'p) server) result" where
  "read_plain P f r W =
     (let sc = cache (sw W); sock = bio_fd (bios sc (r_bio r)) in
      and_then (recv_bio (p_libc P) (p_bio P) (bio_state W sock) (buffers sc (r_buffer r))) (\<lambda>(n, s', b').
        after_read P f n (BIO_should_retry (p_bio P) s' \<noteq> 0)
          (W\<lparr>sw := (sw W)\<lparr>cache := set_buffer (r_buffer r) b' sc\<rparr>, bio_state := (bio_state W)(sock := s')\<rparr>)))"

definition read_ssl :: "('b, 'p) platform \<Rightarrow> int \<Rightarrow> session_full_return \<Rightarrow> ('b, 'p) server \<Rightarrow>
    (int \<times> ('b, 'p) server) result" where
  "read_ssl P f r W =
     (let sc = cache (sw W); sock = bio_fd (bios sc (r_bio r)) in
      assert_that ''session.ssl != NULL'' (r_ssl r \<noteq> None) (
      and_then (recv_ssl (p_libc P) (p_ssl P) (ssl_state W sock) (buffers sc (r_buffer r))) (\<lambda>(n, s', b').
        after_read P f n (SSL_get_error (p_ssl P) s' n = SSL_ERROR_WANT_READ)
          (W\<lparr>sw := (sw W)\<lparr>cache := set_buffer (r_buffer r) b' sc\<rparr>, ssl_state := (ssl_state W)(sock := s')\<rparr>))))"

definition handle_request_async :: "('b, 'p) platform \<Rightarrow> int \<Rightarrow> ('b, 'p) server \<Rightarrow> (int \<times> ('b, 'p) server) result" where
  "handle_request_async P f W =
     and_then (pop_request_by_fd f (cache (sw W))) (\<lambda>(ret, sc).
     let W1 = W\<lparr>sw := (sw W)\<lparr>cache := sc\<rparr>\<rparr> in
     case ret of
       None \<Rightarrow> Inr (-1, W1)
     | Some r \<Rightarrow> if is_ssl (requests sc (r_request r)) then read_ssl P f r W1 else read_plain P f r W1)"

section \<open>One entry of the poll array\<close>

definition remove_entry :: "nat \<Rightarrow> ('b, 'p) server \<Rightarrow> (nat \<times> ('b, 'p) server) result" where
  "remove_entry i W =
     and_then (remove_poll_fd_by_index_sync i (polls W) (marked_fds (sw W))) (\<lambda>(closed, i', pa, m).
       Inr (i', W\<lparr>polls := pa, sw := (sw W)\<lparr>marked_fds := m\<rparr>\<rparr>))"

definition reject_entry :: "('b, 'p) platform \<Rightarrow> int \<Rightarrow> nat \<Rightarrow> ('b, 'p) server \<Rightarrow> (nat \<times> ('b, 'p) server) result" where
  "reject_entry P f i W = and_then (push P f WORK_STATUS_REJECTED W) (remove_entry i)"

definition accept_client :: "('b, 'p) platform \<Rightarrow> int \<Rightarrow> int \<Rightarrow> ('b, 'p) server \<Rightarrow> ('b, 'p) server result" where
  "accept_client P listener f W =
     and_then (accept_socket (p_sockets P) f True) (\<lambda>client.
     if client < 0 then Inr W
     else let W1 = W\<lparr>bio_state := (bio_state W)(client := p_new_bio P client),
                     ssl_state := (ssl_state W)(client := p_new_ssl P client)\<rparr> in
       and_then (push P client (if f = listener then WORK_STATUS_INITIAL else WORK_STATUS_INITIAL_SSL) W1) (\<lambda>W2.
       and_then (add_poll_fd_sync (p_props P) client (polls W2)) (\<lambda>(i, pa).
       Inr (W2\<lparr>polls := pa\<rparr>))))"

definition listen_entry :: "('b, 'p) platform \<Rightarrow> int \<Rightarrow> int \<Rightarrow> nat \<Rightarrow> ('b, 'p) server \<Rightarrow>
    (nat \<times> ('b, 'p) server) result" where
  "listen_entry P listener listener_ssl i W =
     (case fds (polls W) of
        None \<Rightarrow> Inl (Assert_failed ''poll != NULL'')
      | Some xs \<Rightarrow>
     in_bounds ''fds'' (i < length xs) (
     let f = fd (xs ! i); ev = revents (xs ! i); error_class = classify_poll_error (p_errno P) in
     and_then (is_marked f (marked_fds (sw W))) (\<lambda>marked.
     if marked then remove_entry i W
     else if check_for_socket_error P 0 f = -1 then reject_entry P f i W
     else if ev AND POLLERR \<noteq> 0 \<and> error_class = RESET then Inl (Assert_failed ''error_class != RESET'')
     else if ev AND POLLERR \<noteq> 0 \<and> error_class = REMOVE_FD then reject_entry P f i W
     else if ev AND (POLLNVAL OR POLLHUP OR POLLRDHUP) \<noteq> 0 \<and> check_for_socket_error P 1 f = -1
     then reject_entry P f i W
     else if ev AND POLLOUT \<noteq> 0
     then and_then (push P f WORK_STATUS_READY_TO_SEND W) (\<lambda>W1. Inr (i, W1))
     else if ev AND POLLIN \<noteq> 0
     then if f = listener \<or> f = listener_ssl
          then and_then (accept_client P listener f W) (\<lambda>W1. Inr (i, W1))
          else and_then (handle_request_async P f W) (\<lambda>(ret, W1).
               if ret = -1 then reject_entry P f i W1 else Inr (i, W1))
     else Inr (i, W))))"

section \<open>One round\<close>

text \<open>The length of the array is fixed; an entry that is dealt with steps on or shortens what is in use.\<close>

lemma peek_next_poll_length:
  "peek_next_poll pa = Inr (n, pa1) \<Longrightarrow> map_option length (fds pa1) = map_option length (fds pa)"
  by (auto simp: peek_next_poll_def split: option.splits if_splits)

lemma add_poll_fd_length:
  assumes "add_poll_fd_sync p f pa = Inr (i, pa')"
  shows "map_option length (fds pa') = map_option length (fds pa)"
proof -
  from assms obtain n pa1 xs where peek: "peek_next_poll pa = Inr (n, pa1)" and xs: "fds pa1 = Some xs"
    by (auto simp: add_poll_fd_sync_def Let_def split: option.splits)
  have "\<exists>ys. fds pa' = Some ys \<and> length ys = length xs"
    using assms peek xs by (auto simp: add_poll_fd_sync_def Let_def split: if_splits)
  then show ?thesis using xs peek_next_poll_length [OF peek] by auto
qed

lemma remove_poll_fd_length:
  "remove_poll_fd_by_index_sync i pa m = Inr (c, i', pa', m') \<Longrightarrow>
    map_option length (fds pa') = map_option length (fds pa) \<and> i' = i - 1 \<and> 0 < i \<and>
    pa_count pa' < pa_count pa"
  by (auto simp: remove_poll_fd_by_index_sync_def Let_def split: option.splits if_splits)

lemma push_frame: "push P f st W = Inr W' \<Longrightarrow>
    polls W' = polls W \<and> bio_state W' = bio_state W \<and> ssl_state W' = ssl_state W"
  by (auto simp: push_def)

lemma after_read_frame: "after_read P f n retry W = Inr (r, W') \<Longrightarrow> polls W' = polls W"
  by (auto simp: after_read_def dest!: push_frame split: if_splits)

lemma read_plain_frame: "read_plain P f r W = Inr (n, W') \<Longrightarrow> polls W' = polls W"
  by (auto simp: read_plain_def Let_def dest!: after_read_frame)

lemma read_ssl_frame: "read_ssl P f r W = Inr (n, W') \<Longrightarrow> polls W' = polls W"
  by (auto simp: read_ssl_def Let_def dest!: after_read_frame)

lemma handle_request_frame: "handle_request_async P f W = Inr (r, W') \<Longrightarrow> polls W' = polls W"
  by (auto simp: handle_request_async_def Let_def dest!: read_plain_frame read_ssl_frame
      split: option.splits if_splits)

definition array_length :: "('b, 'p) server \<Rightarrow> nat" where
  "array_length W = (case fds (polls W) of None \<Rightarrow> 0 | Some xs \<Rightarrow> length xs)"

lemma array_length_eq:
  "map_option length (fds (polls W')) = map_option length (fds (polls W)) \<Longrightarrow> array_length W' = array_length W"
  by (auto simp: array_length_def split: option.splits)

lemma remove_entry_progress:
  "remove_entry i W = Inr (i', W') \<Longrightarrow>
    array_length W' = array_length W \<and> i' + 1 = i \<and> pa_count (polls W') < pa_count (polls W)"
  by (auto simp: remove_entry_def dest!: remove_poll_fd_length intro!: array_length_eq)

lemma reject_entry_progress:
  "reject_entry P f i W = Inr (i', W') \<Longrightarrow>
    array_length W' = array_length W \<and> i' + 1 = i \<and> pa_count (polls W') < pa_count (polls W)"
  by (auto simp: reject_entry_def array_length_def dest!: push_frame remove_entry_progress)

lemma accept_client_progress:
  "accept_client P l f W = Inr W' \<Longrightarrow> array_length W' = array_length W"
  by (auto simp: accept_client_def Let_def split: if_splits dest!: push_frame add_poll_fd_length
      intro!: array_length_eq)

lemma array_length_polls: "polls W' = polls W \<Longrightarrow> array_length W' = array_length W"
  by (simp add: array_length_def)

lemma listen_entry_progress:
  assumes r: "listen_entry P l ls i W = Inr (i', W')"
  shows "i < array_length W \<and> array_length W' = array_length W \<and>
    (i' = i \<or> i' + 1 = i \<and> pa_count (polls W') < pa_count (polls W))"
proof -
  from r obtain xs where xs: "fds (polls W) = Some xs" "i < length xs"
    by (auto simp: listen_entry_def split: option.splits)
  then have len: "i < array_length W" by (simp add: array_length_def)
  from r xs obtain m where "remove_entry i W = Inr (i', W') \<or> reject_entry P (fd (xs ! i)) i W = Inr (i', W') \<or>
      (\<exists>W1. push P (fd (xs ! i)) WORK_STATUS_READY_TO_SEND W = Inr W1 \<and> W' = W1 \<and> i' = i) \<or>
      (\<exists>W1. accept_client P l (fd (xs ! i)) W = Inr W1 \<and> W' = W1 \<and> i' = i) \<or>
      (\<exists>ret W1. handle_request_async P (fd (xs ! i)) W = Inr (ret, W1) \<and>
         (reject_entry P (fd (xs ! i)) i W1 = Inr (i', W') \<or> W' = W1 \<and> i' = i)) \<or> W' = W \<and> i' = i"
    unfolding listen_entry_def Let_def by (simp split: if_splits) blast+
  then show ?thesis
    using len by (elim disjE exE conjE)
      (auto dest!: remove_entry_progress reject_entry_progress accept_client_progress
        dest: push_frame [THEN conjunct1, THEN array_length_polls]
          handle_request_frame [THEN array_length_polls] handle_request_frame)
qed

function listen_scan :: "('b, 'p) platform \<Rightarrow> int \<Rightarrow> int \<Rightarrow> nat \<Rightarrow> ('b, 'p) server \<Rightarrow> ('b, 'p) server result" where
  "listen_scan P listener listener_ssl i W =
     (if i < pa_count (polls W)
      then and_then (listen_entry P listener listener_ssl i W) (\<lambda>(i', W').
             listen_scan P listener listener_ssl (i' + 1) W')
      else Inr W)"
  by pat_completeness auto
termination
  by (relation "measures [\<lambda>(P, l, ls, i, W). array_length W - i, \<lambda>(P, l, ls, i, W). pa_count (polls W)]")
    (auto dest!: listen_entry_progress)

declare listen_scan.simps [simp del]

text \<open>
  One pass of the outer loop. \<open>ppoll\<close> returns the number of ready entries and fills in their
  \<open>revents\<close>; the number is kept in a \<open>char\<close>.
\<close>

definition to_char :: "int \<Rightarrow> int" where
  "to_char n = (n + 128) mod 256 - 128"

definition set_revents :: "(nat \<Rightarrow> 16 word) \<Rightarrow> poll_array \<Rightarrow> poll_array" where
  "set_revents evs pa = pa\<lparr>fds := map_option (\<lambda>xs.
     map (\<lambda>j. (xs ! j)\<lparr>revents := (if j < pa_count pa then evs j else revents (xs ! j))\<rparr>) [0..<length xs]) (fds pa)\<rparr>"

definition listen_round :: "('b, 'p) platform \<Rightarrow> int \<Rightarrow> int \<Rightarrow> int \<times> (nat \<Rightarrow> 16 word) \<Rightarrow> ('b, 'p) server \<Rightarrow>
    ('b, 'p) server result" where
  "listen_round P listener listener_ssl polled W =
     assert_that ''count > 0'' (0 < pa_count (polls W)) (
     let (ppoll_ret, evs) = polled;
         event_count = to_char ppoll_ret;
         W1 = (if ppoll_ret < 0 then W else W\<lparr>polls := set_revents evs (polls W)\<rparr>)
     in if event_count < 0
        then assert_that ''error_class != RESET'' (classify_poll_error (p_errno P) \<noteq> RESET) (Inr W1)
        else listen_scan P listener listener_ssl 0 W1)"

section \<open>What a read does to the table\<close>

lemma push_job_server:
  assumes "cache_wf (cache (sw W))" and "k < session_count (cache (sw W))"
    and "WORK_STATUS_PROCESSING \<in> j_marks (jobs (cache (sw W)) ! k)" and "st \<noteq> WORK_STATUS_REJECTED"
  shows "push P (j_fd (jobs (cache (sw W)) ! k)) st W =
    Inr (W\<lparr>sw := (sw W)\<lparr>cache := given_cache k st (cache (sw W)),
                         broadcasts := broadcasts (sw W) @ woken st\<rparr>\<rparr>)"
  using push_job [OF assms] by (simp add: push_def)

text \<open>A busy session is not read for, and the listener cannot give back what it does not hold.\<close>

lemma busy_job:
  assumes wf: "cache_wf (cache (sw W))" and k: "k < session_count (cache (sw W))"
    and busy: "\<not> readable_job (jobs (cache (sw W)) ! k)"
  shows "handle_request_async P (j_fd (jobs (cache (sw W)) ! k)) W = Inr (-1, W)"
  using busy by (simp add: handle_request_async_def fetch_job [OF wf k])

lemma objects_taken [simp]:
  "buffers (taken k sc) = buffers sc" "requests (taken k sc) = requests sc"
  "responses (taken k sc) = responses sc" "bios (taken k sc) = bios sc" "ssl_array (taken k sc) = ssl_array sc"
  by (simp_all add: taken_def)

lemma job_objects:
  assumes "cache_wf sc" and "k < session_count sc" and "p = j_slot (jobs sc ! k)"
  shows "buffers sc p = j_buffer (jobs sc ! k)" and "requests sc p = j_request (jobs sc ! k)"
    and "responses sc p = j_response (jobs sc ! k)" and "bio_fd (bios sc p) = j_fd (jobs sc ! k)"
  using job_bio [OF assms(1,2)] assms by (simp_all add: nth_jobs job_at_def)

text \<open>An idle plain session whose request has arrived is read and handed to the parsers.\<close>

lemma read_job:
  assumes wf: "cache_wf (cache (sw W))" and k: "k < session_count (cache (sw W))"
    and j: "j = jobs (cache (sw W)) ! k" "readable_job j" "\<not> is_ssl (j_request j)"
    and rd: "recv_bio (p_libc P) (p_bio P) (bio_state W (j_fd j)) (j_buffer j) = Inr (n, s', b')"
    and n: "0 < n" and b': "buffer_wf b'"
  shows "\<exists>W'. handle_request_async P (j_fd j) W = Inr (0, W') \<and> cache_wf (cache (sw W')) \<and>
    jobs (cache (sw W')) = (jobs (cache (sw W)))[k := j\<lparr>j_marks := insert WORK_STATUS_REQUEST_READ (j_marks j - {WORK_STATUS_PROCESSING}),
      j_buffer := b'\<rparr>] \<and> bio_state W' = (bio_state W)(j_fd j := s') \<and> polls W' = polls W \<and>
    marked_fds (sw W') = marked_fds (sw W) \<and> broadcasts (sw W') = broadcasts (sw W) @ [request_read_cond]"
proof -
  let ?sc = "cache (sw W)"
  let ?p = "j_slot j"
  let ?t = "taken k ?sc"
  have wt: "cache_wf ?t" using wf k by (rule cache_wf_taken)
  have jt: "jobs ?t ! k = take_job j" "j_slot (jobs ?t ! k) = ?p"
    using jobs_taken [OF wf k] k wf j(1) by (simp_all add: take_job_def)
  note obj = job_objects [OF wf k, of ?p]
  let ?u = "set_buffer ?p b' ?t"
  have wu: "cache_wf ?u" using wt b' by (rule cache_wf_set_buffer)
  have ju: "jobs ?u = (jobs ?sc)[k := (take_job j)\<lparr>j_buffer := b'\<rparr>]"
    using jobs_set_buffer [OF wt, of k b'] jt jobs_taken [OF wf k] k j(1) by simp
  let ?W = "W\<lparr>sw := (sw W)\<lparr>cache := ?u\<rparr>, bio_state := (bio_state W)(j_fd j := s')\<rparr>"
  have jk: "jobs ?u ! k = (take_job j)\<lparr>j_buffer := b'\<rparr>" using ju k wf by simp
  have push: "push P (j_fd j) WORK_STATUS_REQUEST_READ ?W = Inr (?W\<lparr>sw := (sw ?W)\<lparr>cache := given_cache k WORK_STATUS_REQUEST_READ ?u,
      broadcasts := broadcasts (sw W) @ [request_read_cond]\<rparr>\<rparr>)"
    using push_job_server [of ?W k WORK_STATUS_REQUEST_READ P] wu k jk by (simp add: take_job_def woken_def)
  have "handle_request_async P (j_fd j) W = after_read P (j_fd j) n (BIO_should_retry (p_bio P) s' \<noteq> 0) ?W"
    using j(2,3) rd fetch_job [OF wf k] return_job [OF wf k refl] obj j(1)
    by (simp add: handle_request_async_def read_plain_def Let_def)
  then have h: "handle_request_async P (j_fd j) W = Inr (0, ?W\<lparr>sw := (sw ?W)\<lparr>cache := given_cache k WORK_STATUS_REQUEST_READ ?u,
      broadcasts := broadcasts (sw W) @ [request_read_cond]\<rparr>\<rparr>)"
    using n push by (simp add: after_read_def)
  have "jobs (given_cache k WORK_STATUS_REQUEST_READ ?u) = (jobs ?sc)[k := give_job WORK_STATUS_REQUEST_READ (jobs ?u ! k)]"
    using jobs_given [OF wu] k ju by simp
  also have "give_job WORK_STATUS_REQUEST_READ (jobs ?u ! k) =
      j\<lparr>j_marks := insert WORK_STATUS_REQUEST_READ (j_marks j - {WORK_STATUS_PROCESSING}), j_buffer := b'\<rparr>"
    by (simp add: jk give_job_def take_job_def)
  finally show ?thesis using h cache_wf_given [OF wu, of k] k by simp
qed

section \<open>A small server for the examples\<close>

text \<open>Two slots; a listening socket 5 and two clients, of which the first has sent a request.\<close>

definition demo_platform :: "(string, unit) platform" where
  "demo_platform = \<lparr>p_libc = roomy, p_env = demo_env, p_props = default_properties, p_bio = eager_bio,
     p_ssl = fresh_ssl, p_sockets = no_descriptors, p_errno = 4, p_so_error = (\<lambda>_ _. Some 0),
     p_new_bio = (\<lambda>_. []), p_new_ssl = (\<lambda>_. ())\<rparr>"

definition demo_server :: "8 word \<Rightarrow> (string, unit) server" where
  "demo_server s = \<lparr>sw = (demo_world 2 [(2, s), (3, 3)])\<lparr>marked_fds := init_marked_fds 64\<rparr>,
     polls = \<lparr>fds = Some [\<lparr>fd = 5, events = POLLIN, revents = 0\<rparr>, \<lparr>fd = 2, events = POLLIN, revents = POLLIN\<rparr>,
       \<lparr>fd = 3, events = POLLIN, revents = 0\<rparr>], pa_count = 3, last_in_index = 1, max_count = 3\<rparr>,
     bio_state = (\<lambda>f. if f = 2 then ''GET / HTTP/1.1'' else []), ssl_state = (\<lambda>_. ())\<rparr>"

lemma demo_server_wf: "cache_wf (cache (sw (demo_server s)))"
  by (simp add: demo_server_def cache_wf_def demo_world_def lockstep_def conn_table_def slots_def conn_at_def
      buffer_wf_def spare_def two_slots)

lemma demo_server_jobs: "jobs (cache (sw (demo_server s))) =
    [\<lparr>j_slot = 0, j_fd = 2, j_marks = marks_of s, j_buffer = no_buffer, j_request = zero_request, j_response = zero_response\<rparr>,
     \<lparr>j_slot = 1, j_fd = 3, j_marks = marks_of 3, j_buffer = no_buffer, j_request = zero_request, j_response = zero_response\<rparr>]"
  by (simp add: demo_server_def demo_world_def jobs_def job_at_def slots_def two_slots)

lemma demo_server_count [simp]: "session_count (cache (sw (demo_server s))) = 2"
  by (simp add: demo_server_def demo_world_def)

lemma marks_of_0: "marks_of 0 = {}"
  by (auto simp: marks_of_mem)

lemma marks_of_request_read: "marks_of 2 = {WORK_STATUS_REQUEST_READ}"
proof (rule set_eqI)
  fix x show "x \<in> marks_of 2 \<longleftrightarrow> x \<in> {WORK_STATUS_REQUEST_READ}"
    by (cases x) (simp_all add: marks_of_mem bit_simps)
qed

section \<open>Properties\<close>

text \<open>
  From the wire to the parsers: when a request of up to 4095 bytes has arrived for an idle plain
  session, the listener's handler takes the session, fills its buffer with exactly the request and a
  NUL, marks it \<open>REQUEST_READ\<close>, wakes the parsers, and leaves every other session as it is.
\<close>

lemma request_received:
  assumes wf: "cache_wf (cache (sw W))" and k: "k < session_count (cache (sw W))"
    and j: "j = jobs (cache (sw W)) ! k" "readable_job j" "\<not> is_ssl (j_request j)"
    and empty: "count (j_buffer j) = 0" "capacity (j_buffer j) = 0 \<and> data (j_buffer j) = None \<or> capacity (j_buffer j) = 1024"
    and P: "bio_stream (p_bio P) arrived" "\<And>m. alloc_ok (p_libc P) m"
    and req: "arrived (bio_state W (j_fd j)) = req" "req \<noteq> []" "length req < 4096"
  shows "\<exists>W' b'. handle_request_async P (j_fd j) W = Inr (0, W') \<and> cache_wf (cache (sw W')) \<and>
    jobs (cache (sw W')) = (jobs (cache (sw W)))[k := j\<lparr>j_marks := insert WORK_STATUS_REQUEST_READ (j_marks j - {WORK_STATUS_PROCESSING}),
      j_buffer := b'\<rparr>] \<and>
    buffer_wf b' \<and> count b' = length req + 1 \<and> take (count b') (bytes b') = req @ [NUL] \<and>
    arrived (bio_state W' (j_fd j)) = [] \<and> broadcasts (sw W') = broadcasts (sw W) @ [request_read_cond]"
proof -
  have "buffer_wf (j_buffer j)" using job_buffer_wf [OF wf k] j(1) by simp
  from recv_bio_short [OF P this empty, of "bio_state W (j_fd j)", unfolded req(1), OF req(2,3)] obtain s' b' where
    rd: "recv_bio (p_libc P) (p_bio P) (bio_state W (j_fd j)) (j_buffer j) = Inr (int (length req) + 1, s', b')"
      "arrived s' = []" "buffer_wf b'" "count b' = length req + 1" "take (count b') (bytes b') = req @ [NUL]"
    by (elim exE conjE)
  from read_job [OF wf k j rd(1) _ rd(3)] rd show ?thesis by fastforce
qed

text \<open>
  A client that sends more data while its request waits for a worker ends the server: the handler
  finds the session busy and answers -1, the listener then pushes \<open>REJECTED\<close> for a session it does
  not hold, and \<open>push_request\<close> asserts that it does.
\<close>

lemma early_data_aborts:
  assumes wf: "cache_wf (cache (sw W))" and k: "k < session_count (cache (sw W))"
    and j: "j = jobs (cache (sw W)) ! k" "\<not> readable_job j" "WORK_STATUS_PROCESSING \<notin> j_marks j"
    and e: "fds (polls W) = Some xs" "i < length xs" "fd (xs ! i) = j_fd j" "revents (xs ! i) = POLLIN"
    and ok: "is_marked (j_fd j) (marked_fds (sw W)) = Inr False" "p_so_error P 0 (j_fd j) = Some 0"
    and l: "j_fd j \<noteq> listener" "j_fd j \<noteq> listener_ssl"
  shows "listen_entry P listener listener_ssl i W =
    Inl (Assert_failed ''*status_array[i] & WORK_STATUS_PROCESSING'')"
proof -
  have "push P (j_fd j) WORK_STATUS_REJECTED W = Inl (Assert_failed ''*status_array[i] & WORK_STATUS_PROCESSING'')"
    using push_job_unowned [OF wf k] j(1,3) by (simp add: push_def)
  then have "reject_entry P (j_fd j) i W = Inl (Assert_failed ''*status_array[i] & WORK_STATUS_PROCESSING'')"
    by (simp add: reject_entry_def)
  moreover have "handle_request_async P (j_fd j) W = Inr (-1, W)" using busy_job [OF wf k] j(1,2) by simp
  ultimately show ?thesis
    using e ok l by (simp add: listen_entry_def Let_def check_for_socket_error_def)
qed

text \<open>
  The number of ready descriptors is kept in a \<open>char\<close>: with 128 to 255 of them ready at once it is
  negative, the round is taken for a failed \<open>ppoll\<close>, and none of them is served.
\<close>

lemma many_ready_ignored:
  assumes "128 \<le> n" and "n < 256" and "0 < pa_count (polls W)" and "classify_poll_error (p_errno P) \<noteq> RESET"
  shows "\<exists>W'. listen_round P listener listener_ssl (n, evs) W = Inr W' \<and> sw W' = sw W \<and>
    map_option (map fd) (fds (polls W')) = map_option (map fd) (fds (polls W)) \<and>
    bio_state W' = bio_state W \<and> ssl_state W' = ssl_state W"
proof -
  have "(n + 128) mod 256 = n - 128"
    using assms(1,2) mod_add_self2 [of "n - 128" 256] by (simp add: add.commute)
  then have "to_char n < 0" using assms(2) by (simp add: to_char_def)
  moreover have "map fd (map (\<lambda>j. (xs ! j)\<lparr>revents := g j (xs ! j)\<rparr>) [0..<length xs]) = map fd xs" for xs g
    by (rule nth_equalityI) simp_all
  then have "map_option (map fd) (fds (set_revents evs (polls W))) = map_option (map fd) (fds (polls W))"
    by (cases "fds (polls W)") (simp_all add: set_revents_def)
  ultimately show ?thesis
    using assms by (simp add: listen_round_def Let_def)
qed

end
