(* ===== verification/CString.thy ===== *)
theory CString
  imports CBase
begin

text \<open>
  The string functions of the C library the program uses, on a string as the list of its characters
  without the terminating NUL. The program never calls \<open>setlocale\<close>, so the locale is "C".
\<close>

section \<open>Characters\<close>

definition code :: "char \<Rightarrow> nat" where
  "code c = of_char c"

definition between :: "nat \<Rightarrow> nat \<Rightarrow> char \<Rightarrow> bool" where
  "between lo hi c \<longleftrightarrow> lo \<le> code c \<and> code c \<le> hi"

definition is_upper :: "char \<Rightarrow> bool" where "is_upper = between 65 90"
definition is_lower :: "char \<Rightarrow> bool" where "is_lower = between 97 122"
definition is_digit :: "char \<Rightarrow> bool" where "is_digit = between 48 57"
definition is_space :: "char \<Rightarrow> bool" where "is_space c \<longleftrightarrow> between 9 13 c \<or> code c = 32"

definition tolower :: "char \<Rightarrow> char" where
  "tolower c = (if is_upper c then char_of (code c + 32) else c)"

section \<open>Memory and strings\<close>

definition cstr :: "string \<Rightarrow> string" where
  "cstr mem = takeWhile (\<lambda>c. c \<noteq> CHR 0x00) mem"

definition strcasecmp_eq :: "string \<Rightarrow> string \<Rightarrow> bool" where
  "strcasecmp_eq s t \<longleftrightarrow> map tolower s = map tolower t"

definition strncmp_eq :: "string \<Rightarrow> string \<Rightarrow> nat \<Rightarrow> bool" where
  "strncmp_eq s t n \<longleftrightarrow> take n s = take n t"

definition strncasecmp_eq :: "string \<Rightarrow> string \<Rightarrow> nat \<Rightarrow> bool" where
  "strncasecmp_eq s t n \<longleftrightarrow> map tolower (take n s) = map tolower (take n t)"

fun starts_with :: "string \<Rightarrow> string \<Rightarrow> bool" where
  "starts_with [] s = True"
| "starts_with (c # p) [] = False"
| "starts_with (c # p) (d # s) = (c = d \<and> starts_with p s)"

text \<open>The position of the first occurrence: \<open>strstr\<close> returns the suffix there, or \<open>NULL\<close>.\<close>

fun strstr :: "string \<Rightarrow> string \<Rightarrow> string option" where
  "strstr [] p = (if p = [] then Some [] else None)"
| "strstr (c # s) p = (if starts_with p (c # s) then Some (c # s) else strstr s p)"

definition strcasestr :: "string \<Rightarrow> string \<Rightarrow> bool" where
  "strcasestr s p \<longleftrightarrow> strstr (map tolower s) (map tolower p) \<noteq> None"

text \<open>
  \<open>strtok_r(str, delim, &saveptr)\<close>: the token and the string \<open>saveptr\<close> points at afterwards, one
  past the delimiter that ends the token.
\<close>

definition strtok_r :: "(char \<Rightarrow> bool) \<Rightarrow> string \<Rightarrow> (string \<times> string) option" where
  "strtok_r delim s =
     (let s1 = dropWhile delim s
      in if s1 = [] then None
         else Some (takeWhile (\<lambda>c. \<not> delim c) s1, drop 1 (dropWhile (\<lambda>c. \<not> delim c) s1)))"

text \<open>\<open>strtol(s, NULL, 10)\<close> with \<open>long\<close> of 64 bits: leading space, sign, digits, saturation.\<close>

definition digits_value :: "string \<Rightarrow> int" where
  "digits_value ds = foldl (\<lambda>v c. v * 10 + (int (code c) - 48)) 0 ds"

definition strtol10 :: "string \<Rightarrow> int" where
  "strtol10 s =
     (let s1 = dropWhile is_space s;
          neg = (case s1 of c # _ \<Rightarrow> c = CHR ''-'' | [] \<Rightarrow> False);
          s2 = (case s1 of c # r \<Rightarrow> if c = CHR ''-'' \<or> c = CHR ''+'' then r else s1 | [] \<Rightarrow> []);
          v = digits_value (takeWhile is_digit s2)
      in max (- (2 ^ 63)) (min (2 ^ 63 - 1) (if neg then - v else v)))"

text \<open>\<open>snprintf(dst, size, "%s%s", a, b)\<close>: what \<open>dst\<close> holds and the value returned.\<close>

definition snprintf_str :: "nat \<Rightarrow> string \<Rightarrow> string \<times> nat" where
  "snprintf_str n s = (take (n - 1) s, length s)"

section \<open>Facts\<close>

lemma starts_with_iff: "starts_with p s \<longleftrightarrow> (\<exists>t. s = p @ t)"
  by (induction p s rule: starts_with.induct) auto

lemma strstr_Some: "strstr s p = Some t \<Longrightarrow> \<exists>pre post. s = pre @ t \<and> t = p @ post"
proof (induction s p rule: strstr.induct)
  case (1 p)
  then show ?case by (auto split: if_splits)
next
  case (2 c s p)
  show ?case
  proof (cases "starts_with p (c # s)")
    case True
    then show ?thesis using 2 by (auto simp: starts_with_iff)
  next
    case False
    then obtain pre post where "s = pre @ t" "t = p @ post" using 2 by auto
    then have "c # s = (c # pre) @ t \<and> t = p @ post" by simp
    then show ?thesis by blast
  qed
qed

lemma strstr_None: "strstr s p = None \<longleftrightarrow> (\<forall>a b. s \<noteq> a @ p @ b)"
proof (induction s p rule: strstr.induct)
  case (1 p)
  then show ?case by auto
next
  case (2 c s p)
  have "(\<forall>a b. c # s \<noteq> a @ p @ b) \<longleftrightarrow> \<not> starts_with p (c # s) \<and> (\<forall>a b. s \<noteq> a @ p @ b)"
  proof -
    have "(\<exists>a b. c # s = a @ p @ b) \<longleftrightarrow> starts_with p (c # s) \<or> (\<exists>a b. s = a @ p @ b)"
    proof
      assume "\<exists>a b. c # s = a @ p @ b"
      then obtain a b where ab: "c # s = a @ p @ b" by blast
      then show "starts_with p (c # s) \<or> (\<exists>a b. s = a @ p @ b)"
        by (cases a) (auto simp: starts_with_iff)
    next
      assume "starts_with p (c # s) \<or> (\<exists>a b. s = a @ p @ b)"
      then show "\<exists>a b. c # s = a @ p @ b"
        by (elim disjE exE) (metis append_Nil starts_with_iff, metis append_Cons)
    qed
    then show ?thesis by blast
  qed
  then show ?case using 2 by simp
qed

lemma strtok_r_Some:
  assumes "strtok_r d s = Some (t, r)"
  shows "\<exists>pre post. s = pre @ t @ post \<and> (\<forall>c \<in> set pre. d c) \<and> t \<noteq> [] \<and> (\<forall>c \<in> set t. \<not> d c) \<and>
    (post = [] \<and> r = [] \<or> (\<exists>c. post = c # r \<and> d c))"
proof -
  obtain c u where u: "dropWhile d s = c # u"
    using assms by (cases "dropWhile d s") (auto simp: strtok_r_def)
  have c: "\<not> d c" using hd_dropWhile [of d s] u by simp
  have t: "t = c # takeWhile (\<lambda>c. \<not> d c) u" and r: "r = drop 1 (dropWhile (\<lambda>c. \<not> d c) u)"
    using assms u c by (auto simp: strtok_r_def)
  have s: "s = takeWhile d s @ t @ dropWhile (\<lambda>c. \<not> d c) u"
    using takeWhile_dropWhile_id [of d s] unfolding t u by simp
  have post: "dropWhile (\<lambda>c. \<not> d c) u = [] \<and> r = [] \<or>
      (\<exists>c. dropWhile (\<lambda>c. \<not> d c) u = c # r \<and> d c)"
  proof (cases "dropWhile (\<lambda>c. \<not> d c) u")
    case Nil
    then have "r = []" unfolding r by (simp only: drop_Nil)
    with Nil show ?thesis by simp
  next
    case (Cons x xs)
    then show ?thesis using hd_dropWhile [of "\<lambda>c. \<not> d c" u] by (simp add: r)
  qed
  have "\<forall>x \<in> set (takeWhile d s). d x" by (auto dest: set_takeWhileD)
  moreover have "\<forall>x \<in> set t. \<not> d x" unfolding t using c by (auto dest: set_takeWhileD)
  moreover have "t \<noteq> []" by (simp add: t)
  ultimately show ?thesis using s post by blast
qed

lemma strtok_r_shorter: "strtok_r d s = Some (t, r) \<Longrightarrow> length r < length s"
  by (drule strtok_r_Some) auto

lemma strtok_r_None: "strtok_r d s = None \<longleftrightarrow> (\<forall>c \<in> set s. d c)"
  by (auto simp: strtok_r_def Let_def dropWhile_eq_Nil_conv)

end
