(* ===== verification/StaticFiles.thy ===== *)
theory StaticFiles
  imports CString Buffer
begin

text \<open>
  \<^verbatim>\<open>src/static.c\<close> and \<^verbatim>\<open>src/utils/static_file.c\<close>: which file a URI names, and the files below
  \<^verbatim>\<open>static/\<close>. The file system is an argument: \<open>realpath\<close>, the kind and readability of a path, and
  the contents of the regular files.
\<close>

section \<open>The whitelist\<close>

definition static_names :: "string list" where
  "static_names = [
    ''style.css'',
    ''0975d534f3bf2b637270fa1ddf405661bbac3759a8dace84d07b685050c6e628.png'',
    ''69b03fbd0ca6cabdffd278e4baf016b29850b744701bff9dc93454eb84a09e6a.png'',
    ''145d91af1f648f5a56b13d18c19de330ad52b7657f6962c71de81042a0f5b4dc.png'',
    ''70fa446d6596731fdfa30f73647f4118eedfa3d78492a25f400986d6cc072e5c.png'',
    ''1d25c8476099865726b9a1e2123bd3d0f282e740247cd9c7f9034a6ab92a12bd.png'',
    ''8153f517515384e8234f5c9f3f9e768e217c7e693a82035845fbee5e1747f666.png'',
    ''210a8c166fdf0ccd14563af74a3907425888ef4d80a2a8526ede2a95ea687811.png'',
    ''8648ad9cbe5bd20a40d762c8e3d7f1b91c8d431dd916e17e4eebbdee108c7d52.png'',
    ''8c740dc36c91eceffb6c253223a539daf9183f221e2797ebaecdd1460ad34004.gif'',
    ''3a7a9d67fc25b9320a3d9951ea173a704f4d709504ddb63e7b68ce32224af2a8.png'',
    ''8eb84b4dc5a3348241ab32975518c0bf172fe5672d49eba93c4035c4122ca123.png'',
    ''3ba0dd359074d43ae207bcbc1123dc6877bf960808ee48f1fa857928608a65b1.png'',
    ''999d31eaaad2c92075ba67a078e7c5e46e0f994eb9e34b403f0d1fa05655d293.png'',
    ''3bbe7d9a652ba2780faecceb9e4fea270541de2a53209361fa450a82b6c55d21.png'',
    ''a29473724c503d01d2362544a422dc9400917c2885388acbc5ce6104344b1c2d.png'',
    ''3ecffa9f8be1d43cd9a7b309514ef456cc6b56e8654503f77ddfe26a7237590a.png'',
    ''a51f173624c7bb1f1605e6b6be6c28620a9411b2e8e7bd6a4dd2f3944bccb489.png'',
    ''3efed1a4e31cfc31aa8309a8335b9e1eced1ad8f4df6767ea08a8194da44d9c9.png'',
    ''adbc5ee112e14f8e5de7d00433a26929536b7173067e7e7dfa515c6ff2f56f09.png'',
    ''3ffc46fac626f6cd38b0f714aad34bcfc5d1839103dcb4c0c8ddb80459bc124a.png'',
    ''cb4157a69bfdcef2448645ddab47e60391ba03e5a2caaa7480711a47362b6478.png'',
    ''41332ce122eb61d15209743301eeb414ac602bfabde770813936bd1826665eca.png'',
    ''dd10071f8d4e0d4feb4a16e89416ccf077455508e169be446c6f03d6cf0c7830.png'',
    ''427846088631e78a1dcdab8eef163ca3ea69a700246752cf38357553cca40f17.png'',
    ''df8e92aa091dd2f54114fd8c417d0fbffd3d8d3351a5c2f09ff0b14207175756.png'',
    ''4c52669371549f48d7c9e9a2ce0ff5c74e2d14d3da77b880df00b9a1dd80e3e5.png'',
    ''e4880dbd9ffd0651623e8f16b266e24baad255aec6fe6cfdcdabf3155b08e5c2.png'',
    ''4fc0cac0e8a608b8622e6bf4265dfd29bf6c1584330a461a0d914f5b2a9c358b.png'',
    ''e6a6d5ba2c72380dc83a4db0ce941a399e2fbc0e644a6f91b5e3686e163ff1c0.png'',
    ''57d7abd64acf4b4570ddc963d25a51c66268b6c77858c6bcd85eb255d5daa363.png'',
    ''e6f1244905e3e7b87c73d31adec2531a6cf32788815cfec10b3a634c8af32c16.png'',
    ''58215b9adc045b1ea48e48bc402af26901a96a8bea4dc4ca54cba3b3930d912e.png'',
    ''5bfa0a1a1cc92156513e4f773f8a49e4b8a9ac91bf934c230827861835891438.png'',
    ''ff7da19901c921781f87d5ad417f4bbd9246602c732e6dfd2f9313c0100b1ba5.png'']"

definition uri_to_file_name :: "string list \<Rightarrow> string option" where
  "uri_to_file_name uri =
     (if uri ! 0 = [] then Some ''index.html''
      else if strncmp_eq (uri ! 0) ''favicon'' 7 then Some ''favicon.png''
      else if uri ! 0 = ''projects'' \<and> uri ! 1 \<noteq> [] \<and> uri ! 2 = [] then Some ''project.html''
      else if uri ! 0 = ''posts'' \<and> uri ! 1 \<noteq> [] \<and> uri ! 2 = [] then Some ''post.html''
      else find (\<lambda>name. uri ! 0 = name) static_names)"

section \<open>Paths\<close>

abbreviation PATH_MAX :: nat where "PATH_MAX \<equiv> 4096"
abbreviation STATIC_PATH :: string where "STATIC_PATH \<equiv> ''static/''"

record file_system =
  realpath :: "string \<Rightarrow> string option"
  regular :: "string \<Rightarrow> bool"
  readable :: "string \<Rightarrow> bool"
  contents :: "string \<Rightarrow> string option"   \<comment> \<open>what \<open>fopen\<close> finds to read\<close>
  writable :: "string \<Rightarrow> bool"            \<comment> \<open>can \<open>fopen\<close> create or truncate it\<close>
  mtime :: "string \<Rightarrow> int option"

definition is_safe_path :: "string \<Rightarrow> bool" where
  "is_safe_path input =
     (if take 1 input = ''/'' \<or> strstr input ''//'' \<noteq> None then False
      else if strstr input ''..'' \<noteq> None then False
      else if CHR 0x5C \<in> set input then False
      else True)"

definition find_static_file :: "file_system \<Rightarrow> string \<Rightarrow> bool" where
  "find_static_file F uri =
     (if \<not> is_safe_path uri then False
      else let (full_path, needed) = snprintf_str PATH_MAX (STATIC_PATH @ uri) in
        if PATH_MAX \<le> needed then False
        else case realpath F STATIC_PATH of
          None \<Rightarrow> False
        | Some static_root \<Rightarrow>
            (case realpath F full_path of
               None \<Rightarrow> False
             | Some resolved_path \<Rightarrow>
                 let root_len = length static_root in
                 if \<not> strncmp_eq resolved_path static_root root_len \<or>
                    (take 1 (drop root_len resolved_path) \<noteq> ''/'' \<and> drop root_len resolved_path \<noteq> [])
                 then False
                 else if \<not> regular F resolved_path \<or> \<not> readable F resolved_path then False
                 else True))"

text \<open>\<open>full_path\<close> of the functions that take the name of a file: 512 + 8 bytes.\<close>

definition static_path :: "string \<Rightarrow> string" where
  "static_path file_path = fst (snprintf_str 520 (STATIC_PATH @ file_path))"

definition read_static_file :: "libc \<Rightarrow> file_system \<Rightarrow> string \<Rightarrow> buffer \<Rightarrow> (int \<times> buffer) result" where
  "read_static_file L F file_path b =
     (case contents F (static_path file_path) of
        None \<Rightarrow> Inl (Assert_failed ''file != NULL'')
      | Some f \<Rightarrow>
          let n = length f in
          assert_that ''size > 0'' (0 < n) (
          and_then (assert_capacity L b (n + 1)) (\<lambda>b1.
          let chunk = take (capacity b1) f; read_size = length chunk in
          and_then (write_bytes 0 chunk b1) (\<lambda>b2.
          and_then (write_bytes read_size [NUL] b2) (\<lambda>b3.
          assert_that ''read_size > 0'' (0 < read_size) (
          Inr (to_int32 (int read_size), b3\<lparr>count := read_size\<rparr>)))))))"

definition get_last_modified :: "file_system \<Rightarrow> string \<Rightarrow> int result" where
  "get_last_modified F file_path =
     (case mtime F (static_path file_path) of
        None \<Rightarrow> Inl (Assert_failed ''stat(full_path, &file_stat) == 0'')
      | Some t \<Rightarrow> Inr (to_int32 t))"

definition write_static_file :: "string \<Rightarrow> string \<Rightarrow> file_system \<Rightarrow> (int \<times> file_system) result" where
  "write_static_file file_name bs F =
     assert_that ''file != NULL'' (writable F (static_path file_name)) (
     assert_that ''write_size > 0'' (bs \<noteq> []) (
       Inr (to_int32 (int (length bs)), F\<lparr>contents := (contents F)(static_path file_name \<mapsto> bs)\<rparr>)))"

section \<open>Only whitelisted names are served\<close>

definition plain_name :: "string \<Rightarrow> bool" where
  "plain_name name \<longleftrightarrow> is_safe_path name \<and> name \<noteq> [] \<and> length name \<le> 512 \<and>
     CHR ''/'' \<notin> set name \<and> CHR 0x00 \<notin> set name"

lemma static_names_plain: "list_all plain_name static_names"
  by code_simp

lemma fixed_names_plain:
  "list_all plain_name [''index.html'', ''favicon.png'', ''project.html'', ''post.html'']"
  by code_simp

lemma find_Some_mem: "find P xs = Some x \<Longrightarrow> x \<in> set xs \<and> P x"
  by (induction xs) (auto split: if_splits)

lemma uri_to_file_name_plain: "uri_to_file_name uri = Some name \<Longrightarrow> plain_name name"
  using static_names_plain fixed_names_plain
  by (auto simp: uri_to_file_name_def list_all_iff split: if_splits dest: find_Some_mem)

lemma static_path_short: "length p \<le> 512 \<Longrightarrow> static_path p = STATIC_PATH @ p"
  by (simp add: static_path_def snprintf_str_def)

text \<open>
  Whatever tokens a request line holds, the file it names is one of the fixed names: a plain file
  name without a slash, a backslash or "..", that passes \<open>is_safe_path\<close> and fits the path buffers.
\<close>

lemma uri_names_plain_file:
  assumes "uri_to_file_name uri = Some name"
  shows "is_safe_path name \<and> CHR ''/'' \<notin> set name \<and> static_path name = STATIC_PATH @ name \<and>
    name \<in> set (''index.html'' # ''favicon.png'' # ''project.html'' # ''post.html'' # static_names)"
proof -
  have "name \<in> set (''index.html'' # ''favicon.png'' # ''project.html'' # ''post.html'' # static_names)"
    using assms by (auto simp: uri_to_file_name_def split: if_splits dest: find_Some_mem)
  then show ?thesis
    using uri_to_file_name_plain [OF assms] by (auto simp: plain_name_def static_path_short)
qed

section \<open>Confinement\<close>

lemma is_safe_path_iff:
  "is_safe_path p \<longleftrightarrow> take 1 p \<noteq> ''/'' \<and> (\<forall>a b. p \<noteq> a @ ''//'' @ b) \<and> (\<forall>a b. p \<noteq> a @ ''..'' @ b) \<and>
     CHR 0x5C \<notin> set p"
  using strstr_None [of p "''//''"] strstr_None [of p "''..''"]
  unfolding is_safe_path_def by (cases "strstr p ''//''"; cases "strstr p ''..''") auto

text \<open>
  C12: a path that \<open>find_static_file\<close> accepts names a readable regular file that \<open>realpath\<close> places in
  the static directory itself: its resolved name is that directory's followed by "/" and a rest
  (or, if that were a regular file, the directory). This holds for every argument and file system,
  symbolic links included. Accepted arguments are relative, without "//", ".." or backslash.
\<close>

theorem static_file_confined:
  assumes "find_static_file F uri"
  shows "\<exists>root resolved. realpath F ''static/'' = Some root \<and> realpath F (''static/'' @ uri) = Some resolved \<and>
    (resolved = root \<or> (\<exists>rest. resolved = root @ ''/'' @ rest)) \<and> regular F resolved \<and> readable F resolved \<and>
    take 1 uri \<noteq> ''/'' \<and> (\<forall>a b. uri \<noteq> a @ ''..'' @ b) \<and> length uri < PATH_MAX - 7"
proof -
  have safe: "is_safe_path uri" using assms by (auto simp: find_static_file_def split: if_splits)
  obtain root resolved where len: "\<not> PATH_MAX \<le> length (STATIC_PATH @ uri)"
    and root: "realpath F STATIC_PATH = Some root"
    and res: "realpath F (fst (snprintf_str PATH_MAX (STATIC_PATH @ uri))) = Some resolved"
    and pre: "strncmp_eq resolved root (length root)"
    and sep: "take 1 (drop (length root) resolved) = ''/'' \<or> drop (length root) resolved = []"
    and reg: "regular F resolved" "readable F resolved"
    using assms
    by (auto simp: find_static_file_def snprintf_str_def Let_def split: if_splits option.splits)
  have full: "fst (snprintf_str PATH_MAX (STATIC_PATH @ uri)) = STATIC_PATH @ uri"
    using len by (simp add: snprintf_str_def)
  have head: "take (length root) resolved = root" using pre by (simp add: strncmp_eq_def)
  have split: "resolved = root @ drop (length root) resolved"
    using append_take_drop_id [of "length root" resolved] head by simp
  have "resolved = root \<or> (\<exists>rest. resolved = root @ ''/'' @ rest)"
  proof (cases "drop (length root) resolved")
    case Nil
    then show ?thesis using split by simp
  next
    case (Cons c rest)
    then show ?thesis using split sep by auto
  qed
  moreover have "length uri < PATH_MAX - 7" using len by simp
  ultimately show ?thesis
    using root res [unfolded full] reg safe [unfolded is_safe_path_iff] by blast
qed

definition demo_fs :: file_system where
  "demo_fs = \<lparr>realpath = (\<lambda>p. if p = ''static/'' then Some ''/srv/static''
       else if p = ''static/a.css'' then Some ''/srv/static/a.css'' else None),
     regular = (\<lambda>p. p = ''/srv/static/a.css''), readable = (\<lambda>_. True),
     contents = (\<lambda>p. if p = ''static/a.css'' then Some ''b{}'' else None),
     writable = (\<lambda>_. False), mtime = (\<lambda>_. None)\<rparr>"

theorem static_file_confined_witness:
  "\<exists>root resolved. realpath demo_fs ''static/'' = Some root \<and>
     realpath demo_fs (''static/'' @ ''a.css'') = Some resolved \<and>
     (resolved = root \<or> (\<exists>rest. resolved = root @ ''/'' @ rest))"
proof -
  have "find_static_file demo_fs ''a.css''"
    by (simp add: find_static_file_def is_safe_path_def snprintf_str_def demo_fs_def Let_def strncmp_eq_def)
  from static_file_confined [OF this] show ?thesis by blast
qed

section \<open>Reading a file\<close>

lemma read_static_file_Inr:
  assumes wf: "buffer_wf b" and r: "read_static_file L F p b = Inr (r, b')"
  shows "\<exists>fl. contents F (static_path p) = Some fl \<and> fl \<noteq> [] \<and> r = to_int32 (int (length fl)) \<and>
    buffer_wf b' \<and> count b' = length fl \<and> length fl < capacity b' \<and>
    take (length fl) (bytes b') = fl \<and> bytes b' ! length fl = NUL"
proof -
  obtain fl b1 where fl: "contents F (static_path p) = Some fl" "0 < length fl"
    and b1: "assert_capacity L b (length fl + 1) = Inr b1"
    using r by (auto simp: read_static_file_def Let_def split: option.splits)
  note b1s = assert_capacity_Inr [OF wf b1]
  have all: "take (capacity b1) fl = fl" using b1s(2) by simp
  obtain b2 b3 where b2: "write_bytes 0 fl b1 = Inr b2"
    and b3: "write_bytes (length fl) [NUL] b2 = Inr b3"
    and eq: "r = to_int32 (int (length fl))" "b' = b3\<lparr>count := length fl\<rparr>"
    using r fl b1 all by (auto simp: read_static_file_def Let_def)
  note b2s = write_bytes_Inr [OF b1s(1) b2] and b3s = write_bytes_Inr [OF write_bytes_Inr(1) [OF b1s(1) b2] b3]
  have len: "length fl < capacity b3" using b1s(2) b2s(2) b3s(2) by simp
  have bytes2: "bytes b2 = fl @ drop (length fl) (bytes b1)" using b2s(4) by simp
  have bytes3: "bytes b3 = fl @ [NUL] @ drop (length fl + 1) (bytes b2)"
    unfolding b3s(4) by (simp add: bytes2)
  have "buffer_wf b'" using b3s(1) len by (simp add: eq buffer_wf_def split: option.splits)
  moreover have "bytes b' = bytes b3" by (simp add: eq bytes_def)
  ultimately show ?thesis using fl eq len bytes3 by (auto simp: nth_append)
qed

end
