(* ===== verification/Numerals.thy ===== *)
theory Numerals
  imports CString
begin

text \<open>
  Numbers as text: the \<open>%d\<close>/\<open>%ld\<close> and \<open>%02x\<close> conversions of \<open>snprintf\<close>, the two helpers of
  \<^verbatim>\<open>src/utils/bit.h\<close>, the hexadecimal digest of \<^verbatim>\<open>src/utils/hash.c\<close>, and the date format the
  responses use (\<open>gmtime\<close> and \<open>strftime\<close> with \<^verbatim>\<open>%a, %d %b %Y %H:%M:%S GMT\<close>).
\<close>

section \<open>Decimal\<close>

definition digit_char :: "nat \<Rightarrow> char" where
  "digit_char d = char_of (d + 48)"

fun show_nat :: "nat \<Rightarrow> string" where
  "show_nat n = (if n < 10 then [digit_char n] else show_nat (n div 10) @ [digit_char (n mod 10)])"

declare show_nat.simps [simp del]

definition show_int :: "int \<Rightarrow> string" where
  "show_int i = (if i < 0 then CHR ''-'' # show_nat (nat (- i)) else show_nat (nat i))"

lemma code_digit_char: "d < 10 \<Longrightarrow> code (digit_char d) = d + 48"
  by (simp add: code_def digit_char_def)

lemma is_digit_digit_char: "d < 10 \<Longrightarrow> is_digit (digit_char d)"
  by (simp add: is_digit_def between_def code_digit_char)

lemma show_nat_digits: "\<forall>c \<in> set (show_nat n). is_digit c"
  by (induction n rule: show_nat.induct) (subst show_nat.simps, auto simp: is_digit_digit_char)

lemma show_nat_nonempty: "show_nat n \<noteq> []"
  by (subst show_nat.simps) simp

lemma digits_value_append:
  "digits_value (s @ [c]) = digits_value s * 10 + (int (code c) - 48)"
  by (simp add: digits_value_def)

lemma digits_value_show: "digits_value (show_nat n) = int n"
proof (induction n rule: show_nat.induct)
  case (1 n)
  show ?case
  proof (cases "n < 10")
    case True
    then show ?thesis by (subst show_nat.simps) (simp add: digits_value_def code_digit_char)
  next
    case False
    then have "digits_value (show_nat n) = int (n div 10) * 10 + int (n mod 10)"
      using 1 by (subst show_nat.simps) (simp add: digits_value_append code_digit_char)
    also have "\<dots> = int n" by (metis div_mult_mod_eq of_nat_add of_nat_mult of_nat_numeral)
    finally show ?thesis .
  qed
qed

lemma length_show_nat: "n < 10 ^ Suc k \<Longrightarrow> length (show_nat n) \<le> Suc k"
proof (induction k arbitrary: n)
  case 0
  then show ?case by (subst show_nat.simps) simp
next
  case (Suc k)
  have "n div 10 < 10 ^ Suc k" using Suc.prems by (simp add: less_mult_imp_div_less)
  then show ?case using Suc.IH by (subst show_nat.simps) simp
qed

text \<open>Reading back what was printed.\<close>

lemma strtol10_show:
  assumes "n < 2 ^ 63"
  shows "strtol10 (show_nat n) = int n"
proof -
  obtain c s where s: "show_nat n = c # s" using show_nat_nonempty [of n] by (cases "show_nat n") auto
  then have "is_digit c" using show_nat_digits [of n] by simp
  then have c: "\<not> is_space c" "c \<noteq> CHR ''-''" "c \<noteq> CHR ''+''"
    by (auto simp: is_digit_def is_space_def between_def code_def)
  have all: "takeWhile is_digit (show_nat n) = show_nat n"
    using show_nat_digits [of n] by (simp add: takeWhile_eq_all_conv)
  have "dropWhile is_space (show_nat n) = show_nat n" using c(1) by (simp add: s)
  then have "strtol10 (show_nat n) = max (- (2 ^ 63)) (min (2 ^ 63 - 1) (digits_value (show_nat n)))"
    using c all by (simp add: strtol10_def s)
  also have "\<dots> = int n" using assms by (simp add: digits_value_show)
  finally show ?thesis .
qed

section \<open>Hexadecimal\<close>

definition hex_char :: "nat \<Rightarrow> char" where
  "hex_char d = (if d < 10 then char_of (d + 48) else char_of (d + 87))"

definition hex2 :: "nat \<Rightarrow> string" where
  "hex2 b = [hex_char (b div 16), hex_char (b mod 16)]"

text \<open>
  \<open>sha256_hash_hex\<close>: SHA-256 is OpenSSL's, the argument \<open>sha\<close>, and the contents of \<open>outputBuffer\<close>,
  65 bytes, are returned with the value.
\<close>

definition sha256_hash_hex :: "(string \<Rightarrow> nat list) \<Rightarrow> string \<Rightarrow> (int \<times> string) result" where
  "sha256_hash_hex sha input =
     (let digest = sha input
      in in_bounds ''outputBuffer'' (length digest \<le> 32) (Inr (65, cstr (concat (map hex2 digest)))))"

lemma hex_char_inj: "a < 16 \<Longrightarrow> b < 16 \<Longrightarrow> hex_char a = hex_char b \<Longrightarrow> a = b"
  by (auto simp: hex_char_def split: if_splits dest: arg_cong [of _ _ "of_char :: char \<Rightarrow> nat"])

lemma hex2_inj: "a < 256 \<Longrightarrow> b < 256 \<Longrightarrow> hex2 a = hex2 b \<Longrightarrow> a = b"
proof -
  assume ab: "a < 256" "b < 256" and eq: "hex2 a = hex2 b"
  have "a div 16 < 16" "b div 16 < 16" using ab by simp_all
  then have "a div 16 = b div 16" "a mod 16 = b mod 16"
    using eq by (auto simp: hex2_def intro: hex_char_inj)
  then show "a = b" by (metis div_mult_mod_eq)
qed

section \<open>Four bytes of an integer\<close>

definition split_int :: "32 word \<Rightarrow> 8 word list \<Rightarrow> nat \<Rightarrow> 8 word list result" where
  "split_int i buffer off = in_bounds ''buffer'' (off + 3 < length buffer)
     (Inr (buffer[off := ucast (drop_bit 24 i AND 0xFF), off + 1 := ucast (drop_bit 16 i AND 0xFF),
                  off + 2 := ucast (drop_bit 8 i AND 0xFF), off + 3 := ucast (i AND 0xFF)]))"

definition combine_chars :: "8 word \<Rightarrow> 8 word \<Rightarrow> 8 word \<Rightarrow> 8 word \<Rightarrow> 32 word" where
  "combine_chars a b c d =
     push_bit 24 (ucast a) OR push_bit 16 (ucast b) OR push_bit 8 (ucast c) OR ucast d"

section \<open>Dates\<close>

text \<open>The date of a day counted from 1970-01-01, in the proleptic Gregorian calendar.\<close>

definition leap :: "int \<Rightarrow> bool" where
  "leap y \<longleftrightarrow> (4 dvd y \<and> \<not> 100 dvd y) \<or> 400 dvd y"

definition days_before_year :: "int \<Rightarrow> int" where
  "days_before_year y = 365 * (y - 1970) + ((y - 1) div 4 - 492) - ((y - 1) div 100 - 19) + ((y - 1) div 400 - 4)"

definition month_lengths :: "int \<Rightarrow> int list" where
  "month_lengths y = [31, if leap y then 29 else 28, 31, 30, 31, 30, 31, 31, 30, 31, 30, 31]"

fun month_of :: "nat \<Rightarrow> int list \<Rightarrow> int \<Rightarrow> nat \<times> int" where
  "month_of m [] d = (m, d)"
| "month_of m (l # ls) d = (if d < l then (m, d) else month_of (m + 1) ls (d - l))"

definition year_of_day :: "int \<Rightarrow> int" where
  "year_of_day n =
     (let y = (400 * (n + 719162)) div 146097 + 1
      in if n < days_before_year y then y - 1
         else if days_before_year (y + 1) \<le> n then y + 1 else y)"

definition day_names :: "string list" where
  "day_names = [''Thu'', ''Fri'', ''Sat'', ''Sun'', ''Mon'', ''Tue'', ''Wed'']"

definition month_names :: "string list" where
  "month_names = [''Jan'', ''Feb'', ''Mar'', ''Apr'', ''May'', ''Jun'', ''Jul'', ''Aug'', ''Sep'', ''Oct'', ''Nov'', ''Dec'']"

definition two :: "int \<Rightarrow> string" where
  "two n = [digit_char (nat (n div 10)), digit_char (nat (n mod 10))]"

definition http_date :: "int \<Rightarrow> string" where
  "http_date t =
     (let day = t div 86400; sec = t mod 86400; y = year_of_day day;
          (m, d) = month_of 0 (month_lengths y) (day - days_before_year y)
      in day_names ! nat (day mod 7) @ '', '' @ two (d + 1) @ '' '' @ month_names ! m @ '' '' @ show_int y @ '' '' @
         two (sec div 3600) @ '':'' @ two (sec div 60 mod 60) @ '':'' @ two (sec mod 60) @ '' GMT'')"

lemma days_before_year_eq:
  "days_before_year (Y + 1) = 365 * Y + Y div 4 - Y div 100 + Y div 400 - 719162"
  by (simp add: days_before_year_def)

lemma div_bounds: "0 < k \<Longrightarrow> k * (Y div k) \<le> Y \<and> Y < k * (Y div k) + k" for k Y :: int
proof -
  assume k: "0 < k"
  have "Y = k * (Y div k) + Y mod k" by simp
  then show ?thesis using pos_mod_sign [OF k, of Y] pos_mod_bound [OF k, of Y] by linarith
qed

lemma cal_bounds:
  fixes Y :: int
  shows "4 * (Y div 4) \<le> Y" "Y < 4 * (Y div 4) + 4" "100 * (Y div 100) \<le> Y" "Y < 100 * (Y div 100) + 100"
    "400 * (Y div 400) \<le> Y" "Y < 400 * (Y div 400) + 400"
  using div_bounds [of 4 Y] div_bounds [of 100 Y] div_bounds [of 400 Y] by simp_all

lemma year_lo:
  "146097 * Y \<le> 400 * n + 287664800 \<Longrightarrow> 4 * a \<le> Y \<Longrightarrow> Y < 100 * b + 100 \<Longrightarrow> 400 * c \<le> Y \<Longrightarrow>
   365 * Y + a - b + c - 719162 \<le> (n :: int)"
  by linarith

lemma year_hi:
  "400 * n + 287664800 < 146097 * Y + 146097 \<Longrightarrow> Y + 2 < 4 * a + 4 \<Longrightarrow> 100 * b \<le> Y + 2 \<Longrightarrow>
   Y + 2 < 400 * c + 400 \<Longrightarrow> (n :: int) < 365 * (Y + 2) + a - b + c - 719162"
  by (subst distrib_left) linarith

lemma year_998:
  "4 * a \<le> Y \<Longrightarrow> Y < 100 * b + 100 \<Longrightarrow> 400 * c \<le> Y \<Longrightarrow> Y \<le> 998 \<Longrightarrow>
   365 * Y + a - b + c - 719162 < (- 354285 :: int)"
  by linarith

lemma year_10000:
  "Y < 4 * a + 4 \<Longrightarrow> 100 * b \<le> Y \<Longrightarrow> Y < 400 * c + 400 \<Longrightarrow> 10000 \<le> Y \<Longrightarrow>
   2932896 < 365 * Y + a - b + c - (719162 :: int)"
  by linarith

text \<open>The day lies in the year found for it.\<close>

lemma year_of_day:
  "days_before_year (year_of_day n) \<le> n \<and> n < days_before_year (year_of_day n + 1)"
proof -
  define Y where "Y = (400 * (n + 719162)) div 146097"
  have Y: "146097 * Y \<le> 400 * n + 287664800" "400 * n + 287664800 < 146097 * Y + 146097"
    unfolding Y_def using div_bounds [of 146097 "400 * (n + 719162)"] by (simp_all add: distrib_left)
  have lo: "days_before_year (Y + 1) \<le> n"
    unfolding days_before_year_eq
    by (rule year_lo [OF Y(1) cal_bounds(1,4,5)])
  have hi: "n < days_before_year (Y + 2 + 1)"
    unfolding days_before_year_eq
    by (rule year_hi [OF Y(2) cal_bounds(2,3,6)])
  have shift: "Y + 1 + 1 = Y + 2" "Y + 2 + 1 = Y + 3" by simp_all
  have "year_of_day n = (if days_before_year (Y + 2) \<le> n then Y + 2 else Y + 1)"
    using lo unfolding year_of_day_def Y_def [symmetric] Let_def shift by (simp only: not_less [symmetric] if_not_P if_False not_not split: if_splits)
  then show ?thesis using lo hi by (cases "days_before_year (Y + 2) \<le> n") (simp_all add: shift)
qed

lemma leap_div: "365 + ((Y + 1) div 4 - Y div 4) - ((Y + 1) div 100 - Y div 100) +
    ((Y + 1) div 400 - Y div 400) = (if leap (Y + 1) then 366 else (365::int))"
proof -
  have step: "(Y + 1) div k - Y div k = (if k dvd Y + 1 then 1 else 0)" if k: "1 < k" for k :: int
  proof (cases "k dvd Y + 1")
    case True
    then obtain q where q: "Y + 1 = k * q" by (elim dvdE)
    then have "Y = k * (q - 1) + (k - 1)" by (simp add: algebra_simps)
    then have "Y div k = (k * (q - 1) + (k - 1)) div k" by simp
    also have "\<dots> = q - 1" using k by (simp add: div_add1_eq)
    finally show ?thesis using q k True by simp
  next
    case False
    have a: "Y + 1 < k * (Y div k) + k + 1" "k * (Y div k) \<le> Y" using div_bounds [of k Y] k by auto
    moreover have "Y + 1 \<noteq> k * (Y div k) + k"
    proof
      assume "Y + 1 = k * (Y div k) + k"
      then have "Y + 1 = k * (Y div k + 1)" by (simp add: algebra_simps)
      with False show False by (metis dvd_triv_left)
    qed
    ultimately have "(Y + 1) div k = Y div k"
      by (intro int_div_pos_eq [of _ k _ "Y + 1 - k * (Y div k)"]) auto
    then show ?thesis using False by simp
  qed
  have d: "400 dvd Y + 1 \<Longrightarrow> 100 dvd Y + 1" "100 dvd Y + 1 \<Longrightarrow> 4 dvd Y + 1"
    by (auto elim!: dvdE)
  show ?thesis using d by (simp add: step leap_def)
qed

lemma year_length: "days_before_year (y + 1) - days_before_year y = sum_list (month_lengths y)"
proof -
  obtain Y where y: "y = Y + 1" by (metis diff_add_cancel)
  have "days_before_year (Y + 1 + 1) - days_before_year (Y + 1) = (if leap (Y + 1) then 366 else 365)"
    unfolding days_before_year_eq using leap_div [of Y] by (simp add: algebra_simps)
  then show ?thesis by (simp add: y month_lengths_def)
qed

lemma month_of_range:
  "0 \<le> d \<Longrightarrow> d < sum_list ls \<Longrightarrow> month_of m ls d = (m', d') \<Longrightarrow>
     m \<le> m' \<and> m' < m + length ls \<and> 0 \<le> d' \<and> d' < ls ! (m' - m)"
proof (induction ls arbitrary: m d)
  case Nil
  then show ?case by simp
next
  case (Cons l ls)
  show ?case
  proof (cases "d < l")
    case True
    then show ?thesis using Cons.prems by auto
  next
    case False
    then have "m + 1 \<le> m' \<and> m' < m + 1 + length ls \<and> 0 \<le> d' \<and> d' < ls ! (m' - (m + 1))"
      using Cons.prems by (intro Cons.IH [of "d - l"]) auto
    then show ?thesis by (auto simp: nth_Cons' Suc_diff_Suc)
  qed
qed

lemma length_two [simp]: "length (two n) = 2"
  by (simp add: two_def)

lemma length_name: "i < length xs \<Longrightarrow> \<forall>x \<in> set xs. length x = 3 \<Longrightarrow> length (xs ! i) = 3"
  using nth_mem by blast

text \<open>In the years with four digits a date has 29 characters.\<close>

lemma length_http_date:
  assumes "- 30610224000 \<le> t" and "t < 253402300800"
  shows "length (http_date t) = 29"
proof -
  let ?day = "t div 86400"
  let ?y = "year_of_day ?day"
  have day: "- 354285 \<le> ?day" "?day < 2932897" using assms div_bounds [of 86400 t] by auto
  note yd = year_of_day [of ?day]
  have y: "1000 \<le> ?y" "?y < 10000"
  proof -
    show "1000 \<le> ?y"
    proof (rule ccontr)
      assume "\<not> 1000 \<le> ?y"
      then consider "?y = 999" | "?y \<le> 998" by linarith
      then show False
      proof cases
        case 1
        then show ?thesis using yd day(1) by (simp add: days_before_year_def)
      next
        case 2
        have "days_before_year (?y + 1) < - 354285"
          unfolding days_before_year_eq by (rule year_998 [OF cal_bounds(1,4,5) 2])
        then show ?thesis using yd day(1) by linarith
      qed
    qed
    show "?y < 10000"
    proof (rule ccontr)
      assume "\<not> ?y < 10000"
      then consider "?y = 10000" | "10000 \<le> ?y - 1" by linarith
      then show False
      proof cases
        case 1
        then show ?thesis using yd day(2) by (simp add: days_before_year_def)
      next
        case 2
        have "2932896 < days_before_year (?y - 1 + 1)"
          unfolding days_before_year_eq by (rule year_10000 [OF cal_bounds(2,3,6) 2])
        then show ?thesis using yd day(2) by simp
      qed
    qed
  qed
  obtain m d where md: "month_of 0 (month_lengths ?y) (?day - days_before_year ?y) = (m, d)" by force
  have "0 \<le> ?day - days_before_year ?y" "?day - days_before_year ?y < sum_list (month_lengths ?y)"
    using yd year_length [of ?y] by auto
  from month_of_range [OF this md] have m: "m < 12" by (simp add: month_lengths_def)
  have names: "length (day_names ! nat (?day mod 7)) = 3" "length (month_names ! m) = 3"
    using m by (auto intro!: length_name simp: day_names_def month_names_def nat_less_iff)
  have "length (show_int ?y) = 4"
  proof -
    have "length (show_nat n) = 4" if "1000 \<le> n" "n < 10000" for n
      using that by (subst show_nat.simps, subst show_nat.simps, subst show_nat.simps, subst show_nat.simps) auto
    then show ?thesis using y by (simp add: show_int_def)
  qed
  then show ?thesis
    using names md by (simp add: http_date_def Let_def)
qed

section \<open>Properties\<close>

lemma length_hex2: "length (hex2 b) = 2"
  by (simp add: hex2_def)

lemma hex_concat_inj:
  "\<forall>b \<in> set xs. b < 256 \<Longrightarrow> \<forall>b \<in> set ys. b < 256 \<Longrightarrow> length xs = length ys \<Longrightarrow>
     concat (map hex2 xs) = concat (map hex2 ys) \<Longrightarrow> xs = ys"
proof (induction xs arbitrary: ys)
  case Nil
  then show ?case by simp
next
  case (Cons x xs)
  then obtain y ys' where ys: "ys = y # ys'" by (cases ys) auto
  have "hex2 x = hex2 y" "concat (map hex2 xs) = concat (map hex2 ys')"
    using Cons.prems(4) unfolding ys by (simp_all add: append_eq_append_conv length_hex2)
  then show ?case using Cons.IH [of ys'] Cons.prems ys by (auto intro: hex2_inj)
qed

lemma hex_char_not_NUL: "d < 16 \<Longrightarrow> hex_char d \<noteq> CHR 0x00"
  by (auto simp: hex_char_def split: if_splits dest: arg_cong [of _ _ "of_char :: char \<Rightarrow> nat"])

lemma hex_text: "\<forall>b \<in> set xs. b < 256 \<Longrightarrow> cstr (concat (map hex2 xs)) = concat (map hex2 xs)"
proof -
  assume "\<forall>b \<in> set xs. b < 256"
  then have "hex_char (b div 16) \<noteq> CHR 0x00" "hex_char (b mod 16) \<noteq> CHR 0x00" if "b \<in> set xs" for b
    using that by (auto intro!: hex_char_not_NUL simp: less_mult_imp_div_less)
  then show ?thesis unfolding cstr_def takeWhile_eq_all_conv by (auto simp: hex2_def)
qed

lemma length_hex: "length (concat (map hex2 xs)) = 2 * length xs"
  by (induction xs) (simp_all add: hex2_def)

text \<open>What the program relies on of SHA-256: 32 bytes.\<close>

definition sha256_ok :: "(string \<Rightarrow> nat list) \<Rightarrow> bool" where
  "sha256_ok sha \<longleftrightarrow> (\<forall>s. length (sha s) = 32 \<and> (\<forall>b \<in> set (sha s). b < 256))"

lemma sha256_hash_hex_value:
  "sha256_ok sha \<Longrightarrow> sha256_hash_hex sha s = Inr (65, concat (map hex2 (sha s)))"
  by (simp add: sha256_ok_def sha256_hash_hex_def hex_text)

text \<open>
  \<open>sha256_hash_hex\<close> stays inside its 65 bytes of output, produces 64 characters and returns 65;
  two inputs get the same text only when SHA-256 gives them the same digest.
\<close>

lemma sha256_hex_faithful:
  assumes "sha256_ok sha"
  shows "\<exists>h h'. sha256_hash_hex sha s = Inr (65, h) \<and> sha256_hash_hex sha s' = Inr (65, h') \<and>
    length h = 64 \<and> (h = h' \<longleftrightarrow> sha s = sha s')"
proof -
  have d: "length (sha x) = 32" "\<forall>b \<in> set (sha x). b < 256" for x
    using assms by (simp_all add: sha256_ok_def)
  have "concat (map hex2 (sha s)) = concat (map hex2 (sha s')) \<longleftrightarrow> sha s = sha s'"
    using hex_concat_inj [OF d(2) d(2)] d(1) by auto
  then show ?thesis using d(1) [of s] by (simp add: sha256_hash_hex_value [OF assms] length_hex)
qed

lemma combine_split_bits:
  "combine_chars (ucast (drop_bit 24 i AND 0xFF)) (ucast (drop_bit 16 i AND 0xFF))
     (ucast (drop_bit 8 i AND 0xFF)) (ucast (i AND 0xFF)) = i" (is "?w = i")
proof (rule bit_word_eqI)
  fix n assume n: "n < LENGTH(32)"
  have m: "(0xFF :: 32 word) = mask 8" by (simp add: mask_eq_exp_minus_1)
  consider "n < 8" | "8 \<le> n \<and> n < 16" | "16 \<le> n \<and> n < 24" | "24 \<le> n" by linarith
  then show "bit ?w n = bit i n"
    unfolding combine_chars_def m using n by cases (auto simp: bit_simps)
qed

text \<open>
  \<open>split_int\<close> followed by \<open>combine_chars\<close> on the four bytes is the identity, and \<open>split_int\<close>
  touches only those four bytes.
\<close>

lemma split_combine:
  assumes "off + 3 < length buffer"
  shows "\<exists>b. split_int i buffer off = Inr b \<and> length b = length buffer \<and>
    combine_chars (b ! off) (b ! (off + 1)) (b ! (off + 2)) (b ! (off + 3)) = i \<and>
    (\<forall>k. k < off \<or> off + 3 < k \<longrightarrow> b ! k = buffer ! k)"
  using assms combine_split_bits [of i] by (simp add: split_int_def nth_list_update)

end
