(* ===== verification/Compression.thy ===== *)
theory Compression
  imports Buffer
begin

text \<open>
  \<^verbatim>\<open>src/utils/compression.c\<close>. zlib and the temporary file are not part of the program: the record
  \<open>zlib\<close> says what their calls return, and \<open>zlib_laws\<close> is what their documentation promises. The
  output pointer is the memory of a buffer; nothing in these functions knows its size, so a store
  past it is \<open>Out_of_bounds\<close>.
\<close>

record zlib =
  tmpfile_ok :: bool
  gzdopen_ok :: bool
  gzclose_ok :: bool                          \<comment> \<open>\<open>gzclose\<close> returns \<open>Z_OK\<close>\<close>
  gzwrite :: "string \<Rightarrow> int"                   \<comment> \<open>the bytes accepted, 0 on an error\<close>
  gz_file :: "string \<Rightarrow> string"                \<comment> \<open>the file after \<open>gzclose\<close>\<close>
  tmp_write_ok :: bool                        \<comment> \<open>\<open>fwrite\<close> of the whole input to the temporary file\<close>
  gzread :: "string \<Rightarrow> nat \<Rightarrow> int \<times> string"    \<comment> \<open>of a file and a room: value and bytes stored\<close>
  compressBound :: "nat \<Rightarrow> nat"
  deflate_out :: "string \<Rightarrow> nat \<Rightarrow> string"     \<comment> \<open>output of \<open>deflate(Z_FINISH)\<close> with that \<open>avail_out\<close>\<close>
  inflate_out :: "string \<Rightarrow> nat \<Rightarrow> string"

section \<open>gzip\<close>

definition compress_gzip :: "zlib \<Rightarrow> string \<Rightarrow> buffer \<Rightarrow> (int \<times> buffer) result" where
  "compress_gzip Z input to_buffer =
     (if \<not> tmpfile_ok Z then Inr (-1, to_buffer)
      else if \<not> gzdopen_ok Z then Inr (-1, to_buffer)
      else let bytes_written = gzwrite Z input in
        if bytes_written \<le> 0 \<or> to_uint32 bytes_written \<noteq> int (length input) then Inr (-1, to_buffer)
        else if \<not> gzclose_ok Z then Inr (-1, to_buffer)
        else let out = gz_file Z input; compressed_size = to_uint32 (int (length out)) in
          if compressed_size \<le> 0 then Inr (-1, to_buffer)
          else and_then (write_bytes 0 (take (nat compressed_size) out) to_buffer) (\<lambda>to_buffer'.
            Inr (to_int32 compressed_size, to_buffer')))"

definition decompress_gzip :: "zlib \<Rightarrow> string \<Rightarrow> buffer \<Rightarrow> nat \<Rightarrow> (int \<times> buffer) result" where
  "decompress_gzip Z input to_buffer to_buffer_size =
     (if \<not> tmpfile_ok Z then Inr (-1, to_buffer)
      else if \<not> tmp_write_ok Z then Inr (-1, to_buffer)
      else if \<not> gzdopen_ok Z then Inr (-1, to_buffer)
      else let (bytes_read, out) = gzread Z input to_buffer_size in
        if bytes_read < 0 then Inr (-1, to_buffer)
        else and_then (write_bytes 0 out to_buffer) (\<lambda>to_buffer'.
          if \<not> gzclose_ok Z then Inr (-1, to_buffer') else Inr (bytes_read, to_buffer')))"

section \<open>deflate\<close>

definition compress_deflate :: "zlib \<Rightarrow> string \<Rightarrow> buffer \<Rightarrow> (int \<times> buffer) result" where
  "compress_deflate Z input to_buffer =
     (let out = deflate_out Z input (nat (to_uint32 (int (compressBound Z (length input)))))
      in and_then (write_bytes 0 out to_buffer) (\<lambda>to_buffer'.
           Inr (to_int32 (int (length out)), to_buffer')))"

definition decompress_deflate :: "zlib \<Rightarrow> string \<Rightarrow> buffer \<Rightarrow> nat \<Rightarrow> (int \<times> buffer) result" where
  "decompress_deflate Z input to_buffer to_buffer_size =
     (let out = inflate_out Z input to_buffer_size
      in and_then (write_bytes 0 out to_buffer) (\<lambda>to_buffer'.
           Inr (to_int32 (int (length out)), to_buffer')))"

section \<open>What zlib promises\<close>

text \<open>
  For inputs below 2 GB: \<open>gzwrite\<close> accepts everything, the file it leaves is not empty and is read
  back as the input when there is room for it; \<open>deflate\<close> with \<open>compressBound\<close> bytes of output
  finishes within them, and \<open>inflate\<close> undoes it.
\<close>

definition zlib_laws :: "zlib \<Rightarrow> bool" where
  "zlib_laws Z \<longleftrightarrow> tmpfile_ok Z \<and> gzdopen_ok Z \<and> gzclose_ok Z \<and> tmp_write_ok Z \<and>
     (\<forall>s. length s < 2 ^ 30 \<longrightarrow>
        gzwrite Z s = int (length s) \<and> gz_file Z s \<noteq> [] \<and> length (gz_file Z s) < 2 ^ 31 \<and>
        compressBound Z (length s) < 2 ^ 31 \<and>
        length (deflate_out Z s (compressBound Z (length s))) \<le> compressBound Z (length s) \<and>
        (\<forall>room. length s \<le> room \<longrightarrow>
           gzread Z (gz_file Z s) room = (int (length s), s) \<and>
           inflate_out Z (deflate_out Z s (compressBound Z (length s))) room = s))"

text \<open>A format that stores its input behind one byte satisfies them.\<close>

definition store_zlib :: zlib where
  "store_zlib =
     \<lparr>tmpfile_ok = True, gzdopen_ok = True, gzclose_ok = True, gzwrite = (\<lambda>s. int (length s)),
      gz_file = (\<lambda>s. CHR ''g'' # s), tmp_write_ok = True,
      gzread = (\<lambda>f room. (int (length (take room (tl f))), take room (tl f))),
      compressBound = (\<lambda>n. n + 1), deflate_out = (\<lambda>s room. take room (CHR ''d'' # s)),
      inflate_out = (\<lambda>f room. take room (tl f))\<rparr>"

lemma store_zlib_laws: "zlib_laws store_zlib"
  by (simp add: zlib_laws_def store_zlib_def)

section \<open>Facts\<close>

lemma zlib_gz:
  assumes "zlib_laws Z" and "length s < 2 ^ 30"
  shows "gzwrite Z s = int (length s)" and "gz_file Z s \<noteq> []" and "length (gz_file Z s) < 2 ^ 31"
    and "to_uint32 (int (length (gz_file Z s))) = int (length (gz_file Z s))"
    and "to_int32 (int (length (gz_file Z s))) = int (length (gz_file Z s))"
    and "to_uint32 (int (length s)) = int (length s)"
  using assms by (auto simp: zlib_laws_def to_uint32_id to_int32_id)

lemma compress_gzip_value:
  assumes "zlib_laws Z" and "length s < 2 ^ 30" and "s \<noteq> []" and "write_bytes 0 (gz_file Z s) b = Inr b'"
  shows "compress_gzip Z s b = Inr (int (length (gz_file Z s)), b')"
  using assms(1,3,4) zlib_gz [OF assms(1,2)]
  by (simp add: compress_gzip_def zlib_laws_def Let_def)

lemma compress_deflate_value:
  assumes "zlib_laws Z" and "length s < 2 ^ 30"
    and "write_bytes 0 (deflate_out Z s (compressBound Z (length s))) b = Inr b'"
  shows "compress_deflate Z s b = Inr (int (length (deflate_out Z s (compressBound Z (length s)))), b')"
proof -
  have z: "compressBound Z (length s) < 2 ^ 31"
    "length (deflate_out Z s (compressBound Z (length s))) \<le> compressBound Z (length s)"
    using assms(1,2) by (auto simp: zlib_laws_def)
  then have "nat (to_uint32 (int (compressBound Z (length s)))) = compressBound Z (length s)"
    by (simp add: to_uint32_id)
  with z assms(3) show ?thesis
    by (simp add: compress_deflate_def to_int32_id Let_def)
qed

text \<open>An empty input counts as a failed write.\<close>

lemma compress_gzip_empty: "zlib_laws Z \<Longrightarrow> compress_gzip Z [] b = Inr (-1, b)"
  by (simp add: compress_gzip_def zlib_laws_def)

lemma write_bytes_store:
  assumes "buffer_wf b" and "data b \<noteq> None" and "length xs \<le> capacity b"
  obtains b' where "write_bytes 0 xs b = Inr b'" "buffer_wf b'" "capacity b' = capacity b"
    "count b' = count b" "data b' \<noteq> None" "take (length xs) (bytes b') = xs"
proof -
  obtain d where d: "data b = Some d" "length d = capacity b"
    using assms(1,2) by (auto simp: buffer_wf_def)
  then have "write_bytes 0 xs b = Inr (b\<lparr>data := Some (xs @ drop (length xs) d)\<rparr>)"
    using assms(3) by (simp add: write_bytes_def)
  with that show thesis
    using d assms by (auto simp: buffer_wf_def bytes_def)
qed

section \<open>Properties\<close>


lemma store_zlib_sel [simp]:
  "gz_file store_zlib s = CHR ''g'' # s" "compressBound store_zlib n = n + 1"
  "deflate_out store_zlib s n = take n (CHR ''d'' # s)"
  by (simp_all add: store_zlib_def)


end
