(* ===== verification/HttpResponse.thy ===== *)
theory HttpResponse
  imports HttpTypes StaticFiles Numerals Compression
begin

text \<open>
  \<^verbatim>\<open>src/http/response.c\<close>: the headers of a response are filled in, its body is compressed, and both are
  printed into the session's buffer. The clock (\<open>time(NULL)\<close>), SHA-256 and zlib are arguments. Values
  that a function returns and no caller reads are left out; logging is omitted.
\<close>

section \<open>The headers\<close>

definition http_status_code_to_str :: "int \<Rightarrow> string" where
  "http_status_code_to_str s =
     (if s = HTTP_OK then ''OK''
      else if s = HTTP_MOVED_PERMANENTLY then ''Moved Permanently''
      else if s = HTTP_NOT_MODIFIED then ''Not Modified''
      else if s = HTTP_BAD_REQUEST then ''Bad Request''
      else if s = HTTP_NOT_FOUND then ''Not Found''
      else if s = HTTP_METHOD_NOT_ALLOWED then ''Method Not Allowed''
      else if s = HTTP_NOT_ACCEPTABLE then ''Not Acceptable''
      else if s = HTTP_INTERNAL_SERVER_ERROR then ''Internal Server Error''
      else if s = HTTP_NOT_IMPLEMENTED then ''Not Implemented''
      else if s = HTTP_SERVICE_UNAVAILABLE then ''Service Unavailable''
      else ''Unknown'')"

definition content_type_of :: "string \<Rightarrow> string" where
  "content_type_of file_name =
     (if strcasestr file_name ''.html'' then ''text/html;charset=utf-8''
      else if strcasestr file_name ''.png'' then ''image/png''
      else if strcasestr file_name ''.css'' then ''text/css;charset=utf-8''
      else if strcasestr file_name ''.js'' then ''application/javascript;charset=utf-8''
      else ''text/plain;charset=utf-8'')"

definition set_content_type :: "uri_token_t \<Rightarrow> http_response_t \<Rightarrow> http_response_t result" where
  "set_content_type u r =
     (if status_code r \<noteq> HTTP_OK then Inr (r\<lparr>content_type := ''text/html;charset=utf-8''\<rparr>)
      else (case uri_to_file_name u of
              None \<Rightarrow> Inl (Null_pointer ''strcasestr'')
            | Some file_name \<Rightarrow> Inr (r\<lparr>content_type := content_type_of file_name\<rparr>)))"

definition set_location :: "string \<Rightarrow> uri_token_t \<Rightarrow> http_response_t \<Rightarrow> http_response_t" where
  "set_location h u r =
     (if status_code r \<noteq> HTTP_MOVED_PERMANENTLY then r\<lparr>location := ''''\<rparr>
      else r\<lparr>location := fst (snprintf_str HTTP_HEADER_SIZE (''https://'' @ h @ u ! 0))\<rparr>)"

definition set_last_modified :: "file_system \<Rightarrow> uri_token_t \<Rightarrow> http_response_t \<Rightarrow> http_response_t result" where
  "set_last_modified F u r =
     (if status_code r \<noteq> HTTP_OK then Inr (r\<lparr>last_modified := ''''\<rparr>)
      else (case uri_to_file_name u of
              None \<Rightarrow> Inl (Null_pointer ''get_last_modified'')
            | Some file_name \<Rightarrow> and_then (get_last_modified F file_name) (\<lambda>t.
                Inr (r\<lparr>last_modified := http_date t\<rparr>))))"

definition set_date :: "int \<Rightarrow> http_response_t \<Rightarrow> http_response_t" where
  "set_date now r = r\<lparr>date := http_date now\<rparr>"

definition set_etag :: "(string \<Rightarrow> nat list) \<Rightarrow> buffer \<Rightarrow> http_response_t \<Rightarrow> http_response_t result" where
  "set_etag sha tmp_body r =
     (if status_code r \<noteq> HTTP_OK \<or> status_code r = HTTP_NOT_MODIFIED then Inr (r\<lparr>etag := ''''\<rparr>)
      else and_then (read_bytes (count tmp_body) tmp_body) (\<lambda>input.
           and_then (sha256_hash_hex sha input) (\<lambda>(_, h). Inr (r\<lparr>etag := h\<rparr>))))"

definition handle_if_none_match :: "string \<Rightarrow> http_response_t \<Rightarrow> buffer \<Rightarrow> (http_response_t \<times> buffer) result" where
  "handle_if_none_match inm r tmp_buffer =
     (if length inm = 0 then Inr (r, tmp_buffer)
      else if inm = etag r
      then and_then (write_bytes 0 (replicate (capacity tmp_buffer) NUL) tmp_buffer) (\<lambda>tmp'.
             Inr (r\<lparr>status_code := HTTP_NOT_MODIFIED, content_length := 0, content_type := '''',
                    content_language := '''', content_encoding := ''''\<rparr>, tmp'\<lparr>count := 0\<rparr>))
      else Inr (r, tmp_buffer))"

text \<open>\<open>return_value\<close> is \<open>unsigned int\<close>, so the test for a failed compression never succeeds.\<close>

definition set_compression :: "zlib \<Rightarrow> string \<Rightarrow> buffer \<Rightarrow> http_response_t \<Rightarrow> buffer \<Rightarrow>
    (int \<times> http_response_t \<times> buffer) result" where
  "set_compression Z accept_enc body r tmp_buffer =
     (let header_count = (if strcasestr accept_enc ''gzip'' then 1 else 0 :: nat) +
                         (if strcasestr accept_enc ''deflate'' then 2 else 0);
          finish = (\<lambda>(return_value, r', tmp').
            let (return_value', r'') =
              (if return_value < 0 then (to_uint32 (content_length r'), r'\<lparr>content_encoding := ''''\<rparr>)
               else (return_value, r'))
            in Inr (return_value', r'', tmp'\<lparr>count := nat return_value'\<rparr>))
      in if header_count = 1 \<or> header_count = 3
         then and_then (read_bytes (nat (to_uint32 (int (count body)))) body) (\<lambda>input.
              and_then (compress_gzip Z input tmp_buffer) (\<lambda>(n, tmp').
                finish (to_uint32 n, r\<lparr>content_encoding := ''gzip''\<rparr>, tmp')))
         else if header_count = 2
         then and_then (read_bytes (nat (to_uint32 (int (count body)))) body) (\<lambda>input.
              and_then (compress_deflate Z input tmp_buffer) (\<lambda>(n, tmp').
                finish (to_uint32 n, r\<lparr>content_encoding := ''deflate''\<rparr>, tmp')))
         else finish (to_uint32 (content_length r), r, tmp_buffer))"

definition set_content_length :: "int \<Rightarrow> http_response_t \<Rightarrow> http_response_t" where
  "set_content_length n r = r\<lparr>content_length := to_uint32 n\<rparr>"

section \<open>Printing\<close>

abbreviation CRLF :: string where
  "CRLF \<equiv> [CHR 0x0D, CHR 0x0A]"

text \<open>
  \<open>to_string\<close> is a sequence of blocks: reserve, then \<open>snprintf\<close> at the offset, which moves on by the
  length of the whole text. \<open>header_blocks\<close> lists reservation and text of each block.
\<close>

definition field :: "nat \<Rightarrow> string \<Rightarrow> string \<Rightarrow> (nat \<times> string) list" where
  "field room name val = (if length val > 0 then [(room, name @ '': '' @ val @ CRLF)] else [])"

definition header_blocks :: "http_response_t \<Rightarrow> (nat \<times> string) list" where
  "header_blocks r =
     [(128, ''HTTP/'' @ ''1.1'' @ '' '' @ show_int (status_code r) @ '' '' @
            http_status_code_to_str (status_code r) @ CRLF)] @
     field 348 ''Content-Type'' (content_type r) @
     (if content_length r \<ge> 0 then [(128, ''Content-Length: '' @ show_int (content_length r) @ CRLF)] else []) @
     field 256 ''Content-Language'' (content_language r) @
     field 256 ''Date'' (date r) @
     field 128 ''ETag'' (etag r) @
     field 348 ''Location'' (location r) @
     field 256 ''Last-Modified'' (last_modified r) @
     field 128 ''Content-Encoding'' (content_encoding r)"

fun print_blocks :: "libc \<Rightarrow> (nat \<times> string) list \<Rightarrow> nat \<Rightarrow> buffer \<Rightarrow> (nat \<times> buffer) result" where
  "print_blocks L [] offset dest = Inr (offset, dest)"
| "print_blocks L ((room, s) # bs) offset dest =
     and_then (assert_capacity L dest (offset + room)) (\<lambda>d1.
     and_then (snprintf_at offset s d1) (\<lambda>d2.
       print_blocks L bs (offset + length s) d2))"

definition to_string :: "libc \<Rightarrow> http_response_t \<Rightarrow> buffer option \<Rightarrow> buffer \<Rightarrow> (int \<times> buffer) result" where
  "to_string L r body dest =
     and_then (print_blocks L (header_blocks r) 0 dest) (\<lambda>(offset, d).
     and_then (assert_capacity L d (nat (to_uint64 (int offset + content_length r + 2)))) (\<lambda>d1.
     and_then (snprintf_at offset CRLF d1) (\<lambda>d2.
       if content_length r > 0
       then (case body of
               None \<Rightarrow> Inl (Null_pointer ''body'')
             | Some b \<Rightarrow> and_then (read_bytes (nat (content_length r)) b) (\<lambda>bs.
                 and_then (write_bytes (offset + 2) bs d2) (\<lambda>d3.
                   Inr (to_uint32 (int (offset + 2) + content_length r), d3))))
       else Inr (to_uint32 (int (offset + 2)), d2))))"

section \<open>Building a response\<close>

definition construct_response :: "libc \<Rightarrow> file_system \<Rightarrow> int \<Rightarrow> (string \<Rightarrow> nat list) \<Rightarrow> zlib \<Rightarrow>
    http_response_t \<Rightarrow> uri_token_t \<Rightarrow> string \<Rightarrow> string \<Rightarrow> buffer \<Rightarrow> buffer \<Rightarrow>
    (int \<times> http_response_t \<times> buffer \<times> buffer) result" where
  "construct_response L F now sha Z r0 u accept_enc inm body tmp =
     and_then (copy_buffer L tmp body) (\<lambda>(copied, tmp1).
     assert_that ''copy_buffer(tmp_buffer, body) >= 0'' (0 \<le> copied) (
     and_then (set_content_type u
       (set_content_length (int (count body)) (r0\<lparr>content_language := ''en-US''\<rparr>))) (\<lambda>r1.
     and_then (set_last_modified F u r1) (\<lambda>r2.
     and_then (set_etag sha tmp1 (set_date now r2)) (\<lambda>r3.
     and_then (handle_if_none_match inm r3 tmp1) (\<lambda>(r4, tmp2).
     and_then
       (if status_code r4 \<noteq> HTTP_NOT_MODIFIED
        then and_then (set_compression Z accept_enc body r4 tmp2) (\<lambda>(n, r5, tmp3).
               Inr (set_content_length n r5, tmp3))
        else Inr (r4, tmp2)) (\<lambda>(r6, tmp4).
     and_then (to_string L r6 (Some tmp4) body) (\<lambda>(n, body').
       Inr (n, r6, body'\<lparr>count := nat n\<rparr>, tmp4)))))))))"

definition construct_upgrade_to_https_response :: "libc \<Rightarrow> int \<Rightarrow> http_response_t \<Rightarrow> uri_token_t \<Rightarrow> string \<Rightarrow> buffer \<Rightarrow>
    (int \<times> buffer) result" where
  "construct_upgrade_to_https_response L now stack u h buffer =
     (let r = set_content_length 0 (set_location h u (set_date now
                (stack\<lparr>status_code := HTTP_MOVED_PERMANENTLY, content_language := ''en-US''\<rparr>)))
      in and_then (to_string L r None buffer) (\<lambda>(n, buffer').
           Inr (n, buffer'\<lparr>count := nat n\<rparr>)))"

section \<open>What is printed\<close>

text \<open>The format of RFC 7230: a status line, the fields with a value, an empty line.\<close>

definition status_line :: "http_response_t \<Rightarrow> string" where
  "status_line r = ''HTTP/1.1 '' @ show_int (status_code r) @ '' '' @ http_status_code_to_str (status_code r)"

definition response_fields :: "http_response_t \<Rightarrow> (string \<times> string) list" where
  "response_fields r = filter (\<lambda>(_, v). v \<noteq> [])
     [(''Content-Type'', content_type r), (''Content-Length'', show_int (content_length r)),
      (''Content-Language'', content_language r), (''Date'', date r), (''ETag'', etag r),
      (''Location'', location r), (''Last-Modified'', last_modified r),
      (''Content-Encoding'', content_encoding r)]"

definition field_line :: "string \<times> string \<Rightarrow> string" where
  "field_line f = fst f @ '': '' @ snd f"

definition response_head :: "http_response_t \<Rightarrow> string" where
  "response_head r = concat (map (\<lambda>l. l @ CRLF) (status_line r # map field_line (response_fields r))) @ CRLF"

lemma show_int_nonempty [simp]: "show_int n \<noteq> []"
  by (simp add: show_int_def show_nat_nonempty)

lemma header_blocks_text:
  assumes "0 \<le> content_length r"
  shows "concat (map snd (header_blocks r)) @ CRLF = response_head r"
  using assms
  by (simp add: header_blocks_def response_head_def response_fields_def status_line_def field_def
      field_line_def)

text \<open>Every field is shorter than the array that holds it; the encoding is one of two words.\<close>

definition response_fits :: "http_response_t \<Rightarrow> bool" where
  "response_fits r \<longleftrightarrow> 0 \<le> status_code r \<and> status_code r < 1000 \<and>
     0 \<le> content_length r \<and> content_length r < 2 ^ 28 \<and>
     length (content_type r) < HTTP_HEADER_SIZE \<and> length (content_language r) < HTTP_HEADER_SMALL_SIZE \<and>
     content_encoding r \<in> {[], ''gzip'', ''deflate''} \<and> length (last_modified r) < HTTP_HEADER_SMALL_SIZE \<and>
     length (date r) < HTTP_HEADER_SMALL_SIZE \<and> length (etag r) < HTTP_HEADER_ETAG_SIZE \<and>
     length (location r) < HTTP_HEADER_SIZE"

lemma length_status_str: "length (http_status_code_to_str s) \<le> 21"
  by (simp add: http_status_code_to_str_def)

definition block_fits :: "nat \<times> string \<Rightarrow> bool" where
  "block_fits b \<longleftrightarrow> length (snd b) + 3 \<le> fst b \<and> fst b \<le> 348"

lemma block_fits_pair: "block_fits (room, s) \<longleftrightarrow> length s + 3 \<le> room \<and> room \<le> 348"
  by (simp add: block_fits_def)

lemma field_fits:
  "length name + length val + 7 \<le> room \<Longrightarrow> room \<le> 348 \<Longrightarrow> list_all block_fits (field room name val)"
  by (simp add: field_def block_fits_def)

lemma header_blocks_fit:
  assumes "response_fits r"
  shows "list_all block_fits (header_blocks r)"
proof -
  have st: "length (show_int (status_code r)) \<le> 3"
    using assms length_show_nat [of "nat (status_code r)" 2]
    unfolding response_fits_def show_int_def by (simp add: numeral_eq_Suc nat_less_iff)
  have cl: "length (show_int (content_length r)) \<le> 9"
    using assms length_show_nat [of "nat (content_length r)" 8]
    unfolding response_fits_def show_int_def by (simp add: nat_less_iff)
  have enc: "length (content_encoding r) \<le> 7" using assms by (auto simp: response_fits_def)
  note f = assms[unfolded response_fits_def]
  have "block_fits (128, ''HTTP/'' @ ''1.1'' @ '' '' @ show_int (status_code r) @ '' '' @
      http_status_code_to_str (status_code r) @ CRLF)"
    using st length_status_str [of "status_code r"] by (simp add: block_fits_def)
  moreover have "block_fits (128, ''Content-Length: '' @ show_int (content_length r) @ CRLF)"
    using cl by (simp add: block_fits_def)
  ultimately show ?thesis
    unfolding header_blocks_def using f enc
    by (simp add: field_fits del: length_0_conv)
qed

lemma length_header_blocks: "length (header_blocks r) \<le> 9"
  by (simp add: header_blocks_def field_def)

lemma block_fits_length:
  "list_all block_fits bs \<Longrightarrow> length (concat (map snd bs)) \<le> 348 * length bs"
  by (induction bs) (auto simp: block_fits_def)

lemma print_blocks_prefix:
  assumes mem: "\<And>m. alloc_ok L m"
  shows "buffer_wf dest \<Longrightarrow> capacity dest < 2 ^ 31 \<Longrightarrow> off \<le> capacity dest \<Longrightarrow>
    list_all block_fits bs \<Longrightarrow> off + 348 * length bs \<le> 2 ^ 30 \<Longrightarrow>
    \<exists>d. print_blocks L bs off dest = Inr (off + length (concat (map snd bs)), d) \<and> buffer_wf d \<and>
      capacity d < 2 ^ 31 \<and> count d = count dest \<and> off + length (concat (map snd bs)) \<le> capacity d \<and>
      (bs \<noteq> [] \<or> off + 3 \<le> capacity dest \<longrightarrow> off + length (concat (map snd bs)) + 3 \<le> capacity d) \<and>
      take (off + length (concat (map snd bs))) (bytes d) = take off (bytes dest) @ concat (map snd bs)"
proof (induction bs arbitrary: off dest)
  case Nil
  then show ?case by simp
next
  case (Cons p bs)
  obtain room s where p: "p = (room, s)" by (cases p)
  have room: "length s < room" "length s + 3 \<le> room" "off + room \<le> 2 ^ 30"
    using Cons.prems(4,5) by (auto simp: p block_fits_pair)
  obtain d1 d2 where d: "assert_capacity L dest (off + room) = Inr d1" "snprintf_at off s d1 = Inr d2"
    "buffer_wf d2" "capacity d2 < 2 ^ 31" "off + room \<le> capacity d2" "count d2 = count dest"
    "take (off + length s) (bytes d2) = take off (bytes dest) @ s"
    using snprintf_prefix [OF Cons.prems(1,2) mem room(1,3) Cons.prems(3)] by blast
  have le: "off + length s + 3 \<le> capacity d2" "off + length s + 348 * length bs \<le> 2 ^ 30"
    "off + length s \<le> capacity d2" "list_all block_fits bs"
    using d(5) room Cons.prems(4,5) by (auto simp: p block_fits_pair)
  from Cons.IH [OF d(3,4) le(3,4,2)] le(1) obtain d' where
    "print_blocks L bs (off + length s) d2 = Inr (off + length s + length (concat (map snd bs)), d')"
    "buffer_wf d'" "capacity d' < 2 ^ 31" "count d' = count d2"
    "off + length s + length (concat (map snd bs)) + 3 \<le> capacity d'"
    "take (off + length s + length (concat (map snd bs))) (bytes d') =
       take (off + length s) (bytes d2) @ concat (map snd bs)"
    by auto
  then show ?case using d by (simp add: p add.assoc)
qed

lemma to_string_prints:
  assumes mem: "\<And>m. alloc_ok L m" and dest: "buffer_wf dest" "capacity dest < 2 ^ 31"
    and fits: "response_fits r" and len: "length payload = nat (content_length r)"
    and body: "payload \<noteq> [] \<longrightarrow> (\<exists>b d. body = Some b \<and> data b = Some d \<and> take (length payload) d = payload)"
  shows "\<exists>d n. to_string L r body dest = Inr (int n, d) \<and> buffer_wf d \<and> capacity d < 2 ^ 31 \<and>
    count d = count dest \<and> n = length (response_head r @ payload) \<and> n \<le> capacity d \<and>
    take n (bytes d) = response_head r @ payload"
proof -
  let ?text = "concat (map snd (header_blocks r))"
  let ?n = "length ?text" and ?cl = "length payload"
  have cl: "content_length r = int ?cl" "?cl < 2 ^ 28" using fits len by (auto simp: response_fits_def)
  have nonempty: "header_blocks r \<noteq> []" by (simp add: header_blocks_def)
  have "0 + 348 * length (header_blocks r) \<le> 2 ^ 30" using length_header_blocks [of r] by simp
  from print_blocks_prefix [OF mem dest _ header_blocks_fit [OF fits] this] nonempty obtain d where
    d: "print_blocks L (header_blocks r) 0 dest = Inr (?n, d)" "buffer_wf d" "capacity d < 2 ^ 31"
    "count d = count dest" "?n + 3 \<le> capacity d" "take ?n (bytes d) = ?text"
    by auto
  have nsmall: "?n \<le> 3132"
    using block_fits_length [OF header_blocks_fit [OF fits]] length_header_blocks [of r] by linarith
  have want: "nat (to_uint64 (int ?n + content_length r + 2)) = ?n + ?cl + 2"
    using cl nsmall by (simp add: to_uint64_def)
  have small: "?n + ?cl + 2 \<le> 2 ^ 30" using cl nsmall by simp
  obtain d1 where d1: "assert_capacity L d (?n + ?cl + 2) = Inr d1"
    using assert_capacity_returns [OF mem d(2,3) small] by auto
  note d1s = assert_capacity_Inr [OF d(2) d1] and d1c = assert_capacity_small [OF d(3) small d1]
  have room: "?n + length (CRLF @ [NUL]) \<le> capacity d1" using d(5) d1s(3) by simp
  have eq: "snprintf_at ?n CRLF d1 = write_bytes ?n (CRLF @ [NUL]) d1"
    using room d1c by (intro snprintf_at_write) auto
  obtain d2 where d2: "write_bytes ?n (CRLF @ [NUL]) d1 = Inr d2"
    using write_bytes_returns [OF d1s(1,6) room] by blast
  note d2s = write_bytes_Inr [OF d1s(1) d2]
  have "take ?n (bytes d1) = take ?n (take (capacity d) (bytes d1))" using d(5) by (simp add: min_def)
  then have pre1: "take ?n (bytes d1) = ?text" using d1s(5) d(6) by simp
  have b2: "bytes d2 = (?text @ CRLF) @ [NUL] @ drop (?n + 3) (bytes d1)"
    unfolding d2s(4) pre1 by (simp add: numeral_eq_Suc)
  have head: "?text @ CRLF = response_head r" using cl(1) by (intro header_blocks_text) simp
  have headlen: "length (response_head r) = ?n + 2" using arg_cong [OF head, of length] by simp
  have pre2: "take (?n + 2) (bytes d2) = response_head r"
    unfolding b2 head using headlen by simp
  show ?thesis
  proof (cases "payload = []")
    case True
    then have "to_string L r body dest = Inr (int (?n + 2), d2)"
      using d(1) want d1 eq d2 nsmall cl(1) by (simp add: to_string_def to_uint32_id)
    then show ?thesis
      using d2s d1c d1s(4) d(4) pre2 headlen room True
      by (intro exI [of _ d2] exI [of _ "?n + 2"]) simp
  next
    case False
    with body obtain b dd where b: "body = Some b" "data b = Some dd" "take ?cl dd = payload" by blast
    have "?cl \<le> length dd" using arg_cong [OF b(3), of length] by simp
    with b have rd: "read_bytes (nat (content_length r)) b = Inr payload"
      by (simp add: read_bytes_def cl(1))
    have "0 < capacity d2" "?n + 2 + length payload \<le> capacity d2" using d1s(2,6) d2s(2) by simp_all
    then obtain d3 where d3: "write_bytes (?n + 2) payload d2 = Inr d3"
      using write_bytes_returns [OF d2s(1)] by blast
    note d3s = write_bytes_Inr [OF d2s(1) d3]
    have "bytes d3 = response_head r @ payload @ drop (?n + 2 + ?cl) (bytes d2)"
      unfolding d3s(4) pre2 by simp
    then have "take (?n + 2 + ?cl) (bytes d3) = response_head r @ payload"
      using headlen by simp
    moreover have "to_string L r body dest = Inr (int (?n + 2 + ?cl), d3)"
      using False d(1) want d1 eq d2 b(1) rd d3 nsmall cl by (simp add: to_string_def to_uint32_id)
    moreover have "?n + 2 + ?cl \<le> capacity d3" using d1s(2) d2s(2) d3s(2) by simp
    ultimately show ?thesis
      using d3s d2s d1c d1s(4) d(4) headlen
      by (intro exI [of _ d3] exI [of _ "?n + 2 + ?cl"]) simp
  qed
qed

section \<open>What a response holds\<close>

definition planned_headers :: "file_system \<Rightarrow> int \<Rightarrow> (string \<Rightarrow> nat list) \<Rightarrow> uri_token_t \<Rightarrow> string \<Rightarrow>
    http_response_t \<Rightarrow> http_response_t" where
  "planned_headers F now sha u doc r =
     (let ok = (status_code r = HTTP_OK); f = the (uri_to_file_name u)
      in r\<lparr>content_language := ''en-US'', content_length := int (length doc),
           content_type := (if ok then content_type_of f else ''text/html;charset=utf-8''),
           last_modified := (if ok then http_date (to_int32 (the (mtime F (static_path f)))) else []),
           date := http_date now,
           etag := (if ok then concat (map hex2 (sha doc)) else [])\<rparr>)"

text \<open>The coding chosen for an \<open>Accept-Encoding\<close>, and the bytes it makes of a document.\<close>

definition coding :: "string \<Rightarrow> string" where
  "coding ae = (if strcasestr ae ''gzip'' then ''gzip'' else if strcasestr ae ''deflate'' then ''deflate'' else [])"

definition encoded :: "zlib \<Rightarrow> string \<Rightarrow> string \<Rightarrow> string" where
  "encoded Z e doc = (if e = ''gzip'' then gz_file Z doc
     else if e = ''deflate'' then deflate_out Z doc (compressBound Z (length doc)) else doc)"

definition answer :: "zlib \<Rightarrow> string \<Rightarrow> string \<Rightarrow> string \<Rightarrow> http_response_t \<Rightarrow> http_response_t \<times> string" where
  "answer Z ae inm doc h =
     (if inm \<noteq> [] \<and> inm = etag h
      then (h\<lparr>status_code := HTTP_NOT_MODIFIED, content_length := 0, content_type := [],
              content_language := [], content_encoding := []\<rparr>, [])
      else let p = encoded Z (coding ae) doc
           in (h\<lparr>content_encoding := (if coding ae = [] then content_encoding h else coding ae),
                 content_length := int (length p)\<rparr>, p))"

text \<open>The situation in which the pipeline calls \<open>construct_response\<close>.\<close>

definition build_ready :: "file_system \<Rightarrow> int \<Rightarrow> (string \<Rightarrow> nat list) \<Rightarrow> http_response_t \<Rightarrow> uri_token_t \<Rightarrow>
    buffer \<Rightarrow> buffer \<Rightarrow> bool" where
  "build_ready F now sha r u body tmp \<longleftrightarrow>
     buffer_wf body \<and> data body \<noteq> None \<and> capacity body < 2 ^ 31 \<and> 0 < count body \<and> count body < 2 ^ 27 \<and>
     buffer_wf tmp \<and> data tmp \<noteq> None \<and> capacity tmp < 2 ^ 31 \<and> sha256_ok sha \<and>
     0 \<le> now \<and> now < 253402300800 \<and>
     0 \<le> status_code r \<and> status_code r < 1000 \<and> status_code r \<noteq> HTTP_NOT_MODIFIED \<and>
     content_encoding r \<in> {[], ''gzip'', ''deflate''} \<and> length (location r) < HTTP_HEADER_SIZE \<and>
     (status_code r = HTTP_OK \<longrightarrow> (\<exists>f t. uri_to_file_name u = Some f \<and> mtime F (static_path f) = Some t))"

lemma set_compression_value:
  assumes Z: "zlib_laws Z" and body: "buffer_wf body" "data body \<noteq> None" "count body < 2 ^ 27" "0 < count body"
    and doc: "doc = take (count body) (bytes body)"
    and tmp: "buffer_wf tmp" "data tmp \<noteq> None" "take (count body) (bytes tmp) = doc" "count body \<le> capacity tmp"
    and cl: "content_length r = int (count body)"
    and fit: "length (encoded Z (coding ae) doc) \<le> capacity tmp"
    and p: "p = encoded Z (coding ae) doc"
  shows "\<exists>tmp'. set_compression Z ae body r tmp = Inr (int (length p),
      r\<lparr>content_encoding := (if coding ae = [] then content_encoding r else coding ae)\<rparr>, tmp') \<and>
    data tmp' \<noteq> None \<and> take (length p) (bytes tmp') = p"
proof -
  have cb: "count body \<le> capacity body" using body(1) by (simp add: buffer_wf_def)
  obtain bd where bd: "data body = Some bd" using body(2) by blast
  have len: "length doc = count body"
    using cb buffer_wf_length [OF body(1)] by (simp add: doc)
  have rd: "read_bytes (nat (to_uint32 (int (count body)))) body = Inr doc"
    using bd cb body(1,3) by (simp add: read_bytes_def doc bytes_def buffer_wf_def to_uint32_id)
  have doc30: "length doc < 2 ^ 30" "doc \<noteq> []" using len body(3,4) by auto
  let ?gz = "gz_file Z doc" and ?fl = "deflate_out Z doc (compressBound Z (length doc))"
  consider (gz) "strcasestr ae ''gzip''" | (fl) "\<not> strcasestr ae ''gzip''" "strcasestr ae ''deflate''"
    | (no) "\<not> strcasestr ae ''gzip''" "\<not> strcasestr ae ''deflate''" by blast
  then show ?thesis
  proof cases
    case gz
    then have pz: "p = ?gz" "coding ae = ''gzip''" by (simp_all add: p coding_def encoded_def)
    obtain t where t: "write_bytes 0 ?gz tmp = Inr t" "data t \<noteq> None" "take (length ?gz) (bytes t) = ?gz"
      using write_bytes_store [OF tmp(1,2)] fit pz p by metis
    note zg = zlib_gz [OF Z doc30(1)]
    have "set_compression Z ae body r tmp = Inr (int (length ?gz), r\<lparr>content_encoding := ''gzip''\<rparr>,
        t\<lparr>count := length ?gz\<rparr>)"
      using gz rd compress_gzip_value [OF Z doc30 t(1)] zg(4)
      by (simp add: set_compression_def Let_def)
    then show ?thesis using t pz by (simp add: bytes_def)
  next
    case fl
    then have pz: "p = ?fl" "coding ae = ''deflate''" by (simp_all add: p coding_def encoded_def)
    obtain t where t: "write_bytes 0 ?fl tmp = Inr t" "data t \<noteq> None" "take (length ?fl) (bytes t) = ?fl"
      using write_bytes_store [OF tmp(1,2)] fit pz p by metis
    have "length ?fl < 2 ^ 31" using Z doc30(1) by (fastforce simp: zlib_laws_def intro: le_less_trans)
    then have "set_compression Z ae body r tmp = Inr (int (length ?fl), r\<lparr>content_encoding := ''deflate''\<rparr>,
        t\<lparr>count := length ?fl\<rparr>)"
      using fl rd compress_deflate_value [OF Z doc30(1) t(1)]
      by (simp add: set_compression_def Let_def to_uint32_id)
    then show ?thesis using t pz by (simp add: bytes_def)
  next
    case no
    then have "p = doc" "coding ae = []" by (simp_all add: p coding_def encoded_def)
    moreover have "set_compression Z ae body r tmp = Inr (int (count body), r, tmp\<lparr>count := count body\<rparr>)"
      using no cl body(3) by (simp add: set_compression_def Let_def to_uint32_id)
    ultimately show ?thesis using tmp len by (simp add: bytes_def)
  qed
qed

lemma headers_value:
  assumes ready: "build_ready F now sha r u body tmp" and doc: "doc = take (count body) (bytes body)"
    and tmp1: "count tmp1 = count body" "take (count body) (bytes tmp1) = doc" "data tmp1 \<noteq> None"
      "buffer_wf tmp1"
  shows "\<exists>r1 r2. set_content_type u (set_content_length (int (count body)) (r\<lparr>content_language := ''en-US''\<rparr>)) = Inr r1 \<and>
    set_last_modified F u r1 = Inr r2 \<and> set_etag sha tmp1 (set_date now r2) = Inr (planned_headers F now sha u doc r)"
proof -
  note ready' = ready[unfolded build_ready_def]
  have cb: "count body \<le> capacity body" using ready' by (simp add: buffer_wf_def)
  have len: "length doc = count body"
    using cb ready' buffer_wf_length [of body] by (simp add: doc)
  have u32: "to_uint32 (int (count body)) = int (length doc)" using ready' len by (simp add: to_uint32_id)
  obtain td where td: "data tmp1 = Some td" using tmp1(3) by blast
  have rd: "read_bytes (count tmp1) tmp1 = Inr doc"
    using td tmp1 by (simp add: read_bytes_def bytes_def buffer_wf_def)
  show ?thesis
  proof (cases "status_code r = HTTP_OK")
    case True
    then obtain f t where ft: "uri_to_file_name u = Some f" "mtime F (static_path f) = Some t"
      using ready' by auto
    then show ?thesis
      using True rd ready' u32
      by (simp add: set_content_type_def set_content_length_def set_last_modified_def set_date_def set_etag_def
          get_last_modified_def planned_headers_def sha256_hash_hex_value Let_def)
  next
    case False
    then show ?thesis
      using u32
      by (simp add: set_content_type_def set_content_length_def set_last_modified_def set_date_def set_etag_def
          planned_headers_def Let_def)
  qed
qed

lemma length_content_type: "length (content_type_of f) \<le> 40"
  by (simp add: content_type_of_def)

lemma planned_fits:
  assumes ready: "build_ready F now sha r u body tmp" and "length doc < 2 ^ 27"
  shows "response_fits (planned_headers F now sha u doc r)"
proof -
  note ready' = ready[unfolded build_ready_def]
  have date: "length (http_date now) = 29" using ready' by (intro length_http_date) auto
  have mod: "length (http_date (to_int32 t)) = 29" for t
    using to_int32_range [of t] by (intro length_http_date) auto
  have etag: "length (concat (map hex2 (sha doc))) = 64" using ready' by (simp add: sha256_ok_def length_hex)
  have ct: "length (content_type_of f) < 256" for f using length_content_type [of f] by simp
  show ?thesis
    unfolding response_fits_def planned_headers_def Let_def
    using ready' assms(2) by (simp add: date mod etag ct)
qed

lemma answer_fits:
  assumes h: "response_fits h" and p: "answer Z ae inm doc h = (hd', p)" and "length p < 2 ^ 28"
  shows "response_fits hd' \<and> length p = nat (content_length hd')"
  using assms
  by (auto simp: answer_def response_fits_def coding_def Let_def split: if_splits)

lemma construct_response_headers:
  assumes mem: "\<And>m. alloc_ok L m" and ready: "build_ready F now sha r u body tmp"
    and doc: "doc = take (count body) (bytes body)"
  shows "\<exists>tmp1. buffer_wf tmp1 \<and> data tmp1 \<noteq> None \<and> capacity tmp \<le> capacity tmp1 \<and> capacity tmp1 < 2 ^ 31 \<and>
    (count body \<le> capacity tmp \<longrightarrow> capacity tmp1 = capacity tmp) \<and> count tmp1 = count body \<and>
    take (count body) (bytes tmp1) = doc \<and>
    construct_response L F now sha Z r u ae inm body tmp =
      and_then (handle_if_none_match inm (planned_headers F now sha u doc r) tmp1) (\<lambda>(r4, tmp2).
      and_then
        (if status_code r4 \<noteq> HTTP_NOT_MODIFIED
         then and_then (set_compression Z ae body r4 tmp2) (\<lambda>(n, r5, tmp3). Inr (set_content_length n r5, tmp3))
         else Inr (r4, tmp2)) (\<lambda>(r6, tmp4).
      and_then (to_string L r6 (Some tmp4) body) (\<lambda>(n, body').
        Inr (n, r6, body'\<lparr>count := nat n\<rparr>, tmp4))))"
proof -
  note ready' = ready[unfolded build_ready_def]
  obtain tmp1 where c: "copy_buffer L tmp body = Inr (int (count body), tmp1)"
    and t1: "buffer_wf tmp1" "data tmp1 \<noteq> None" "capacity tmp \<le> capacity tmp1" "capacity tmp1 < 2 ^ 31"
      "count body \<le> capacity tmp \<longrightarrow> capacity tmp1 = capacity tmp"
      "count tmp1 = count body" "take (count body) (bytes tmp1) = doc"
    using copy_buffer_value [OF mem, of tmp body] ready' by (auto simp: doc)
  obtain r1 r2 where h:
    "set_content_type u (set_content_length (int (count body)) (r\<lparr>content_language := ''en-US''\<rparr>)) = Inr r1"
    "set_last_modified F u r1 = Inr r2"
    "set_etag sha tmp1 (set_date now r2) = Inr (planned_headers F now sha u doc r)"
    using headers_value [OF ready doc t1(6,7,2,1)] by blast
  show ?thesis
    by (rule exI [of _ tmp1], intro conjI, (rule t1)+)
      (simp only: construct_response_def c and_then_simps prod.case of_nat_0_le_iff assert_that_simps h)
qed

lemma construct_response_value:
  assumes mem: "\<And>m. alloc_ok L m" and Z: "zlib_laws Z" and ready: "build_ready F now sha r u body tmp"
    and doc: "doc = take (count body) (bytes body)"
    and ans: "answer Z ae inm doc (planned_headers F now sha u doc r) = (hdrs, payload)"
    and fit: "length (encoded Z (coding ae) doc) \<le> max (capacity tmp) (count body)" "length payload < 2 ^ 28"
  shows "\<exists>n body' tmp'. construct_response L F now sha Z r u ae inm body tmp = Inr (int n, hdrs, body', tmp') \<and>
    buffer_wf body' \<and> count body' = n \<and> n = length (response_head hdrs @ payload) \<and>
    take n (bytes body') = response_head hdrs @ payload"
proof -
  note ready' = ready[unfolded build_ready_def]
  let ?h = "planned_headers F now sha u doc r"
  have cb: "count body \<le> capacity body" using ready' by (simp add: buffer_wf_def)
  have len: "length doc = count body"
    using cb ready' buffer_wf_length [of body] by (simp add: doc)
  obtain tmp1 where t1: "buffer_wf tmp1" "data tmp1 \<noteq> None" "capacity tmp \<le> capacity tmp1"
      "count tmp1 = count body" "take (count body) (bytes tmp1) = doc"
    and c: "construct_response L F now sha Z r u ae inm body tmp =
      and_then (handle_if_none_match inm ?h tmp1) (\<lambda>(r4, tmp2).
      and_then
        (if status_code r4 \<noteq> HTTP_NOT_MODIFIED
         then and_then (set_compression Z ae body r4 tmp2) (\<lambda>(n, r5, tmp3). Inr (set_content_length n r5, tmp3))
         else Inr (r4, tmp2)) (\<lambda>(r6, tmp4).
      and_then (to_string L r6 (Some tmp4) body) (\<lambda>(n, body').
        Inr (n, r6, body'\<lparr>count := nat n\<rparr>, tmp4))))"
    using construct_response_headers [OF mem ready doc] by blast
  have cb1: "count body \<le> capacity tmp1" using t1(1,4) by (simp add: buffer_wf_def)
  have hf: "response_fits ?h" using planned_fits [OF ready] len ready' by simp
  note af = answer_fits [OF hf ans fit(2)]
  have status: "status_code ?h = status_code r" by (simp add: planned_headers_def Let_def)
  obtain tmp4 where step: "and_then (handle_if_none_match inm ?h tmp1) (\<lambda>(r4, tmp2).
      if status_code r4 \<noteq> HTTP_NOT_MODIFIED
      then and_then (set_compression Z ae body r4 tmp2) (\<lambda>(n, r5, tmp3). Inr (set_content_length n r5, tmp3))
      else Inr (r4, tmp2)) = Inr (hdrs, tmp4)" "data tmp4 \<noteq> None" "take (length payload) (bytes tmp4) = payload"
  proof (cases "inm \<noteq> [] \<and> inm = etag ?h")
    case True
    obtain t where "write_bytes 0 (replicate (capacity tmp1) NUL) tmp1 = Inr t" "data t \<noteq> None"
      using write_bytes_store [OF t1(1,2), of "replicate (capacity tmp1) NUL"]
      by (metis length_replicate order_refl)
    with True ans that [of "t\<lparr>count := 0\<rparr>"] show ?thesis
      by (auto simp: handle_if_none_match_def answer_def)
  next
    case False
    then have a: "payload = encoded Z (coding ae) doc"
      "hdrs = ?h\<lparr>content_encoding := (if coding ae = [] then content_encoding ?h else coding ae),
                content_length := int (length payload)\<rparr>"
      using ans by (auto simp: answer_def Let_def)
    have cap: "length (encoded Z (coding ae) doc) \<le> capacity tmp1" using fit(1) t1(3) cb1 by simp
    have cl: "content_length ?h = int (count body)" by (simp add: planned_headers_def Let_def len)
    have b: "buffer_wf body" "data body \<noteq> None" "count body < 2 ^ 27" "0 < count body"
      using ready' by auto
    obtain t where t: "set_compression Z ae body ?h tmp1 = Inr (int (length payload),
        ?h\<lparr>content_encoding := (if coding ae = [] then content_encoding ?h else coding ae)\<rparr>, t)"
      "data t \<noteq> None" "take (length payload) (bytes t) = payload"
      using set_compression_value [OF Z b doc t1(1,2,5) cb1 cl cap a(1)] by blast
    have "handle_if_none_match inm ?h tmp1 = Inr (?h, tmp1)"
      using False by (auto simp: handle_if_none_match_def)
    with t a status ready' fit(2) that [of t] show ?thesis
      by (simp add: set_content_length_def to_uint32_id)
  qed
  have body: "payload \<noteq> [] \<longrightarrow> (\<exists>b d. Some tmp4 = Some b \<and> data b = Some d \<and> take (length payload) d = payload)"
    using step(2,3) by (auto simp: bytes_def)
  obtain d n where p: "to_string L hdrs (Some tmp4) body = Inr (int n, d)" "buffer_wf d"
    "n = length (response_head hdrs @ payload)" "n \<le> capacity d" "take n (bytes d) = response_head hdrs @ payload"
    using to_string_prints [OF mem _ _ conjunct1 [OF af] conjunct2 [OF af] body, of body] ready' by blast
  from step(1) obtain r4 tmp2 where r4: "handle_if_none_match inm ?h tmp1 = Inr (r4, tmp2)"
    "(if status_code r4 \<noteq> HTTP_NOT_MODIFIED
      then and_then (set_compression Z ae body r4 tmp2) (\<lambda>(n, r5, tmp3). Inr (set_content_length n r5, tmp3))
      else Inr (r4, tmp2)) = Inr (hdrs, tmp4)"
    by auto
  have "construct_response L F now sha Z r u ae inm body tmp = Inr (int n, hdrs, d\<lparr>count := n\<rparr>, tmp4)"
    by (simp only: c and_then_simps prod.case r4 p(1) nat_int)
  moreover have "buffer_wf (d\<lparr>count := n\<rparr>)"
    using p(2,4) by (simp add: buffer_wf_def split: option.splits)
  moreover have "take n (bytes (d\<lparr>count := n\<rparr>)) = response_head hdrs @ payload"
    using p(5) by (simp add: bytes_def)
  ultimately show ?thesis
    using p(3) by (intro exI [of _ n] exI [of _ "d\<lparr>count := n\<rparr>"] exI [of _ tmp4]) simp
qed

section \<open>Properties\<close>

text \<open>
  C10: what a response is. In the situation the pipeline calls it in (memory available, a document of
  1 byte to 128 MB, clock before the year 10000, zlib as documented and its output within the
  scratch buffer) \<open>construct_response\<close> returns; the buffer then holds, and its count covers, exactly
  the status line, the fields that have a value, an empty line and the payload. The headers and the
  payload are those \<open>answer\<close> describes: 304 without a body when \<open>If-None-Match\<close> is the document's tag,
  the coding chosen by \<open>Accept-Encoding\<close> otherwise, and \<open>Content-Length\<close> is the length of the payload.
\<close>

theorem construct_response_answers:
  assumes "\<And>m. alloc_ok L m" and "zlib_laws Z" and "build_ready F now sha r u body tmp"
    and "doc = take (count body) (bytes body)"
    and "answer Z ae inm doc (planned_headers F now sha u doc r) = (hdrs, payload)"
    and "length (encoded Z (coding ae) doc) \<le> max (capacity tmp) (count body)" and "length payload < 2 ^ 28"
  shows "\<exists>n body' tmp'. construct_response L F now sha Z r u ae inm body tmp = Inr (int n, hdrs, body', tmp') \<and>
    buffer_wf body' \<and> count body' = n \<and> n = length (response_head hdrs @ payload) \<and>
    take n (bytes body') = response_head hdrs @ payload \<and> content_length hdrs = int (length payload)"
proof -
  have "content_length hdrs = int (length payload)"
    using assms(5) by (auto simp: answer_def Let_def split: if_splits)
  with construct_response_value [OF assms] show ?thesis by blast
qed

text \<open>A server with one file, and the buffers of a worker.\<close>

definition demo_L :: libc where
  "demo_L = \<lparr>alloc_ok = (\<lambda>_. True), junk = (\<lambda>_. NUL)\<rparr>"

definition demo_site :: file_system where
  "demo_site = \<lparr>realpath = (\<lambda>_. None), regular = (\<lambda>_. True), readable = (\<lambda>_. True),
     contents = (\<lambda>_. Some ''hi''), writable = (\<lambda>_. False), mtime = (\<lambda>_. Some 0)\<rparr>"

definition demo_sha :: "string \<Rightarrow> nat list" where
  "demo_sha s = length s mod 256 # replicate 31 7"

definition demo_buf :: "string \<Rightarrow> buffer" where
  "demo_buf s = \<lparr>capacity = 64, count = length s, data = Some (s @ replicate (64 - length s) NUL)\<rparr>"

lemma demo_mem: "alloc_ok demo_L m"
  by (simp add: demo_L_def)

lemma demo_ready:
  "build_ready demo_site 0 demo_sha (zero_response\<lparr>status_code := 200, content_encoding := e\<rparr>) [[], [], [], []]
     (demo_buf ''hi'') (demo_buf [])" if "e \<in> {[], ''gzip'', ''deflate''}"
  using that
  by (auto simp: build_ready_def demo_buf_def buffer_wf_def demo_sha_def sha256_ok_def zero_response_def
      demo_site_def uri_to_file_name_def)

lemma demo_doc: "take (count (demo_buf ''hi'')) (bytes (demo_buf ''hi'')) = ''hi''"
  by (simp add: demo_buf_def bytes_def)

lemma demo_ready_plain:
  "build_ready demo_site 0 demo_sha (zero_response\<lparr>status_code := 200\<rparr>) [[], [], [], []]
     (demo_buf ''hi'') (demo_buf [])"
  using demo_ready [of "[]"] by (simp add: zero_response_def)

theorem construct_response_answers_witness:
  "\<exists>hdrs n body' tmp'. construct_response demo_L demo_site 0 demo_sha store_zlib (zero_response\<lparr>status_code := 200\<rparr>)
      [[], [], [], []] ''gzip'' [] (demo_buf ''hi'') (demo_buf []) = Inr (int n, hdrs, body', tmp') \<and>
    take n (bytes body') = response_head hdrs @ ''ghi'' \<and> content_length hdrs = 3 \<and> content_encoding hdrs = ''gzip''"
proof -
  have c: "coding ''gzip'' = ''gzip''" by (simp add: coding_def strcasestr_def)
  define h where "h = planned_headers demo_site 0 demo_sha [[], [], [], []] ''hi'' (zero_response\<lparr>status_code := 200\<rparr>)"
  have a: "answer store_zlib ''gzip'' [] ''hi'' h = (h\<lparr>content_encoding := ''gzip'', content_length := 3\<rparr>, ''ghi'')"
    by (simp add: answer_def c encoded_def)
  have "length (encoded store_zlib (coding ''gzip'') ''hi'') \<le> max (capacity (demo_buf [])) (count (demo_buf ''hi''))"
    by (simp add: c encoded_def demo_buf_def)
  from construct_response_answers [OF demo_mem store_zlib_laws demo_ready_plain demo_doc [symmetric] a [unfolded h_def] this]
  obtain n body' tmp' where
    "construct_response demo_L demo_site 0 demo_sha store_zlib (zero_response\<lparr>status_code := 200\<rparr>)
      [[], [], [], []] ''gzip'' [] (demo_buf ''hi'') (demo_buf []) =
      Inr (int n, h\<lparr>content_encoding := ''gzip'', content_length := 3\<rparr>, body', tmp')"
    "take n (bytes body') = response_head (h\<lparr>content_encoding := ''gzip'', content_length := 3\<rparr>) @ ''ghi''"
    unfolding h_def by auto
  then show ?thesis
    by (intro exI [of _ "h\<lparr>content_encoding := ''gzip'', content_length := 3\<rparr>"] exI [of _ n] exI [of _ body']
        exI [of _ tmp'] conjI) simp_all
qed

text \<open>
  C11: conditional requests. With a non-empty \<open>If-None-Match\<close> the answer is 304 exactly when the
  session's status was 200 and the header is the hexadecimal SHA-256 of the document; then no payload
  follows the head and the tag is repeated.
\<close>

theorem conditional_request:
  assumes "\<And>m. alloc_ok L m" and "zlib_laws Z" and "build_ready F now sha r u body tmp"
    and "doc = take (count body) (bytes body)" and "inm \<noteq> []"
    and "length (encoded Z (coding ae) doc) \<le> max (capacity tmp) (count body)"
    and "length (encoded Z (coding ae) doc) < 2 ^ 28"
  shows "\<exists>n hdrs body' tmp'. construct_response L F now sha Z r u ae inm body tmp = Inr (int n, hdrs, body', tmp') \<and>
    (status_code hdrs = HTTP_NOT_MODIFIED \<longleftrightarrow> status_code r = HTTP_OK \<and> inm = concat (map hex2 (sha doc))) \<and>
    (status_code hdrs = HTTP_NOT_MODIFIED \<longrightarrow>
       etag hdrs = inm \<and> content_length hdrs = 0 \<and> take n (bytes body') = response_head hdrs)"
proof -
  let ?h = "planned_headers F now sha u doc r"
  obtain hdrs payload where a: "answer Z ae inm doc ?h = (hdrs, payload)" by fastforce
  have "status_code r \<noteq> HTTP_NOT_MODIFIED" using assms(3) by (simp add: build_ready_def)
  moreover have "status_code ?h = status_code r"
    "etag ?h = (if status_code r = HTTP_OK then concat (map hex2 (sha doc)) else [])"
    by (simp_all add: planned_headers_def Let_def)
  ultimately have s: "status_code hdrs = HTTP_NOT_MODIFIED \<longleftrightarrow>
      status_code r = HTTP_OK \<and> inm = concat (map hex2 (sha doc))"
    "status_code hdrs = HTTP_NOT_MODIFIED \<Longrightarrow> etag hdrs = inm \<and> content_length hdrs = 0 \<and> payload = []"
    using a assms(5) by (auto simp: answer_def Let_def split: if_splits)
  have "length payload < 2 ^ 28" using a assms(7) by (auto simp: answer_def Let_def split: if_splits)
  from construct_response_value [OF assms(1-4) a assms(6) this] s show ?thesis by auto
qed

theorem conditional_request_witness:
  "\<exists>n hdrs body' tmp'. construct_response demo_L demo_site 0 demo_sha store_zlib (zero_response\<lparr>status_code := 200\<rparr>)
      [[], [], [], []] ''gzip'' (concat (map hex2 (demo_sha ''hi''))) (demo_buf ''hi'') (demo_buf []) =
      Inr (int n, hdrs, body', tmp') \<and> status_code hdrs = HTTP_NOT_MODIFIED \<and> take n (bytes body') = response_head hdrs"
proof -
  have c: "coding ''gzip'' = ''gzip''" by (simp add: coding_def strcasestr_def)
  have "concat (map hex2 (demo_sha ''hi'')) \<noteq> []" by (simp add: demo_sha_def hex2_def)
  moreover have "length (encoded store_zlib (coding ''gzip'') ''hi'') \<le> max (capacity (demo_buf [])) (count (demo_buf ''hi''))"
    "length (encoded store_zlib (coding ''gzip'') ''hi'') < 2 ^ 28"
    by (simp_all add: c encoded_def demo_buf_def)
  ultimately obtain n hdrs body' tmp' where
    "construct_response demo_L demo_site 0 demo_sha store_zlib (zero_response\<lparr>status_code := 200\<rparr>)
      [[], [], [], []] ''gzip'' (concat (map hex2 (demo_sha ''hi''))) (demo_buf ''hi'') (demo_buf []) =
      Inr (int n, hdrs, body', tmp')"
    "status_code hdrs = HTTP_NOT_MODIFIED \<longleftrightarrow> status_code (zero_response\<lparr>status_code := 200\<rparr>) = HTTP_OK \<and>
       concat (map hex2 (demo_sha ''hi'')) = concat (map hex2 (demo_sha ''hi''))"
    "status_code hdrs = HTTP_NOT_MODIFIED \<longrightarrow> take n (bytes body') = response_head hdrs"
    using conditional_request [OF demo_mem store_zlib_laws demo_ready_plain demo_doc [symmetric]] by blast
  then show ?thesis by auto
qed

text \<open>
  \<open>construct_response\<close> clears \<open>content_encoding\<close> only for a 304. The response structure of a session
  is reused by the next request of a kept connection, so when the earlier answer was compressed and
  the new request accepts no coding, the plain document goes out under the old \<open>Content-Encoding\<close>.
\<close>

lemma stale_content_encoding:
  assumes "\<And>m. alloc_ok L m" and "zlib_laws Z" and "build_ready F now sha r u body tmp"
    and "doc = take (count body) (bytes body)"
    and "content_encoding r = ''gzip''" and "coding ae = []" and "inm = []"
  shows "\<exists>n hdrs body' tmp'. construct_response L F now sha Z r u ae inm body tmp = Inr (int n, hdrs, body', tmp') \<and>
    take n (bytes body') = response_head hdrs @ doc \<and>
    (''Content-Encoding'', ''gzip'') \<in> set (response_fields hdrs)"
proof -
  let ?h = "planned_headers F now sha u doc r"
  have len: "length doc < 2 ^ 27" "length doc \<le> count body" using assms(3) by (auto simp: assms(4) build_ready_def)
  have e: "content_encoding ?h = ''gzip''" using assms(5) by (simp add: planned_headers_def Let_def)
  have "answer Z ae inm doc ?h = (?h\<lparr>content_encoding := ''gzip'', content_length := int (length doc)\<rparr>, doc)"
    using assms(6,7) e by (simp add: answer_def encoded_def)
  moreover have "length (encoded Z (coding ae) doc) \<le> max (capacity tmp) (count body)" "length doc < 2 ^ 28"
    using len assms(6) by (simp_all add: encoded_def)
  ultimately obtain n body' tmp' where
    "construct_response L F now sha Z r u ae inm body tmp =
       Inr (int n, ?h\<lparr>content_encoding := ''gzip'', content_length := int (length doc)\<rparr>, body', tmp')"
    "take n (bytes body') = response_head (?h\<lparr>content_encoding := ''gzip'', content_length := int (length doc)\<rparr>) @ doc"
    using construct_response_value [OF assms(1-4)] by blast
  moreover have "(''Content-Encoding'', ''gzip'') \<in>
      set (response_fields (?h\<lparr>content_encoding := ''gzip'', content_length := int (length doc)\<rparr>))"
    by (simp add: response_fields_def)
  ultimately show ?thesis by blast
qed

text \<open>
  C37: nothing compares the size of the compressed document with the scratch buffer: when the gzip file
  is larger than the buffer, its bytes are written past the end of the allocation.
\<close>

theorem compressed_document_overflows:
  assumes "\<And>m. alloc_ok L m" and "zlib_laws Z" and "build_ready F now sha r u body tmp"
    and "doc = take (count body) (bytes body)" and "strcasestr ae ''gzip''" and "inm = []"
    and "count body \<le> capacity tmp" and "capacity tmp < length (gz_file Z doc)"
  shows "construct_response L F now sha Z r u ae inm body tmp = Inl (Out_of_bounds ''data'')"
proof -
  let ?h = "planned_headers F now sha u doc r"
  note ready = assms(3)[unfolded build_ready_def]
  obtain tmp1 where t1: "buffer_wf tmp1" "data tmp1 \<noteq> None"
      "count body \<le> capacity tmp \<longrightarrow> capacity tmp1 = capacity tmp"
    and c: "construct_response L F now sha Z r u ae inm body tmp =
      and_then (handle_if_none_match inm ?h tmp1) (\<lambda>(r4, tmp2).
      and_then
        (if status_code r4 \<noteq> HTTP_NOT_MODIFIED
         then and_then (set_compression Z ae body r4 tmp2) (\<lambda>(n, r5, tmp3). Inr (set_content_length n r5, tmp3))
         else Inr (r4, tmp2)) (\<lambda>(r6, tmp4).
      and_then (to_string L r6 (Some tmp4) body) (\<lambda>(n, body').
        Inr (n, r6, body'\<lparr>count := nat n\<rparr>, tmp4))))"
    using construct_response_headers [OF assms(1,3,4)] by blast
  have cb: "count body \<le> capacity body" using ready by (simp add: buffer_wf_def)
  obtain bd where bd: "data body = Some bd" using ready by blast
  have len: "length doc = count body" using cb ready buffer_wf_length [of body] by (simp add: assms(4))
  have rd: "read_bytes (nat (to_uint32 (int (count body)))) body = Inr doc"
    using bd cb ready by (simp add: read_bytes_def assms(4) bytes_def buffer_wf_def to_uint32_id)
  have doc30: "length doc < 2 ^ 30" "doc \<noteq> []" using len ready by auto
  note zg = zlib_gz [OF assms(2) doc30(1)]
  have "write_bytes 0 (gz_file Z doc) tmp1 = Inl (Out_of_bounds ''data'')"
    using t1 assms(7,8) by (auto simp: write_bytes_def in_bounds_def buffer_wf_def)
  then have "compress_gzip Z doc tmp1 = Inl (Out_of_bounds ''data'')"
    using assms(2) zg doc30 by (simp add: compress_gzip_def zlib_laws_def Let_def)
  then have "set_compression Z ae body ?h tmp1 = Inl (Out_of_bounds ''data'')"
    using rd assms(5) by (simp add: set_compression_def Let_def)
  moreover have "handle_if_none_match inm ?h tmp1 = Inr (?h, tmp1)" by (simp add: handle_if_none_match_def assms(6))
  moreover have "status_code ?h \<noteq> HTTP_NOT_MODIFIED" using ready by (simp add: planned_headers_def Let_def)
  ultimately show ?thesis by (simp add: c)
qed

theorem compressed_document_overflows_witness:
  "construct_response demo_L demo_site 0 demo_sha (store_zlib\<lparr>gz_file := (\<lambda>s. replicate 65 CHR ''g'' @ s),
        gzread := (\<lambda>f room. (int (length (take room (drop 65 f))), take room (drop 65 f)))\<rparr>)
      (zero_response\<lparr>status_code := 200\<rparr>) [[], [], [], []] ''gzip'' [] (demo_buf ''hi'') (demo_buf [])
    = Inl (Out_of_bounds ''data'')"
proof -
  have Z: "zlib_laws (store_zlib\<lparr>gz_file := (\<lambda>s. replicate 65 CHR ''g'' @ s),
        gzread := (\<lambda>f room. (int (length (take room (drop 65 f))), take room (drop 65 f)))\<rparr>)"
    by (simp add: zlib_laws_def store_zlib_def)
  show ?thesis
    by (rule compressed_document_overflows [OF demo_mem Z demo_ready_plain demo_doc [symmetric]])
      (simp_all add: strcasestr_def demo_buf_def)
qed

text \<open>
  A compression that fails is not answered with the plain document. \<open>compress_gzip\<close> reports -1,
  which \<open>unsigned int return_value\<close> holds as 4294967295; the test \<open>return_value < 0\<close> never succeeds,
  and the run that asks for such a response stops in a failed assertion or outside an array.
\<close>

lemma failed_compression_stops:
  assumes "\<And>m. alloc_ok L m" and "build_ready F now sha r u body tmp"
    and "strcasestr ae ''gzip''" and "inm = []" and "\<not> tmpfile_ok Z"
  shows "\<not> returns (construct_response L F now sha Z r u ae inm body tmp)"
proof -
  let ?h = "planned_headers F now sha u (take (count body) (bytes body)) r"
  note ready = assms(2)[unfolded build_ready_def]
  obtain tmp1 where t1: "buffer_wf tmp1" "capacity tmp1 < 2 ^ 31"
    and c: "construct_response L F now sha Z r u ae inm body tmp =
      and_then (handle_if_none_match inm ?h tmp1) (\<lambda>(r4, tmp2).
      and_then
        (if status_code r4 \<noteq> HTTP_NOT_MODIFIED
         then and_then (set_compression Z ae body r4 tmp2) (\<lambda>(n, r5, tmp3). Inr (set_content_length n r5, tmp3))
         else Inr (r4, tmp2)) (\<lambda>(r6, tmp4).
      and_then (to_string L r6 (Some tmp4) body) (\<lambda>(n, body').
        Inr (n, r6, body'\<lparr>count := nat n\<rparr>, tmp4))))"
    using construct_response_headers [OF assms(1,2) refl] by blast
  have cb: "count body \<le> capacity body" using ready by (simp add: buffer_wf_def)
  obtain bd where bd: "data body = Some bd" "length bd = capacity body" using ready by (auto simp: buffer_wf_def)
  have rd: "\<exists>input. read_bytes (nat (to_uint32 (int (count body)))) body = Inr input"
    using bd cb ready by (simp add: read_bytes_def to_uint32_id)
  have sc: "set_compression Z ae body ?h tmp1 =
      Inr (4294967295, ?h\<lparr>content_encoding := ''gzip''\<rparr>, tmp1\<lparr>count := 4294967295\<rparr>)"
    using rd assms(3,5) by (auto simp: set_compression_def compress_gzip_def Let_def to_uint32_def)
  let ?r = "?h\<lparr>content_encoding := ''gzip'', content_length := 4294967295\<rparr>"
  have rb: "\<not> returns (read_bytes 4294967295 (tmp1\<lparr>count := 4294967295\<rparr>))"
    using t1 by (auto simp: read_bytes_def returns_iff buffer_wf_def split: option.splits)
  have "\<not> returns (to_string L ?r (Some (tmp1\<lparr>count := 4294967295\<rparr>)) body)"
    using rb by (auto simp: to_string_def returns_iff)
  moreover have "handle_if_none_match inm ?h tmp1 = Inr (?h, tmp1)" by (simp add: handle_if_none_match_def assms(4))
  moreover have "status_code ?h \<noteq> HTTP_NOT_MODIFIED" using ready by (simp add: planned_headers_def Let_def)
  ultimately show ?thesis
    using sc by (auto simp: c returns_iff set_content_length_def to_uint32_def)
qed

end
