(* ===== verification/Templates.thy ===== *)
theory Templates
  imports CString Buffer
begin

text \<open>
  \<open>str_replace\<close> of \<^verbatim>\<open>src/handlers/loader.c\<close>: the occurrences of a placeholder in a page, which is the
  C string a buffer holds, are replaced in place. A scan that finds no NUL inside the allocation, a
  move or a copy outside it is \<open>Out_of_bounds\<close>. \<open>replace_once\<close> is what the function is meant to do
  with a placeholder that occurs once.
\<close>

text \<open>The C string at an offset of the memory.\<close>

definition c_string_at :: "nat \<Rightarrow> buffer \<Rightarrow> string result" where
  "c_string_at off b =
     (case data b of
        None \<Rightarrow> Inl (Null_pointer ''data'')
      | Some d \<Rightarrow> in_bounds ''data'' (NUL \<in> set (drop off d)) (Inr (cstr (drop off d))))"

text \<open>\<open>n\<close> bytes at an offset.\<close>

definition read_at :: "nat \<Rightarrow> nat \<Rightarrow> buffer \<Rightarrow> string result" where
  "read_at off n b =
     (case data b of
        None \<Rightarrow> Inl (Null_pointer ''data'')
      | Some d \<Rightarrow> in_bounds ''data'' (off + n \<le> length d) (Inr (take n (drop off d))))"

text \<open>One hit at \<open>hit_offset\<close>: grow, move the tail, copy the replacement, terminate.\<close>

definition replace_hit :: "libc \<Rightarrow> nat \<Rightarrow> string \<Rightarrow> nat \<Rightarrow> buffer \<Rightarrow> buffer result" where
  "replace_hit L needle_len replacement hit_offset target =
     (let diff = to_int32 (to_uint32 (int (length replacement) - int needle_len));
          after_needle = hit_offset + needle_len
      in and_then (if diff \<ge> 0 then assert_capacity L target (nat (to_uint64 (int (count target) + diff + 1)))
                   else Inr target) (\<lambda>t1.
         and_then (read_at after_needle (nat (to_uint64 (int (count t1) - int after_needle))) t1) (\<lambda>tail.
         and_then (write_bytes (nat (int after_needle + diff)) tail t1) (\<lambda>t2.
         and_then (write_bytes hit_offset replacement t2) (\<lambda>t3.
         let n = nat (to_uint64 (int (count t3) + diff)) in
         write_bytes n [NUL] (t3\<lparr>count := n\<rparr>))))))"

text \<open>The loop, with the number of rounds left; \<open>first\<close> is \<open>occurrences == 0\<close>.\<close>

fun replace_loop :: "libc \<Rightarrow> string \<Rightarrow> string \<Rightarrow> nat \<Rightarrow> bool \<Rightarrow> nat \<Rightarrow> buffer \<Rightarrow> buffer result" where
  "replace_loop L needle replacement 0 first offset target = Inr target"
| "replace_loop L needle replacement (Suc n) first offset target =
     and_then (c_string_at offset target) (\<lambda>s.
     case strstr s needle of
       None \<Rightarrow> assert_that ''hit != NULL || occurrences > 0'' (\<not> first) (Inr target)
     | Some hit \<Rightarrow>
         let hit_offset = offset + (length s - length hit) in
         and_then (replace_hit L (length needle) replacement hit_offset target) (\<lambda>target'.
           replace_loop L needle replacement n False (offset + (hit_offset + length replacement)) target'))"

definition str_replace :: "libc \<Rightarrow> buffer \<Rightarrow> string \<Rightarrow> string option \<Rightarrow> buffer result" where
  "str_replace L target needle replacement =
     (case replacement of
        None \<Rightarrow> Inl (Null_pointer ''strlen'')
      | Some r \<Rightarrow> replace_loop L needle r 10 True 0 target)"

section \<open>Pages\<close>

text \<open>A buffer that holds a text of \<open>count\<close> characters and its NUL.\<close>

definition holds :: "string \<Rightarrow> buffer \<Rightarrow> bool" where
  "holds s b \<longleftrightarrow> buffer_wf b \<and> data b \<noteq> None \<and> capacity b < 2 ^ 31 \<and> count b = length s \<and> NUL \<notin> set s \<and>
     length s < capacity b \<and> take (length s + 1) (bytes b) = s @ [NUL]"

lemma holds_data:
  assumes "holds s b"
  obtains r where "data b = Some (s @ NUL # r)" "capacity b = length s + 1 + length r" "count b = length s"
proof -
  obtain d where d: "data b = Some d" using assms by (auto simp: holds_def)
  then have "take (length s + 1) d = s @ [NUL]" using assms by (simp add: holds_def bytes_def)
  then obtain r where "d = (s @ [NUL]) @ r" by (metis append_take_drop_id)
  with d assms that [of r] show thesis
    by (simp add: holds_def buffer_wf_def)
qed

lemma cstr_text: "NUL \<notin> set s \<Longrightarrow> cstr (s @ NUL # r) = s"
  by (induction s) (auto simp: cstr_def)

lemma c_string_at_holds:
  assumes "holds s b" and "off \<le> length s"
  shows "c_string_at off b = Inr (drop off s)"
proof -
  obtain r where r: "data b = Some (s @ NUL # r)" using holds_data [OF assms(1)] by blast
  have "NUL \<notin> set (drop off s)" using assms(1) in_set_dropD [of NUL off s] by (auto simp: holds_def)
  from cstr_text [OF this, of r] r assms(2) show ?thesis by (simp add: c_string_at_def)
qed

text \<open>One round, when memory is available: exactly the hit is exchanged.\<close>

lemma replace_hit_exchanges:
  assumes mem: "\<And>m. alloc_ok L m" and h: "holds (x @ needle @ y) b" and r: "NUL \<notin> set r"
    and len: "length (x @ needle @ y) + length r < 2 ^ 29"
  shows "\<exists>b'. replace_hit L (length needle) r (length x) b = Inr b' \<and> holds (x @ r @ y) b'"
proof -
  let ?s = "x @ needle @ y"
  let ?diff = "int (length r) - int (length needle)"
  have l: "int (length r) < 2147483648" "int (length needle) < 2147483648" using len by simp_all
  have diff: "to_int32 (to_uint32 ?diff) = ?diff"
    unfolding to_int32_uint32 by (rule to_int32_id) (use l in simp_all)
  have wf: "buffer_wf b" "capacity b < 2 ^ 31" "count b = length ?s" "length ?s < capacity b"
    using h by (auto simp: holds_def)
  have "\<exists>t1 rest. (if ?diff \<ge> 0 then assert_capacity L b (nat (to_uint64 (int (count b) + ?diff + 1))) else Inr b) = Inr t1 \<and>
      data t1 = Some (?s @ NUL # rest) \<and> buffer_wf t1 \<and> capacity t1 < 2 ^ 31 \<and> count t1 = length ?s \<and>
      length x + length r + length y < capacity t1"
  proof (cases "?diff \<ge> 0")
    case True
    have want: "nat (to_uint64 (int (count b) + ?diff + 1)) = length x + length r + length y + 1"
      using True len wf(3) by (simp add: to_uint64_def)
    obtain t1 where t1: "assert_capacity L b (length x + length r + length y + 1) = Inr t1"
      using assert_capacity_returns [OF mem wf(1,2)] len by fastforce
    note ts = assert_capacity_Inr [OF wf(1) t1]
    have small: "capacity t1 < 2 ^ 31" using assert_capacity_small [OF wf(2) _ t1] len by simp
    obtain rb where rb: "data b = Some (?s @ NUL # rb)" using holds_data [OF h] by blast
    have "take (capacity b) (bytes t1) = ?s @ NUL # rb" using ts(5) rb by (simp add: bytes_def)
    then have "bytes t1 = ?s @ NUL # (rb @ drop (capacity b) (bytes t1))"
      by (metis append.assoc append_Cons append_take_drop_id)
    moreover have "data t1 = Some (bytes t1)"
      using ts(1,6) by (auto simp: bytes_def buffer_wf_def split: option.splits)
    ultimately show ?thesis
      using True t1 want ts small wf(3) by auto
  next
    case False
    with holds_data [OF h] wf show ?thesis by auto
  qed
  then obtain t1 rest where
    t1: "(if ?diff \<ge> 0 then assert_capacity L b (nat (to_uint64 (int (count b) + ?diff + 1))) else Inr b) = Inr t1"
    and d: "data t1 = Some (?s @ NUL # rest)" "buffer_wf t1" "capacity t1 < 2 ^ 31" "count t1 = length ?s"
      "length x + length r + length y < capacity t1" by blast
  have tail: "read_at (length x + length needle) (nat (to_uint64 (int (count t1) - int (length x + length needle)))) t1 = Inr y"
    using d(1,4) len by (simp add: read_at_def to_uint64_def)
  have to: "nat (int (length x + length needle) + ?diff) = length x + length r" by simp
  have n: "nat (to_uint64 (int (count t1) + ?diff)) = length x + length r + length y"
    using d(4) len by (simp add: to_uint64_def)
  have pos: "0 < capacity t1" using d(5) by simp
  obtain t2 where t2: "write_bytes (length x + length r) y t1 = Inr t2"
    using write_bytes_returns [OF d(2) pos, of "length x + length r" y] d(5) by auto
  note t2s = write_bytes_Inr [OF d(2) t2]
  obtain t3 where t3: "write_bytes (length x) r t2 = Inr t3"
    using write_bytes_returns [OF t2s(1), of "length x" r] d(5) t2s(2) by auto
  note t3s = write_bytes_Inr [OF t2s(1) t3]
  let ?n = "length x + length r + length y"
  let ?t = "t3\<lparr>count := ?n\<rparr>"
  have wft: "buffer_wf ?t" "capacity ?t = capacity t1" "bytes ?t = bytes t3"
    using t3s(1,2) t2s(2) d(5) by (auto simp: buffer_wf_def bytes_def split: option.splits)
  obtain t4 where t4: "write_bytes ?n [NUL] ?t = Inr t4"
    using write_bytes_returns [OF wft(1), of ?n "[NUL]"] wft(2) d(5) by auto
  note t4s = write_bytes_Inr [OF wft(1) t4]
  have l1: "length (bytes t1) = capacity t1" using d(2) by (rule buffer_wf_length)
  have b1: "bytes t1 = x @ drop (length x) (bytes t1)" using d(1) by (simp add: bytes_def)
  have b2: "bytes t2 = take (length x + length r) (bytes t1) @ y @ drop (?n) (bytes t1)"
    using t2s(4) by (simp add: add.assoc)
  have b3: "bytes t3 = x @ r @ y @ drop ?n (bytes t1)"
  proof -
    have "take (length x) (bytes t2) = x" unfolding b2 using l1 d(1) by (simp add: bytes_def)
    moreover have "drop (length x + length r) (bytes t2) = y @ drop ?n (bytes t1)"
      unfolding b2 using l1 d(5) by simp
    ultimately show ?thesis using t3s(4) by simp
  qed
  have b4: "bytes t4 = x @ r @ y @ NUL # drop (?n + 1) (bytes t1)"
    unfolding t4s(4) wft(3) b3 by (simp add: add.assoc)
  have "holds (x @ r @ y) t4"
  proof -
    have "data t4 \<noteq> None" using t4 by (auto simp: write_bytes_def split: option.splits)
    moreover have "NUL \<notin> set (x @ r @ y)" using h r by (simp add: holds_def)
    moreover have "take (?n + 1) (bytes t4) = (x @ r @ y) @ [NUL]" unfolding b4 by simp
    ultimately show ?thesis
      using t4s(1-3) d(3,5) wft(2) by (simp add: holds_def add.assoc)
  qed
  moreover have "replace_hit L (length needle) r (length x) b = Inr t4"
    unfolding replace_hit_def Let_def diff t1 and_then_simps tail to t2 t3 using t3s(3) t2s(3) n t4 by simp
  ultimately show ?thesis by blast
qed

lemma replace_loop_hit:
  assumes mem: "\<And>m. alloc_ok L m" and h: "holds (x @ needle @ y) b" and r: "NUL \<notin> set r"
    and len: "length (x @ needle @ y) + length r < 2 ^ 29"
    and off: "off \<le> length x" "strstr (drop off (x @ needle @ y)) needle = Some (needle @ y)"
  shows "\<exists>b'. holds (x @ r @ y) b' \<and> replace_loop L needle r (Suc n) first off b =
    replace_loop L needle r n False (off + (length x + length r)) b'"
proof -
  obtain b' where b': "replace_hit L (length needle) r (length x) b = Inr b'" "holds (x @ r @ y) b'"
    using replace_hit_exchanges [OF mem h r len] by blast
  have "off \<le> length (x @ needle @ y)" using off(1) by simp
  from c_string_at_holds [OF h this] have
    "replace_loop L needle r (Suc n) first off b = replace_loop L needle r n False (off + (length x + length r)) b'"
    using off b' by (simp add: Let_def)
  with b'(2) show ?thesis by blast
qed

lemma replace_loop_miss:
  assumes "holds s b" and "off \<le> length s" and "strstr (drop off s) needle = None"
  shows "replace_loop L needle r (Suc n) False off b = Inr b"
  using c_string_at_holds [OF assms(1,2)] assms(3) by simp

text \<open>
  One occurrence is exchanged. With two occurrences the second is exchanged as well, but the third
  search starts too far: the offset of the second hit, which counts from the start of the page, is
  added to the offset the search started from.
\<close>

lemma str_replace_single:
  assumes mem: "\<And>m. alloc_ok L m" and h: "holds (x @ needle @ y) b" and r: "NUL \<notin> set r"
    and len: "length (x @ needle @ y) + length r < 2 ^ 29"
    and hits: "strstr (x @ needle @ y) needle = Some (needle @ y)" "strstr y needle = None"
  shows "\<exists>b'. str_replace L b needle (Some r) = Inr b' \<and> holds (x @ r @ y) b'"
proof -
  obtain b' where b': "holds (x @ r @ y) b'"
    "replace_loop L needle r (Suc 9) True 0 b = replace_loop L needle r 9 False (0 + (length x + length r)) b'"
    using replace_loop_hit [OF mem h r len _, of 0 9 True] hits(1) by auto
  have "replace_loop L needle r (Suc 8) False (0 + (length x + length r)) b' = Inr b'"
    using replace_loop_miss [OF b'(1), of "0 + (length x + length r)" needle L r 8] hits(2) by simp
  then have "str_replace L b needle (Some r) = Inr b'"
    using b'(2) by (simp add: str_replace_def numeral_eq_Suc)
  with b'(1) show ?thesis by blast
qed

lemma str_replace_pair:
  assumes mem: "\<And>m. alloc_ok L m" and h: "holds (x @ needle @ y @ needle @ z) b" and r: "NUL \<notin> set r"
    and len: "length (x @ needle @ y @ needle @ z) + 2 * length r < 2 ^ 29"
    and hits: "strstr (x @ needle @ y @ needle @ z) needle = Some (needle @ y @ needle @ z)"
      "strstr (y @ needle @ z) needle = Some (needle @ z)"
    and rest: "length x + length r \<le> length z" "strstr (drop (length x + length r) z) needle = None"
  shows "\<exists>b'. str_replace L b needle (Some r) = Inr b' \<and> holds (x @ r @ y @ r @ z) b'"
proof -
  let ?o = "length x + length r"
  obtain b1 where b1: "holds (x @ r @ y @ needle @ z) b1"
    "replace_loop L needle r (Suc 9) True 0 b = replace_loop L needle r 9 False (0 + ?o) b1"
    using replace_loop_hit [OF mem _ r _, where x = x and y = "y @ needle @ z" and off = 0 and b = b] h len hits(1)
    by fastforce
  have h2: "holds ((x @ r @ y) @ needle @ z) b1" using b1(1) by simp
  obtain b2 where b2: "holds ((x @ r @ y) @ r @ z) b2"
    "replace_loop L needle r (Suc 8) False ?o b1 = replace_loop L needle r 8 False (?o + (length (x @ r @ y) + length r)) b2"
    using replace_loop_hit [OF mem h2 r, of ?o 8 False] len hits(2) by auto
  have "replace_loop L needle r (Suc 7) False (?o + (length (x @ r @ y) + length r)) b2 = Inr b2"
    using rest by (intro replace_loop_miss [OF b2(1)]) auto
  then have "str_replace L b needle (Some r) = Inr b2"
    using b1(2) b2(2) by (simp add: str_replace_def numeral_eq_Suc)
  with b2(1) show ?thesis by auto
qed

text \<open>The page with the first occurrence exchanged; a placeholder that occurs once.\<close>

definition exchange :: "string \<Rightarrow> string \<Rightarrow> string \<Rightarrow> string" where
  "exchange needle r s =
     (case strstr s needle of
        None \<Rightarrow> s
      | Some hit \<Rightarrow> take (length s - length hit) s @ r @ drop (length needle) hit)"

definition occurs_once :: "string \<Rightarrow> string \<Rightarrow> bool" where
  "occurs_once needle s \<longleftrightarrow>
     (case strstr s needle of None \<Rightarrow> False | Some hit \<Rightarrow> strstr (drop (length needle) hit) needle = None)"

lemma str_replace_exchange:
  assumes mem: "\<And>m. alloc_ok L m" and h: "holds s b" and r: "NUL \<notin> set r"
    and len: "length s + length r < 2 ^ 29" and once: "occurs_once needle s"
  shows "\<exists>b'. str_replace L b needle (Some r) = Inr b' \<and> holds (exchange needle r s) b'"
proof -
  obtain hit where hit: "strstr s needle = Some hit" "strstr (drop (length needle) hit) needle = None"
    using once by (auto simp: occurs_once_def split: option.splits)
  from strstr_Some [OF hit(1)] obtain x y where xy: "s = x @ hit" "hit = needle @ y" by blast
  then have "exchange needle r s = x @ r @ y" using hit(1) by (simp add: exchange_def)
  with str_replace_single [OF mem, of x needle y b r] h r len hit xy show ?thesis by simp
qed

lemma length_exchange: "length (exchange needle r s) \<le> length s + length r"
  using strstr_Some [of s needle] by (fastforce simp: exchange_def split: option.splits)

section \<open>Properties\<close>

text \<open>A page of characters, in memory of the given size.\<close>

definition page :: "nat \<Rightarrow> string \<Rightarrow> buffer" where
  "page n s = \<lparr>capacity = n, count = length s, data = Some (s @ replicate (n - length s) NUL)\<rparr>"

lemma holds_page: "NUL \<notin> set s \<Longrightarrow> length s < n \<Longrightarrow> n < 2 ^ 31 \<Longrightarrow> holds s (page n s)"
  by (cases "n - length s") (auto simp: holds_def page_def buffer_wf_def bytes_def)

definition plenty :: libc where
  "plenty = \<lparr>alloc_ok = (\<lambda>_. True), junk = (\<lambda>_. NUL)\<rparr>"

lemma plenty_ok: "alloc_ok plenty m"
  by (simp add: plenty_def)

text \<open>
  C24: a placeholder that occurs once in the page is replaced by the text, whether it is shorter or
  longer; nothing else of the page changes, its count is right and it ends in a NUL.
\<close>

theorem str_replace_once:
  assumes "\<And>m. alloc_ok L m" and "holds (x @ needle @ y) b" and "NUL \<notin> set r"
    and "length (x @ needle @ y) + length r < 2 ^ 29"
    and "strstr (x @ needle @ y) needle = Some (needle @ y)" and "strstr y needle = None"
  shows "\<exists>b'. str_replace L b needle (Some r) = Inr b' \<and> holds (x @ r @ y) b'"
  by (rule str_replace_single [OF assms])

theorem str_replace_once_witness:
  "\<exists>b'. str_replace plenty (page 12 ''<b>%V%</b>'') ''%V%'' (Some ''1.2.1 stable'') = Inr b' \<and>
     holds ''<b>1.2.1 stable</b>'' b'"
  using str_replace_once [OF plenty_ok, of "''<b>''" "''%V%''" "''</b>''" "page 12 ''<b>%V%</b>''" "''1.2.1 stable''"]
  by (simp add: holds_page)

text \<open>
  A third occurrence that begins less than \<open>length x + length r\<close> characters behind the second one
  is left in the page, \<open>x\<close> being what precedes the first and \<open>r\<close> the replacement.
\<close>

lemma str_replace_misses_third:
  assumes "\<And>m. alloc_ok L m" and "holds (x @ needle @ y @ needle @ u @ needle @ v) b" and "NUL \<notin> set r"
    and "length (x @ needle @ y @ needle @ u @ needle @ v) + 2 * length r < 2 ^ 29"
    and "strstr (x @ needle @ y @ needle @ u @ needle @ v) needle = Some (needle @ y @ needle @ u @ needle @ v)"
    and "strstr (y @ needle @ u @ needle @ v) needle = Some (needle @ u @ needle @ v)"
    and "length u < length x + length r" and "length x + length r \<le> length (u @ needle @ v)"
    and "strstr (drop (length x + length r) (u @ needle @ v)) needle = None"
  shows "\<exists>b'. str_replace L b needle (Some r) = Inr b' \<and> holds (x @ r @ y @ r @ u @ needle @ v) b'"
  using str_replace_pair [OF assms(1), of x needle y "u @ needle @ v" b r] assms(2-) by simp

end
