(* ===== verification/Loader.thy ===== *)
theory Loader
  imports HttpResponse Templates
begin

text \<open>
  \<^verbatim>\<open>src/handlers/loader.c\<close>: the stage that puts the document of a request into the session's buffer. SQLite
  is not part of the program: the record \<open>sqlite\<close> holds its calls on a prepared statement of an
  abstract type \<open>'s\<close>, and \<open>cursor_laws\<close> is what their documentation promises of a query. Logging is
  omitted. A loop over the rows of a statement need not end, so not ending is a value.
\<close>

section \<open>SQLite\<close>

abbreviation SQLITE_OK :: int where "SQLITE_OK \<equiv> 0"
abbreviation SQLITE_ROW :: int where "SQLITE_ROW \<equiv> 100"
abbreviation SQLITE_DONE :: int where "SQLITE_DONE \<equiv> 101"

record 's sqlite =
  sql_prepare :: "string \<Rightarrow> 's option"        \<comment> \<open>\<open>None\<close>: not \<open>SQLITE_OK\<close>\<close>
  sql_bind_text :: "string \<Rightarrow> 's \<Rightarrow> 's"       \<comment> \<open>the first parameter\<close>
  sql_step :: "'s \<Rightarrow> int \<times> 's"
  sql_column_text :: "'s \<Rightarrow> nat \<Rightarrow> string option"
  sql_reset :: "'s \<Rightarrow> int \<times> 's"
  sql_clear_bindings :: "'s \<Rightarrow> 's"

text \<open>The statements a worker keeps between requests.\<close>

record 's statements =
  index_projects_stmt :: "'s option"
  index_posts_stmt :: "'s option"
  project_stmt :: "'s option"
  post_stmt :: "'s option"

definition no_statements :: "'s statements" where
  "no_statements = \<lparr>index_projects_stmt = None, index_posts_stmt = None, project_stmt = None, post_stmt = None\<rparr>"

definition INDEX_PROJECTS_SQL :: string where
  "INDEX_PROJECTS_SQL = ''SELECT id, title FROM Project;''"

definition INDEX_POSTS_SQL :: string where
  "INDEX_POSTS_SQL = ''SELECT id, title FROM Post WHERE visibility = '' @ [CHR 0x27] @ ''PUBLIC'' @ [CHR 0x27] @
     '' ORDER BY created_at DESC;''"

definition PROJECT_SQL :: string where
  "PROJECT_SQL = ''SELECT title,description,githubUrl,imageUrl,websiteUrl,githubReadme FROM Project WHERE id = ?;''"

definition POST_SQL :: string where
  "POST_SQL = ''SELECT title, description, created_at FROM Post WHERE id = ?;''"

definition VERSION :: string where
  "VERSION = ''1.2.1''"

text \<open>\<open>if (*stmt == NULL) sqlite3_prepare_v2(...)\<close>.\<close>

definition prepared :: "'s sqlite \<Rightarrow> string \<Rightarrow> 's option \<Rightarrow> 's option" where
  "prepared Q sql st = (case st of None \<Rightarrow> sql_prepare Q sql | Some s \<Rightarrow> Some s)"

section \<open>Error pages\<close>

definition gen_error_body :: "libc \<Rightarrow> int \<Rightarrow> buffer \<Rightarrow> (nat \<times> buffer) result" where
  "gen_error_body L status b =
     (let s = ''<html><body><h1>'' @ show_int status @ '' '' @ http_status_code_to_str status @ ''</h1></body></html>''
      in and_then (assert_capacity L b 512) (\<lambda>b1.
         and_then (snprintf_at 0 s b1) (\<lambda>b2. Inr (length s, b2))))"

section \<open>The index page\<close>

definition li_text :: "string \<Rightarrow> string \<Rightarrow> string \<Rightarrow> string" where
  "li_text path i title =
     ''<li id='' @ [CHR 0x22] @ i @ [CHR 0x22] @ ''><a href='' @ [CHR 0x22] @ path @ i @ [CHR 0x22] @ ''>'' @ title @
     ''</a></li>''"

text \<open>One row of the list in the scratch buffer.\<close>

definition append_row :: "libc \<Rightarrow> 's sqlite \<Rightarrow> string \<Rightarrow> 's \<Rightarrow> buffer \<Rightarrow> buffer result" where
  "append_row L Q path st tmp =
     (case (sql_column_text Q st 0, sql_column_text Q st 1) of
        (Some i, Some title) \<Rightarrow>
          and_then (assert_capacity L tmp (count tmp + 256)) (\<lambda>t1.
          and_then (snprintf_at (count t1) (li_text path i title) t1) (\<lambda>t2.
            Inr (t2\<lparr>count := count t2 + length (li_text path i title)\<rparr>)))
      | _ \<Rightarrow> Inl (Null_pointer ''snprintf''))"

partial_function (option) fetch_rows ::
    "libc \<Rightarrow> 's sqlite \<Rightarrow> string \<Rightarrow> 's \<Rightarrow> buffer \<Rightarrow> (int \<times> 's \<times> buffer) result option" where
  "fetch_rows L Q path st tmp =
     (let (rc, st1) = sql_step Q st
      in if rc \<noteq> SQLITE_ROW then Some (Inr (rc, st1, tmp))
         else (case append_row L Q path st1 tmp of
                 Inl e \<Rightarrow> Some (Inl e)
               | Inr tmp1 \<Rightarrow> fetch_rows L Q path st1 tmp1))"

definition rows_result :: "'a result option \<Rightarrow> 'a result" where
  "rows_result m = (case m of None \<Rightarrow> Inl (Diverges ''sqlite3_step'') | Some r \<Rightarrow> r)"

text \<open>\<open>memset(tmp_buffer->data, 0, tmp_buffer->capacity); tmp_buffer->count = 0;\<close>\<close>

definition clear_all :: "buffer \<Rightarrow> buffer result" where
  "clear_all b = and_then (write_bytes 0 (replicate (capacity b) NUL) b) (\<lambda>b1. Inr (b1\<lparr>count := 0\<rparr>))"

definition load_index :: "libc \<Rightarrow> 's sqlite \<Rightarrow> 's statements \<Rightarrow> buffer \<Rightarrow> buffer \<Rightarrow>
    (int \<times> 's statements \<times> buffer \<times> buffer) result" where
  "load_index L Q S tmp b =
     (case prepared Q INDEX_PROJECTS_SQL (index_projects_stmt S) of
        None \<Rightarrow> Inr (-1, S, tmp, b)
      | Some pj \<Rightarrow>
        case prepared Q INDEX_POSTS_SQL (index_posts_stmt S) of
          None \<Rightarrow> Inr (-1, S\<lparr>index_projects_stmt := Some pj\<rparr>, tmp, b)
        | Some po \<Rightarrow>
          and_then (clear_all tmp) (\<lambda>tmp0.
          and_then (rows_result (fetch_rows L Q ''/projects/'' pj tmp0)) (\<lambda>(rc_projects, pj1, tmp1).
          and_then
            (if rc_projects = SQLITE_DONE
             then and_then (c_string_at 0 tmp1) (\<lambda>list.
                  and_then (str_replace L b ''%PROJECTS%'' (Some list)) (\<lambda>b1.
                  and_then (str_replace L b1 ''%VERSION%'' (Some VERSION)) (\<lambda>b2.
                  and_then (clear_all tmp1) (\<lambda>tmp2.
                  and_then (rows_result (fetch_rows L Q ''/posts/'' po tmp2)) (\<lambda>(rc_posts, po1, tmp3).
                    if rc_posts = SQLITE_DONE
                    then and_then (c_string_at 0 tmp3) (\<lambda>list2.
                         and_then (str_replace L b2 ''%NOTES%'' (Some list2)) (\<lambda>b3. Inr (po1, tmp3, b3)))
                    else Inr (po1, tmp3, b2))))))
             else Inr (po, tmp1, b)) (\<lambda>(po2, tmp4, b4).
          let (rc_projects2, pj2) = sql_reset Q pj1; (rc_posts2, pj3) = sql_reset Q pj2
          in Inr (if rc_projects2 \<noteq> SQLITE_OK \<or> rc_posts2 \<noteq> SQLITE_OK then -1 else 0,
                  S\<lparr>index_projects_stmt := Some pj3, index_posts_stmt := Some po2\<rparr>, tmp4, b4)))))"

section \<open>The pages of a post and of a project\<close>

text \<open>What both return once the page is filled.\<close>

definition finish_statement :: "'s sqlite \<Rightarrow> int \<Rightarrow> 's \<Rightarrow> int \<times> 's" where
  "finish_statement Q rc st =
     (let (reset_rc, st1) = sql_reset Q st; st2 = sql_clear_bindings Q st1
      in (if rc = SQLITE_DONE then -2 else if reset_rc \<noteq> SQLITE_OK then -1 else 0, st2))"

definition load_post :: "libc \<Rightarrow> file_system \<Rightarrow> 's sqlite \<Rightarrow> 's statements \<Rightarrow> buffer \<Rightarrow> buffer \<Rightarrow> string \<Rightarrow>
    (int \<times> 's statements \<times> buffer \<times> buffer) result" where
  "load_post L F Q S tmp b argument =
     (case prepared Q POST_SQL (post_stmt S) of
        None \<Rightarrow> Inr (-1, S, tmp, b)
      | Some st0 \<Rightarrow>
        let st1 = sql_bind_text Q argument (sql_clear_bindings Q (snd (sql_reset Q st0)));
            (rc, st2) = sql_step Q st1; col = sql_column_text Q st2 in
        and_then
          (if rc = SQLITE_ROW
           then and_then (str_replace L b ''%TITLE%'' (col 0)) (\<lambda>b1.
                and_then (str_replace L b1 ''%DESCRIPTION%'' (col 1)) (\<lambda>b2.
                and_then (str_replace L b2 ''%CREATED_AT%'' (col 2)) (\<lambda>b3.
                let html_file = fst (snprintf_str (HTTP_URI_TOKEN_SIZE + 5) (argument @ ''.html'')) in
                and_then (read_static_file L F html_file tmp) (\<lambda>(_, tmp1).
                and_then (c_string_at 0 tmp1) (\<lambda>post.
                and_then (str_replace L b3 ''%POST%'' (Some post)) (\<lambda>b4.
                  Inr (tmp1, b4)))))))
           else Inr (tmp, b)) (\<lambda>(tmp2, b5).
        let (result, st3) = finish_statement Q rc st2
        in Inr (result, S\<lparr>post_stmt := Some st3\<rparr>, tmp2, b5)))"

text \<open>A column that may be \<open>NULL\<close>, wrapped in a link.\<close>

definition replace_link :: "libc \<Rightarrow> string \<Rightarrow> string \<Rightarrow> string option \<Rightarrow> buffer \<Rightarrow> buffer \<Rightarrow>
    (buffer \<times> buffer) result" where
  "replace_link L needle label url tmp b =
     (case url of
        None \<Rightarrow> and_then (str_replace L b needle (Some [])) (\<lambda>b1. Inr (tmp, b1))
      | Some u \<Rightarrow>
          and_then (snprintf_at 0 (''<a href='' @ [CHR 0x22] @ u @ [CHR 0x22] @ ''>'' @ label @ ''</a>'') tmp) (\<lambda>t1.
          and_then (c_string_at 0 t1) (\<lambda>link.
          and_then (str_replace L b needle (Some link)) (\<lambda>b1.
          and_then (write_bytes 0 (replicate (capacity t1) NUL) t1) (\<lambda>t2. Inr (t2, b1))))))"

definition load_project :: "libc \<Rightarrow> 's sqlite \<Rightarrow> 's statements \<Rightarrow> buffer \<Rightarrow> buffer \<Rightarrow> string \<Rightarrow>
    (int \<times> 's statements \<times> buffer \<times> buffer) result" where
  "load_project L Q S tmp b argument =
     (case prepared Q PROJECT_SQL (project_stmt S) of
        None \<Rightarrow> Inr (-1, S, tmp, b)
      | Some st0 \<Rightarrow>
        let (rc, st2) = sql_step Q (sql_bind_text Q argument st0); col = sql_column_text Q st2 in
        and_then
          (if rc = SQLITE_ROW
           then and_then (str_replace L b ''%TITLE%'' (col 0)) (\<lambda>b1.
                and_then (str_replace L b1 ''%DESCRIPTION%'' (col 1)) (\<lambda>b2.
                and_then (str_replace L b2 ''%GITHUB_URL%'' (col 2)) (\<lambda>b3.
                and_then (str_replace L b3 ''%IMAGE_URL%'' (col 3)) (\<lambda>b4.
                and_then (replace_link L ''%WEBSITE_LINK%'' ''Website'' (col 4) tmp b4) (\<lambda>(tmp1, b5).
                  replace_link L ''%README_LINK%'' ''Readme'' (col 5) tmp1 b5)))))
           else Inr (tmp, b)) (\<lambda>(tmp2, b6).
        let (result, st3) = finish_statement Q rc st2
        in Inr (result, S\<lparr>project_stmt := Some st3\<rparr>, tmp2, b6)))"

section \<open>The stage\<close>

definition load :: "libc \<Rightarrow> file_system \<Rightarrow> 's sqlite \<Rightarrow> 's statements \<Rightarrow> string \<Rightarrow> buffer \<Rightarrow> buffer \<Rightarrow> string \<Rightarrow>
    (int \<times> 's statements \<times> buffer \<times> buffer) result" where
  "load L F Q S file_name tmp b argument =
     (if file_name = ''index.html'' then load_index L Q S tmp b
      else if file_name = ''project.html'' then load_project L Q S tmp b argument
      else if file_name = ''post.html'' then load_post L F Q S tmp b argument
      else Inr (0, S, tmp, b))"

text \<open>The body of \<open>handle_b\<close> between \<open>pop_request\<close> and \<open>push_request\<close>.\<close>

definition error_response :: "libc \<Rightarrow> int \<Rightarrow> http_response_t \<Rightarrow> buffer \<Rightarrow> (http_response_t \<times> buffer) result" where
  "error_response L status r b =
     and_then (gen_error_body L status b) (\<lambda>(n, b1).
       Inr (r\<lparr>status_code := status\<rparr>, b1\<lparr>count := n\<rparr>))"

definition loader_work :: "libc \<Rightarrow> file_system \<Rightarrow> 's sqlite \<Rightarrow> 's statements \<Rightarrow> buffer \<Rightarrow> http_request_t \<Rightarrow>
    http_response_t \<Rightarrow> buffer \<Rightarrow> (http_response_t \<times> buffer \<times> buffer \<times> 's statements) result" where
  "loader_work L F Q S tmp q r b =
     and_then (write_bytes 0 (replicate (count b) NUL) b) (\<lambda>b0.
     if status_code r = HTTP_OK
     then (case uri_to_file_name (uri q) of
             None \<Rightarrow> Inl (Null_pointer ''read_static_file'')
           | Some file_name \<Rightarrow>
             and_then (read_static_file L F file_name b0) (\<lambda>(_, b1).
             and_then (load L F Q S file_name tmp b1 (uri q ! 1)) (\<lambda>(rc, S', tmp', b2).
             and_then
               (if rc = -1 then error_response L HTTP_INTERNAL_SERVER_ERROR r b2
                else if rc = -2 then error_response L HTTP_NOT_FOUND r b2
                else Inr (r, b2)) (\<lambda>(r', b3).
               Inr (r', b3, tmp', S')))))
     else and_then (error_response L (status_code r) r b0) (\<lambda>(r', b3).
            Inr (r', b3, tmp, S)))"

text \<open>\<open>memset(tmp_buffer->data, 0, tmp_buffer->count); tmp_buffer->count = 0;\<close> at the end of a round.\<close>

definition clear_counted :: "buffer \<Rightarrow> buffer result" where
  "clear_counted b = and_then (write_bytes 0 (replicate (count b) NUL) b) (\<lambda>b1. Inr (b1\<lparr>count := 0\<rparr>))"

section \<open>Rows\<close>

text \<open>
  A statement that serves the rows it is about to return: what SQLite documents of stepping through
  a query whose two columns are not \<open>NULL\<close>.
\<close>

inductive serves :: "'s sqlite \<Rightarrow> 's \<Rightarrow> (string \<times> string) list \<Rightarrow> bool" for Q where
  serves_done: "sql_step Q st = (SQLITE_DONE, st') \<Longrightarrow> serves Q st []"
| serves_row: "sql_step Q st = (SQLITE_ROW, st') \<Longrightarrow> sql_column_text Q st' 0 = Some i \<Longrightarrow>
    sql_column_text Q st' 1 = Some t \<Longrightarrow> serves Q st' rows \<Longrightarrow> serves Q st ((i, t) # rows)"

definition list_text :: "string \<Rightarrow> (string \<times> string) list \<Rightarrow> string" where
  "list_text path rows = concat (map (\<lambda>(i, t). li_text path i t) rows)"

text \<open>A row the 256 bytes reserved for it hold.\<close>

definition short_row :: "string \<Rightarrow> string \<times> string \<Rightarrow> bool" where
  "short_row path row \<longleftrightarrow> length (li_text path (fst row) (snd row)) < 256 \<and>
     NUL \<notin> set (li_text path (fst row) (snd row))"

lemma append_row_value:
  assumes mem: "\<And>m. alloc_ok L m" and h: "holds s tmp" and row: "short_row path (i, t)" and len: "length s < 2 ^ 29"
    and c: "sql_column_text Q st 0 = Some i" "sql_column_text Q st 1 = Some t"
  shows "\<exists>tmp'. append_row L Q path st tmp = Inr tmp' \<and> holds (s @ li_text path i t) tmp'"
proof -
  let ?x = "li_text path i t"
  have w: "buffer_wf tmp" "capacity tmp < 2 ^ 31" "count tmp = length s" "length s \<le> capacity tmp"
    "take (length s) (bytes tmp) = s"
    using h by (auto simp: holds_def dest: arg_cong [of _ _ "take (length s)"])
  have x: "length ?x < 256" "NUL \<notin> set ?x" using row by (auto simp: short_row_def)
  have big: "length s + 256 \<le> 2 ^ 30" using len by simp
  obtain t1 t2 where t: "assert_capacity L tmp (length s + 256) = Inr t1" "snprintf_at (length s) ?x t1 = Inr t2"
    "buffer_wf t2" "capacity t2 < 2 ^ 31" "length s + 256 \<le> capacity t2" "count t2 = count tmp"
    "take (length s + length ?x + 1) (bytes t2) = take (length s) (bytes tmp) @ ?x @ [NUL]"
    using snprintf_prefix [OF w(1,2) mem x(1) big w(4)] by blast
  have "count t1 = length s" using assert_capacity_Inr(4) [OF w(1) t(1)] w(3) by simp
  then have "append_row L Q path st tmp = Inr (t2\<lparr>count := length s + length ?x\<rparr>)"
    using t w(3) c by (simp add: append_row_def)
  moreover have "holds (s @ ?x) (t2\<lparr>count := length s + length ?x\<rparr>)"
  proof -
    have "data t2 \<noteq> None" using buffer_wf_data [OF t(3)] t(5) by simp
    then show ?thesis
      using t(3-5,7) w(5) x h by (simp add: holds_def buffer_wf_def bytes_def split: option.splits)
  qed
  ultimately show ?thesis by blast
qed

lemma fetch_rows_value:
  assumes mem: "\<And>m. alloc_ok L m"
  shows "serves Q st rows \<Longrightarrow> holds s tmp \<Longrightarrow> list_all (short_row path) rows \<Longrightarrow>
    length s + 256 * length rows < 2 ^ 29 \<Longrightarrow>
    \<exists>st' tmp'. fetch_rows L Q path st tmp = Some (Inr (SQLITE_DONE, st', tmp')) \<and>
      holds (s @ list_text path rows) tmp'"
proof (induction arbitrary: s tmp rule: serves.induct)
  case (serves_done st st')
  then show ?case by (subst fetch_rows.simps) (simp add: list_text_def)
next
  case (serves_row st st' i t rows)
  have row: "short_row path (i, t)" and rows: "list_all (short_row path) rows" using serves_row.prems by auto
  have "length s < 2 ^ 29" using serves_row.prems(3) by simp
  from append_row_value [OF mem serves_row.prems(1) row this serves_row(2,3)] obtain tmp1 where
    t1: "append_row L Q path st' tmp = Inr tmp1" "holds (s @ li_text path i t) tmp1" by blast
  have "length (s @ li_text path i t) + 256 * length rows < 2 ^ 29"
    using serves_row.prems(3) row by (simp add: short_row_def)
  from serves_row.IH [OF t1(2) rows this] obtain st2 tmp2 where
    "fetch_rows L Q path st' tmp1 = Some (Inr (SQLITE_DONE, st2, tmp2))"
    "holds ((s @ li_text path i t) @ list_text path rows) tmp2" by blast
  moreover have "fetch_rows L Q path st tmp = fetch_rows L Q path st' tmp1"
    using serves_row(1) t1(1) by (subst fetch_rows.simps) simp
  ultimately show ?case by (simp add: list_text_def)
qed

lemma clear_all_value:
  assumes "buffer_wf tmp" and "data tmp \<noteq> None" and "capacity tmp < 2 ^ 31" and "0 < capacity tmp"
  shows "\<exists>tmp'. clear_all tmp = Inr tmp' \<and> holds [] tmp'"
proof -
  obtain t where t: "write_bytes 0 (replicate (capacity tmp) NUL) tmp = Inr t" "buffer_wf t"
    "capacity t = capacity tmp" "data t \<noteq> None" "take (capacity tmp) (bytes t) = replicate (capacity tmp) NUL"
    using write_bytes_store [OF assms(1,2), of "replicate (capacity tmp) NUL"]
    by (metis length_replicate order_refl)
  have "take 1 (take (capacity tmp) (bytes t)) = take 1 (replicate (capacity tmp) NUL)" using t(5) by simp
  then have "take (Suc 0) (bytes t) = [NUL]" using assms(4) by (simp add: min_def)
  with t assms show ?thesis
    by (auto simp: clear_all_def holds_def buffer_wf_def bytes_def split: option.splits)
qed

section \<open>The index page\<close>

lemma list_text_props:
  "list_all (short_row path) rows \<Longrightarrow> NUL \<notin> set (list_text path rows) \<and> length (list_text path rows) \<le> 256 * length rows"
  by (induction rows) (auto simp: list_text_def short_row_def)

text \<open>The page the three substitutions make of the template.\<close>

definition index_page :: "(string \<times> string) list \<Rightarrow> (string \<times> string) list \<Rightarrow> string \<Rightarrow> string" where
  "index_page projects posts template =
     exchange ''%NOTES%'' (list_text ''/posts/'' posts)
       (exchange ''%VERSION%'' VERSION
         (exchange ''%PROJECTS%'' (list_text ''/projects/'' projects) template))"

definition index_template :: "(string \<times> string) list \<Rightarrow> string \<Rightarrow> bool" where
  "index_template projects template \<longleftrightarrow>
     occurs_once ''%PROJECTS%'' template \<and>
     occurs_once ''%VERSION%'' (exchange ''%PROJECTS%'' (list_text ''/projects/'' projects) template) \<and>
     occurs_once ''%NOTES%''
       (exchange ''%VERSION%'' VERSION (exchange ''%PROJECTS%'' (list_text ''/projects/'' projects) template))"

lemma load_index_value:
  assumes mem: "\<And>m. alloc_ok L m" and h: "holds template b"
    and tmp: "buffer_wf tmp" "data tmp \<noteq> None" "capacity tmp < 2 ^ 31" "0 < capacity tmp"
    and S: "prepared Q INDEX_PROJECTS_SQL (index_projects_stmt S) = Some pj"
      "prepared Q INDEX_POSTS_SQL (index_posts_stmt S) = Some po" "serves Q pj projects" "serves Q po posts"
    and rows: "list_all (short_row ''/projects/'') projects" "list_all (short_row ''/posts/'') posts"
    and ok: "\<And>st. fst (sql_reset Q st) = SQLITE_OK" and t: "index_template projects template"
    and len: "length template + 256 * (length projects + length posts + 1) < 2 ^ 28"
  shows "\<exists>S' tmp' b'. load_index L Q S tmp b = Inr (0, S', tmp', b') \<and> holds (index_page projects posts template) b'"
proof -
  let ?lp = "list_text ''/projects/'' projects" and ?lo = "list_text ''/posts/'' posts"
  let ?p1 = "exchange ''%PROJECTS%'' ?lp template"
  let ?p2 = "exchange ''%VERSION%'' VERSION ?p1"
  note lp = list_text_props [OF rows(1)] and lo = list_text_props [OF rows(2)]
  have v: "NUL \<notin> set VERSION" "length VERSION = 5" by (simp_all add: VERSION_def)
  have l1: "length ?p1 \<le> length template + length ?lp" by (rule length_exchange)
  have l2: "length ?p2 \<le> length ?p1 + 5" using length_exchange [of _ VERSION ?p1] v by metis
  obtain tmp0 where t0: "clear_all tmp = Inr tmp0" "holds [] tmp0"
    using clear_all_value [OF tmp] by blast
  obtain pj1 tmp1 where f1: "fetch_rows L Q ''/projects/'' pj tmp0 = Some (Inr (SQLITE_DONE, pj1, tmp1))" "holds ?lp tmp1"
    using fetch_rows_value [OF mem S(3) t0(2) rows(1)] len by auto
  have c1: "c_string_at 0 tmp1 = Inr ?lp" using c_string_at_holds [OF f1(2), of 0] by simp
  obtain b1 where b1: "str_replace L b ''%PROJECTS%'' (Some ?lp) = Inr b1" "holds ?p1 b1"
    using str_replace_exchange [OF mem h, of ?lp "''%PROJECTS%''"] t lp len by (auto simp: index_template_def)
  obtain b2 where b2: "str_replace L b1 ''%VERSION%'' (Some VERSION) = Inr b2" "holds ?p2 b2"
    using str_replace_exchange [OF mem b1(2) v(1), of "''%VERSION%''"] t lp len l1 v(2) by (auto simp: index_template_def)
  have w1: "buffer_wf tmp1" "data tmp1 \<noteq> None" "capacity tmp1 < 2 ^ 31" "0 < capacity tmp1"
    using f1(2) by (auto simp: holds_def)
  obtain tmp2 where t2: "clear_all tmp1 = Inr tmp2" "holds [] tmp2" using clear_all_value [OF w1] by blast
  obtain po1 tmp3 where f2: "fetch_rows L Q ''/posts/'' po tmp2 = Some (Inr (SQLITE_DONE, po1, tmp3))" "holds ?lo tmp3"
    using fetch_rows_value [OF mem S(4) t2(2) rows(2)] len by auto
  have c2: "c_string_at 0 tmp3 = Inr ?lo" using c_string_at_holds [OF f2(2), of 0] by simp
  obtain b3 where b3: "str_replace L b2 ''%NOTES%'' (Some ?lo) = Inr b3" "holds (exchange ''%NOTES%'' ?lo ?p2) b3"
    using str_replace_exchange [OF mem b2(2), of ?lo "''%NOTES%''"] t lp lo len l1 l2 by (auto simp: index_template_def)
  have "\<exists>S' tmp'. load_index L Q S tmp b = Inr (0, S', tmp', b3)"
    using ok [of pj1] ok [of "snd (sql_reset Q pj1)"]
    by (simp add: load_index_def S t0 f1(1) rows_result_def c1 b1(1) b2(1) t2(1) f2(1) c2 b3(1) split_def)
  with b3(2) show ?thesis by (auto simp: index_page_def)
qed

section \<open>Error pages\<close>

definition error_page :: "int \<Rightarrow> string" where
  "error_page status =
     ''<html><body><h1>'' @ show_int status @ '' '' @ http_status_code_to_str status @ ''</h1></body></html>''"

lemma length_error_page: "0 \<le> status \<Longrightarrow> status < 1000 \<Longrightarrow> length (error_page status) < 512"
  using length_status_str [of status] length_show_nat [of "nat status" 2]
  by (simp add: error_page_def show_int_def numeral_eq_Suc nat_less_iff)

lemma show_int_digits: "0 \<le> n \<Longrightarrow> NUL \<notin> set (show_int n)"
  using show_nat_digits [of "nat n"] by (auto simp: show_int_def is_digit_def between_def code_def)

lemma status_str_text: "NUL \<notin> set (http_status_code_to_str status)"
  by (simp add: http_status_code_to_str_def)

lemma error_response_value:
  assumes mem: "\<And>m. alloc_ok L m" and wf: "buffer_wf b" "capacity b < 2 ^ 31" and st: "0 \<le> status" "status < 1000"
  shows "\<exists>b'. error_response L status r b = Inr (r\<lparr>status_code := status\<rparr>, b') \<and> holds (error_page status) b'"
proof -
  note len = length_error_page [OF st]
  obtain t1 t2 where t: "assert_capacity L b (0 + 512) = Inr t1" "snprintf_at 0 (error_page status) t1 = Inr t2"
    "buffer_wf t2" "capacity t2 < 2 ^ 31" "0 + 512 \<le> capacity t2"
    "take (0 + length (error_page status) + 1) (bytes t2) = take 0 (bytes b) @ error_page status @ [NUL]"
    using snprintf_prefix [OF wf mem len, of 0] by auto
  have "error_response L status r b = Inr (r\<lparr>status_code := status\<rparr>, t2\<lparr>count := length (error_page status)\<rparr>)"
    using t by (simp add: error_response_def gen_error_body_def error_page_def Let_def)
  moreover have "holds (error_page status) (t2\<lparr>count := length (error_page status)\<rparr>)"
  proof -
    have "data t2 \<noteq> None" using buffer_wf_data [OF t(3)] t(5) by simp
    moreover have "NUL \<notin> set (error_page status)"
      using show_int_digits [OF st(1)] status_str_text [of status] by (simp add: error_page_def)
    ultimately show ?thesis
      using t(3-6) len by (simp add: holds_def buffer_wf_def bytes_def split: option.splits)
  qed
  ultimately show ?thesis by blast
qed

section \<open>A static page\<close>

lemma write_bytes_Some:
  assumes "buffer_wf b" and "0 < capacity b" and "off + length xs \<le> capacity b"
  obtains b' where "write_bytes off xs b = Inr b'" "buffer_wf b'" "capacity b' = capacity b" "count b' = count b"
    "bytes b' = take off (bytes b) @ xs @ drop (off + length xs) (bytes b)"
  using write_bytes_returns [OF assms] write_bytes_Inr [OF assms(1)] by metis

lemma read_static_file_value:
  assumes mem: "\<And>m. alloc_ok L m" and wf: "buffer_wf b" "capacity b < 2 ^ 31"
    and f: "contents F (static_path p) = Some f" "f \<noteq> []" "NUL \<notin> set f" "length f < 2 ^ 29"
  shows "\<exists>b'. read_static_file L F p b = Inr (int (length f), b') \<and> holds f b'"
proof -
  have small: "length f + 1 \<le> 2 ^ 30" using f(4) by simp
  obtain b1 where b1: "assert_capacity L b (length f + 1) = Inr b1"
    using assert_capacity_returns [OF mem wf small] by auto
  note b1s = assert_capacity_Inr [OF wf(1) b1] and b1c = assert_capacity_small [OF wf(2) small b1]
  have all: "take (capacity b1) f = f" using b1s(2) by simp
  obtain b2 where b2: "write_bytes 0 f b1 = Inr b2" "buffer_wf b2" "capacity b2 = capacity b1"
    "bytes b2 = f @ drop (length f) (bytes b1)"
    using write_bytes_Some [OF b1s(1,6), of 0 f] b1s(2) by auto
  obtain b3 where b3: "write_bytes (length f) [NUL] b2 = Inr b3" "buffer_wf b3" "capacity b3 = capacity b2"
    "bytes b3 = f @ [NUL] @ drop (length f + 1) (bytes b2)"
    using write_bytes_Some [OF b2(2), of "length f" "[NUL]"] b1s(2,6) b2(3,4) by auto
  let ?b = "b3\<lparr>count := length f\<rparr>"
  have "to_int32 (int (length f)) = int (length f)" using f(4) by (intro to_int32_id) auto
  then have "read_static_file L F p b = Inr (int (length f), ?b)"
    using f(1,2) b1 b1s(6) all b2(1) b3(1) by (simp add: read_static_file_def Let_def)
  moreover have "holds f ?b"
  proof -
    have "data b3 \<noteq> None" using buffer_wf_data [OF b3(2)] b3(3) b2(3) b1s(6) by simp
    then show ?thesis
      using b1s(2) b1c b2(3) b3(2-4) f(3) by (simp add: holds_def buffer_wf_def bytes_def split: option.splits)
  qed
  ultimately show ?thesis by blast
qed

lemma clear_count_value:
  assumes "buffer_wf b" and "data b \<noteq> None"
  obtains b' where "write_bytes 0 (replicate (count b) NUL) b = Inr b'" "buffer_wf b'" "capacity b' = capacity b"
  using write_bytes_store [OF assms, of "replicate (count b) NUL"] assms(1)
  by (metis buffer_wf_def length_replicate)

section \<open>Properties\<close>

text \<open>
  C22: a request for the start page. When the template has each of its three placeholders once, the two
  queries return rows of at most 255 characters, and memory is available, the stage keeps status 200
  and leaves in the session's buffer exactly the template with the list of projects, the version and
  the list of posts in their places, counted and terminated.
\<close>

theorem index_page_loaded:
  assumes "\<And>m. alloc_ok L m" and "buffer_wf b" and "data b \<noteq> None" and "capacity b < 2 ^ 31"
    and "buffer_wf tmp" "data tmp \<noteq> None" "capacity tmp < 2 ^ 31" "0 < capacity tmp"
    and "status_code r = HTTP_OK" and "uri_to_file_name (uri q) = Some ''index.html''"
    and "contents F (static_path ''index.html'') = Some template" and "NUL \<notin> set template" "template \<noteq> []"
    and "prepared Q INDEX_PROJECTS_SQL (index_projects_stmt S) = Some pj"
      "prepared Q INDEX_POSTS_SQL (index_posts_stmt S) = Some po" "serves Q pj projects" "serves Q po posts"
    and "list_all (short_row ''/projects/'') projects" "list_all (short_row ''/posts/'') posts"
    and "\<And>st. fst (sql_reset Q st) = SQLITE_OK" and "index_template projects template"
    and "length template + 256 * (length projects + length posts + 1) < 2 ^ 28"
  shows "\<exists>b' tmp' S'. loader_work L F Q S tmp q r b = Inr (r, b', tmp', S') \<and>
    holds (index_page projects posts template) b'"
proof -
  obtain b0 where b0: "write_bytes 0 (replicate (count b) NUL) b = Inr b0" "buffer_wf b0" "capacity b0 = capacity b"
    using clear_count_value [OF assms(2,3)] .
  have "length template < 2 ^ 29" using assms(22) by simp
  then obtain b1 where b1: "read_static_file L F ''index.html'' b0 = Inr (int (length template), b1)" "holds template b1"
    using read_static_file_value [OF assms(1) b0(2), of F "''index.html''" template] assms(4,11-13) b0(3) by auto
  obtain S' tmp' b' where "load_index L Q S tmp b1 = Inr (0, S', tmp', b')" "holds (index_page projects posts template) b'"
    using load_index_value [OF assms(1) b1(2) assms(5-8,14-22)] by blast
  then show ?thesis
    using assms(9,10) b0 b1 by (simp add: loader_work_def load_def)
qed

text \<open>A database whose statements are the rows still to come, and one page.\<close>

definition list_db :: "(string \<times> string) list sqlite" where
  "list_db = \<lparr>sql_prepare = (\<lambda>q. Some (if q = INDEX_PROJECTS_SQL then [([], []), (''1'', ''wb'')] else [([], [])])),
     sql_bind_text = (\<lambda>_ st. st), sql_step = (\<lambda>st. if length st \<le> 1 then (101, st) else (100, tl st)),
     sql_column_text = (\<lambda>st i. Some (if i = 0 then fst (hd st) else snd (hd st))),
     sql_reset = (\<lambda>st. (0, st)), sql_clear_bindings = (\<lambda>st. st)\<rparr>"

definition page_site :: file_system where
  "page_site = \<lparr>realpath = (\<lambda>_. None), regular = (\<lambda>_. True), readable = (\<lambda>_. True),
     contents = (\<lambda>_. Some ''%PROJECTS%, %VERSION%, %NOTES%''), writable = (\<lambda>_. False), mtime = (\<lambda>_. Some 0)\<rparr>"

theorem index_page_loaded_witness:
  "\<exists>b' tmp' S'. loader_work plenty page_site list_db no_statements (page 64 []) zero_request
      (zero_response\<lparr>status_code := 200\<rparr>) (page 64 []) = Inr (zero_response\<lparr>status_code := 200\<rparr>, b', tmp', S') \<and>
    holds (li_text ''/projects/'' ''1'' ''wb'' @ '', 1.2.1, '') b'"
proof -
  have sv: "serves list_db [([], []), (''1'', ''wb'')] [(''1'', ''wb'')]" "serves list_db [([], [])] []"
    by (auto intro!: serves_row serves_done simp: list_db_def)
  have tpl: "index_template [(''1'', ''wb'')] ''%PROJECTS%, %VERSION%, %NOTES%''"
    by (simp add: index_template_def occurs_once_def exchange_def list_text_def li_text_def VERSION_def)
  have pg: "index_page [(''1'', ''wb'')] [] ''%PROJECTS%, %VERSION%, %NOTES%'' =
      li_text ''/projects/'' ''1'' ''wb'' @ '', 1.2.1, ''"
    by (simp add: index_page_def exchange_def list_text_def li_text_def VERSION_def)
  have "INDEX_POSTS_SQL \<noteq> INDEX_PROJECTS_SQL" by (simp add: INDEX_POSTS_SQL_def INDEX_PROJECTS_SQL_def)
  then have pr: "prepared list_db INDEX_PROJECTS_SQL (index_projects_stmt no_statements) = Some [([], []), (''1'', ''wb'')]"
    "prepared list_db INDEX_POSTS_SQL (index_posts_stmt no_statements) = Some [([], [])]"
    by (simp_all add: prepared_def no_statements_def list_db_def)
  show ?thesis
    unfolding pg [symmetric]
    by (rule index_page_loaded [OF plenty_ok _ _ _ _ _ _ _ _ _ _ _ _ pr sv _ _ _ tpl])
      (simp_all add: page_def buffer_wf_def zero_request_def uri_to_file_name_def page_site_def short_row_def
        li_text_def list_db_def)
qed

text \<open>
  C23: every other status than 200 yields its error page: the document becomes the short HTML text with
  the code and its reason phrase, the status and the statements stay, whatever the buffer held.
\<close>

theorem error_page_loaded:
  assumes "\<And>m. alloc_ok L m" and "buffer_wf b" and "data b \<noteq> None" and "capacity b < 2 ^ 31"
    and "status_code r \<noteq> HTTP_OK" and "0 \<le> status_code r" "status_code r < 1000"
  shows "\<exists>b'. loader_work L F Q S tmp q r b = Inr (r, b', tmp, S) \<and> holds (error_page (status_code r)) b'"
proof -
  obtain b0 where b0: "write_bytes 0 (replicate (count b) NUL) b = Inr b0" "buffer_wf b0" "capacity b0 = capacity b"
    using clear_count_value [OF assms(2,3)] .
  have "capacity b0 < 2 ^ 31" using b0(3) assms(4) by simp
  from error_response_value [OF assms(1) b0(2) this assms(6,7)] obtain b' where
    "error_response L (status_code r) r b0 = Inr (r\<lparr>status_code := status_code r\<rparr>, b')"
    "holds (error_page (status_code r)) b'" by blast
  then show ?thesis using assms(5) b0(1) by (simp add: loader_work_def)
qed

theorem error_page_loaded_witness:
  "\<exists>b'. loader_work plenty page_site list_db no_statements (page 64 []) zero_request
      (zero_response\<lparr>status_code := 404\<rparr>) (page 64 ''GET /'') =
      Inr (zero_response\<lparr>status_code := 404\<rparr>, b', page 64 [], no_statements) \<and> holds (error_page 404) b'"
  using error_page_loaded [OF plenty_ok, of "page 64 ''GET /''" "zero_response\<lparr>status_code := 404\<rparr>"
      page_site list_db no_statements "page 64 []" zero_request]
  by (simp add: page_def buffer_wf_def)

text \<open>
  An identifier the database does not know. When the query for a post or a project returns no row,
  the answer becomes 404 with its error page, although the request was valid and the template read.
\<close>

lemma unknown_id_not_found:
  assumes "\<And>m. alloc_ok L m" and "buffer_wf b" and "data b \<noteq> None" and "capacity b < 2 ^ 31"
    and "status_code r = HTTP_OK" and "uri_to_file_name (uri q) = Some p"
    and "p = ''post.html'' \<and> prepared Q POST_SQL (post_stmt S) = Some st \<and>
           fst (sql_step Q (sql_bind_text Q (uri q ! 1) (sql_clear_bindings Q (snd (sql_reset Q st))))) = SQLITE_DONE
       \<or> p = ''project.html'' \<and> prepared Q PROJECT_SQL (project_stmt S) = Some st \<and>
           fst (sql_step Q (sql_bind_text Q (uri q ! 1) st)) = SQLITE_DONE"
    and "contents F (static_path p) = Some template" and "NUL \<notin> set template" "template \<noteq> []" "length template < 2 ^ 29"
  shows "\<exists>b' S'. loader_work L F Q S tmp q r b = Inr (r\<lparr>status_code := HTTP_NOT_FOUND\<rparr>, b', tmp, S') \<and>
    holds (error_page HTTP_NOT_FOUND) b'"
proof -
  obtain b0 where b0: "write_bytes 0 (replicate (count b) NUL) b = Inr b0" "buffer_wf b0" "capacity b0 = capacity b"
    using clear_count_value [OF assms(2,3)] .
  have "capacity b0 < 2 ^ 31" using b0(3) assms(4) by simp
  from read_static_file_value [OF assms(1) b0(2) this assms(8,10,9,11)] obtain b1 where
    b1: "read_static_file L F p b0 = Inr (int (length template), b1)" "holds template b1" by blast
  have "\<exists>S'. load L F Q S p tmp b1 (uri q ! 1) = Inr (-2, S', tmp, b1)"
    using assms(7)
  proof (elim disjE conjE)
    assume "p = ''post.html''" "prepared Q POST_SQL (post_stmt S) = Some st"
      "fst (sql_step Q (sql_bind_text Q (uri q ! 1) (sql_clear_bindings Q (snd (sql_reset Q st))))) = SQLITE_DONE"
    then show ?thesis by (simp add: load_def load_post_def finish_statement_def split_def Let_def)
  next
    assume "p = ''project.html''" "prepared Q PROJECT_SQL (project_stmt S) = Some st"
      "fst (sql_step Q (sql_bind_text Q (uri q ! 1) st)) = SQLITE_DONE"
    then show ?thesis by (simp add: load_def load_project_def finish_statement_def split_def Let_def)
  qed
  moreover obtain b' where "error_response L HTTP_NOT_FOUND r b1 = Inr (r\<lparr>status_code := HTTP_NOT_FOUND\<rparr>, b')"
    "holds (error_page HTTP_NOT_FOUND) b'"
    using error_response_value [OF assms(1), of b1 HTTP_NOT_FOUND r] b1(2) by (auto simp: holds_def)
  ultimately show ?thesis using assms(5,6) b0(1) b1(1) by (auto simp: loader_work_def)
qed

end
