(* ===== verification/Regex.thy ===== *)
theory Regex
  imports CString
begin

text \<open>
  \<^verbatim>\<open>src/utils/regex2.c\<close> on the two patterns the program compiles. Both are anchored sequences of
  character classes with bounds, in which a class of variable length is followed by the end or by a
  character outside it. \<open>match_pieces\<close> takes each class as far as it goes; \<open>match_pieces_iff\<close>
  shows that for such patterns this finds every match there is, so it agrees with the
  longest-leftmost rule of \<open>regexec\<close>.
\<close>

section \<open>Patterns\<close>

text \<open>A class, its least and greatest number of repetitions, and the group it belongs to (0: none).\<close>

datatype piece = Piece (cls: "char \<Rightarrow> bool") (least: nat) (most: "nat option") (grp: nat)

definition Lit :: "char \<Rightarrow> nat \<Rightarrow> piece" where
  "Lit c g = Piece (\<lambda>d. d = c) 1 (Some 1) g"

text \<open>\<open>^([A-Z]{2,12}) ([^ ]+) (HTTP/[0-9.]{3})$\<close>\<close>

definition control_pattern :: "piece list" where
  "control_pattern =
     [Piece is_upper 2 (Some 12) 1, Lit (CHR '' '') 0, Piece (\<lambda>c. c \<noteq> CHR '' '') 1 None 2, Lit (CHR '' '') 0,
      Lit (CHR ''H'') 3, Lit (CHR ''T'') 3, Lit (CHR ''T'') 3, Lit (CHR ''P'') 3, Lit (CHR ''/'') 3,
      Piece (\<lambda>c. is_digit c \<or> c = CHR ''.'') 3 (Some 3) 3]"

text \<open>\<open>^([A-Za-z0-9-]+):\s(.*)$\<close>\<close>

definition name_char :: "char \<Rightarrow> bool" where
  "name_char c \<longleftrightarrow> is_upper c \<or> is_lower c \<or> is_digit c \<or> c = CHR ''-''"

definition header_pattern :: "piece list" where
  "header_pattern =
     [Piece name_char 1 None 1, Lit (CHR '':'') 0, Piece is_space 1 (Some 1) 0, Piece (\<lambda>_. True) 0 None 2]"

section \<open>Matching\<close>

definition piece_prefix :: "piece \<Rightarrow> string \<Rightarrow> string" where
  "piece_prefix p s =
     (case most p of None \<Rightarrow> takeWhile (cls p) s | Some h \<Rightarrow> take h (takeWhile (cls p) s))"

fun match_pieces :: "piece list \<Rightarrow> string \<Rightarrow> string list option" where
  "match_pieces [] s = (if s = [] then Some [] else None)"
| "match_pieces (p # ps) s =
     (let seg = piece_prefix p s
      in if length seg < least p then None
         else map_option ((#) seg) (match_pieces ps (drop (length seg) s)))"

text \<open>\<open>regmatch_t\<close> of a group: where its first piece starts and its last piece ends.\<close>

record regmatch =
  rm_so :: nat
  rm_eo :: nat

fun spans :: "nat \<Rightarrow> piece list \<Rightarrow> string list \<Rightarrow> (nat \<times> nat \<times> nat) list" where
  "spans at (p # ps) (s # ss) = (grp p, at, at + length s) # spans (at + length s) ps ss"
| "spans at _ _ = []"

definition group_match :: "(nat \<times> nat \<times> nat) list \<Rightarrow> nat \<Rightarrow> regmatch" where
  "group_match sp g =
     (let of_g = filter (\<lambda>(h, _, _). g = 0 \<or> h = g) sp
      in if of_g = [] then \<lparr>rm_so = 0, rm_eo = 0\<rparr>
         else \<lparr>rm_so = fst (snd (hd of_g)), rm_eo = snd (snd (last of_g))\<rparr>)"

text \<open>
  \<open>match_regex(pattern, text, match_count, matches, 0)\<close>: the return value and \<open>matches\<close>; \<open>regexec\<close>
  reads the text, so a null pointer has undefined behaviour.
\<close>

definition match_regex :: "piece list \<Rightarrow> string option \<Rightarrow> nat \<Rightarrow> (int \<times> regmatch list) result" where
  "match_regex pattern txt match_count =
     (case txt of
        None \<Rightarrow> Inl (Null_pointer ''regexec'')
      | Some s \<Rightarrow>
          (case match_pieces pattern s of
             None \<Rightarrow> Inr (-1, [])
           | Some segs \<Rightarrow> Inr (int match_count, map (group_match (spans 0 pattern segs)) [0..<match_count])))"

section \<open>The matcher finds every match\<close>

definition piece_ok :: "piece \<Rightarrow> string \<Rightarrow> bool" where
  "piece_ok p seg \<longleftrightarrow> (\<forall>c \<in> set seg. cls p c) \<and> least p \<le> length seg \<and>
     (case most p of None \<Rightarrow> True | Some h \<Rightarrow> length seg \<le> h)"

definition matches :: "piece list \<Rightarrow> string list \<Rightarrow> string \<Rightarrow> bool" where
  "matches ps segs s \<longleftrightarrow> s = concat segs \<and> list_all2 piece_ok ps segs"

fun separated :: "piece list \<Rightarrow> bool" where
  "separated [] = True"
| "separated [p] = (case most p of None \<Rightarrow> True | Some h \<Rightarrow> least p \<le> h)"
| "separated (p # q # ps) =
     ((most p = Some (least p) \<or> (0 < least q \<and> (\<forall>c. \<not> (cls p c \<and> cls q c)))) \<and> separated (q # ps))"

lemma piece_prefix_split: "s = piece_prefix p s @ drop (length (piece_prefix p s)) s"
proof -
  have "\<exists>n. piece_prefix p s = take n s"
    by (cases "most p") (auto simp: piece_prefix_def, (metis takeWhile_eq_take take_take)+)
  then obtain n where n: "piece_prefix p s = take n s" by blast
  show ?thesis unfolding n by (cases "n \<le> length s") simp_all
qed

lemma piece_prefix_ok: "least p \<le> length (piece_prefix p s) \<Longrightarrow> piece_ok p (piece_prefix p s)"
  by (auto simp: piece_ok_def piece_prefix_def split: option.splits
      dest: set_takeWhileD in_set_takeD)

lemma match_pieces_sound: "match_pieces ps s = Some segs \<Longrightarrow> matches ps segs s"
proof (induction ps s arbitrary: segs rule: match_pieces.induct)
  case (1 s)
  then show ?case by (auto simp: matches_def split: if_splits)
next
  case (2 p ps s)
  let ?seg = "piece_prefix p s"
  from 2(2) obtain segs' where l: "least p \<le> length ?seg"
    and m: "match_pieces ps (drop (length ?seg) s) = Some segs'" and segs: "segs = ?seg # segs'"
    by (auto simp: Let_def split: if_splits)
  from 2(1) [OF refl _ m] l have "matches ps segs' (drop (length ?seg) s)" by simp
  then show ?case
    using piece_prefix_split [of s p] piece_prefix_ok [OF l] by (auto simp: matches_def segs)
qed

lemma piece_prefix_last: "piece_ok p s \<Longrightarrow> piece_prefix p s = s"
  by (auto simp: piece_ok_def piece_prefix_def takeWhile_eq_all_conv [THEN iffD2] split: option.splits)

lemma piece_prefix_fixed:
  "piece_ok p seg \<Longrightarrow> most p = Some (least p) \<Longrightarrow> piece_prefix p (seg @ s) = seg"
  by (auto simp: piece_ok_def piece_prefix_def takeWhile_append2)

lemma piece_prefix_disjoint:
  assumes "piece_ok p seg" and "piece_ok q seg2" and "0 < least q" and "\<And>c. \<not> (cls p c \<and> cls q c)"
  shows "piece_prefix p (seg @ seg2 @ s) = seg"
proof -
  obtain c t where "seg2 = c # t" "cls q c" using assms(2,3) by (cases seg2) (auto simp: piece_ok_def)
  then have "takeWhile (cls p) (seg2 @ s) = []" using assms(4) by auto
  then have "takeWhile (cls p) (seg @ seg2 @ s) = seg"
    using assms(1) by (simp add: piece_ok_def takeWhile_append2)
  then show ?thesis using assms(1) by (auto simp: piece_prefix_def piece_ok_def split: option.splits)
qed

lemma match_pieces_complete:
  "separated ps \<Longrightarrow> matches ps segs s \<Longrightarrow> match_pieces ps s = Some segs"
proof (induction ps arbitrary: segs s rule: separated.induct)
  case 1
  then show ?case by (simp add: matches_def)
next
  case (2 p)
  then show ?case
    by (auto simp: matches_def list_all2_Cons1 piece_prefix_last Let_def) (simp add: piece_ok_def)
next
  case (3 p q ps)
  from 3(3) obtain seg seg2 segs' where segs: "segs = seg # seg2 # segs'" and p: "piece_ok p seg" "piece_ok q seg2"
    and s: "s = seg @ seg2 @ concat segs'" and rest: "matches (q # ps) (seg2 # segs') (seg2 @ concat segs')"
    by (auto simp: matches_def list_all2_Cons1)
  have "piece_prefix p s = seg"
    using 3(2) p piece_prefix_fixed [OF p(1)] piece_prefix_disjoint [OF p] by (auto simp: s)
  moreover have "match_pieces (q # ps) (seg2 @ concat segs') = Some (seg2 # segs')"
    using 3(1) [OF _ rest] 3(2) by simp
  moreover have "least p \<le> length seg" using p(1) by (simp add: piece_ok_def)
  ultimately show ?case by (simp add: segs s Let_def del: match_pieces.simps(2)
      add: match_pieces.simps(2) [of p])
qed

lemma match_pieces_iff: "separated ps \<Longrightarrow> match_pieces ps s = Some segs \<longleftrightarrow> matches ps segs s"
  using match_pieces_sound match_pieces_complete by blast

lemma Lit_sel [simp]: "cls (Lit c g) = (\<lambda>d. d = c)" "least (Lit c g) = 1" "most (Lit c g) = Some 1"
  "grp (Lit c g) = g"
  by (simp_all add: Lit_def)

lemma separated_control: "separated control_pattern"
  by (auto simp: control_pattern_def is_upper_def between_def code_def)

lemma separated_header: "separated header_pattern"
  by (auto simp: header_pattern_def name_char_def is_upper_def is_lower_def is_digit_def between_def code_def)

end
