(* ===== verification/HttpRequest.thy ===== *)
theory HttpRequest
  imports HttpTypes Regex StaticFiles
begin

text \<open>
  \<^verbatim>\<open>src/http/request.c\<close>: the bytes of a request become an \<open>http_request_t\<close>, and the request is
  validated against the files that exist. A header is copied into a \<open>char\<close> array of fixed size; the
  copy fails with \<open>Out_of_bounds\<close> where the code does not check the size. Logging is omitted.
\<close>

section \<open>The request line\<close>

definition method_str_to_enum :: "string \<Rightarrow> http_method" where
  "method_str_to_enum raw_method =
     (if strncasecmp_eq raw_method ''POST'' 4 then HTTP_POST
      else if strncasecmp_eq raw_method ''GET'' 3 then HTTP_GET
      else if strncasecmp_eq raw_method ''PUT'' 3 then HTTP_PUT
      else if strncasecmp_eq raw_method ''DELETE'' 6 then HTTP_DELETE
      else if strncasecmp_eq raw_method ''HEAD'' 4 then HTTP_HEAD
      else if strncasecmp_eq raw_method ''OPTIONS'' 7 then HTTP_OPTIONS
      else if strncasecmp_eq raw_method ''PATCH'' 5 then HTTP_PATCH
      else if strncasecmp_eq raw_method ''CONNECT'' 7 then HTTP_CONNECT
      else if strncasecmp_eq raw_method ''TRACE'' 5 then HTTP_TRACE
      else HTTP_BAD_METHOD)"

definition match_len :: "regmatch \<Rightarrow> nat" where
  "match_len m = rm_eo m - rm_so m"

text \<open>\<open>strncpy(dst, line + m.rm_so, m.rm_eo - m.rm_so)\<close> and the terminator behind it.\<close>

definition matched :: "string \<Rightarrow> regmatch \<Rightarrow> string" where
  "matched line m = take (match_len m) (drop (rm_so m) line)"

text \<open>The loop over the tokens of the URI, \<open>n\<close> of them left.\<close>

fun uri_loop :: "nat \<Rightarrow> nat \<Rightarrow> (string \<times> string) option \<Rightarrow> http_request_t \<Rightarrow> bool \<times> http_request_t" where
  "uri_loop i 0 tok r = (True, r)"
| "uri_loop i (Suc n) None r = (True, r)"
| "uri_loop i (Suc n) (Some (token, rest)) r =
     (if HTTP_URI_TOKEN_SIZE - 1 \<le> length token then (False, r)
      else uri_loop (i + 1) n (strtok_r (\<lambda>c. c = CHR ''/'') rest)
             (r\<lparr>uri := (uri r)[i := take (HTTP_URI_TOKEN_SIZE - 1) token]\<rparr>))"

definition parse_control_data :: "string option \<Rightarrow> http_request_t \<Rightarrow> (int \<times> http_request_t) result" where
  "parse_control_data raw_control_data r =
     and_then (match_regex control_pattern raw_control_data 4) (\<lambda>(matches_count, m).
     if matches_count \<noteq> 4 then Inr (matches_count, r)
     else if HTTP_URI_TOKEN_COUNT * HTTP_URI_TOKEN_SIZE \<le> match_len (m ! 2) then Inr (-1, r)
     else if HTTP_VERSION_SIZE \<le> match_len (m ! 3) then Inr (-1, r)
     else let line = the raw_control_data in
       in_bounds ''method_str'' (match_len (m ! 1) < HTTP_METHOD_SIZE) (
       let r1 = r\<lparr>req_method := method_str_to_enum (matched line (m ! 1))\<rparr>;
           r2 = r1\<lparr>req_method := method_str_to_enum (drop (rm_so (m ! 1)) line)\<rparr>;
           (ok, r3) = uri_loop 0 HTTP_URI_TOKEN_COUNT
              (strtok_r (\<lambda>c. c = CHR ''/'') (matched line (m ! 2))) r2
       in if \<not> ok then Inr (-1, r3)
          else Inr (0, r3\<lparr>version := matched line (m ! 3)\<rparr>)))"

section \<open>A header field\<close>

text \<open>The copy into the array \<open>name\<close> of \<open>n\<close> bytes, terminator included.\<close>

definition copy_field :: "string \<Rightarrow> nat \<Rightarrow> string \<Rightarrow> http_request_t \<Rightarrow> (int \<times> http_request_t) result" where
  "copy_field name n s r = in_bounds name (length s < n) (Inr (0, r))"

definition parse_header_field :: "string \<Rightarrow> http_request_t \<Rightarrow> (int \<times> http_request_t) result" where
  "parse_header_field raw_header_field r =
     and_then (match_regex header_pattern (Some raw_header_field) 3) (\<lambda>(matches_count, m).
     if matches_count \<noteq> 3 then Inr (matches_count, r)
     else if 100 \<le> match_len (m ! 1) then Inr (-1, r)
     else if HTTP_HEADER_SIZE \<le> match_len (m ! 2) then Inr (-1, r)
     else let header_name = matched raw_header_field (m ! 1);
              v = matched raw_header_field (m ! 2);
              rest = drop (rm_so (m ! 2)) raw_header_field in
       if strcasecmp_eq header_name ''Host'' then copy_field ''host'' HTTP_HEADER_SIZE v (r\<lparr>host := v\<rparr>)
       else if strcasecmp_eq header_name ''User-Agent''
       then copy_field ''user_agent'' HTTP_HEADER_SIZE v (r\<lparr>user_agent := v\<rparr>)
       else if strcasecmp_eq header_name ''Accept''
       then copy_field ''accept'' HTTP_HEADER_SIZE v (r\<lparr>accept := v\<rparr>)
       else if strcasecmp_eq header_name ''Accept-Language''
       then copy_field ''accept_language'' HTTP_HEADER_SIZE v (r\<lparr>accept_language := v\<rparr>)
       else if strcasecmp_eq header_name ''Accept-Encoding''
       then copy_field ''accept_encoding'' HTTP_HEADER_SIZE v (r\<lparr>accept_encoding := v\<rparr>)
       else if strcasecmp_eq header_name ''Connection''
       then Inr (0, if strncasecmp_eq rest ''keep-alive'' 10 then r\<lparr>connection := KEEP_ALIVE\<rparr>
                    else if strncasecmp_eq rest ''close'' 5 then r\<lparr>connection := CLOSE\<rparr> else r)
       else if strcasecmp_eq header_name ''If-None-Match''
       then copy_field ''if_none_match'' HTTP_HEADER_ETAG_SIZE v (r\<lparr>if_none_match := v\<rparr>)
       else if strcasecmp_eq header_name ''Content-Type''
       then copy_field ''content_type'' HTTP_HEADER_SIZE v (r\<lparr>req_content_type := v\<rparr>)
       else if strcasecmp_eq header_name ''Content-Length''
       then Inr (0, r\<lparr>req_content_length := strtol10 rest\<rparr>)
       else Inr (0, r))"

section \<open>The request\<close>

text \<open>
  \<open>strtok_r\<close> on the copy of the request: \<open>s\<close> is what is left of it up to its NUL, or up to its end
  when it holds none (\<open>terminated\<close> is false); then a scan that finds no delimiter runs past it.
\<close>

definition crlf :: "char \<Rightarrow> bool" where
  "crlf c \<longleftrightarrow> code c = 13 \<or> code c = 10"

definition next_line :: "bool \<Rightarrow> string \<Rightarrow> (string \<times> string) option result" where
  "next_line terminated s =
     in_bounds ''raw_request_copy'' (terminated \<or> dropWhile (\<lambda>c. \<not> crlf c) (dropWhile crlf s) \<noteq> [])
       (Inr (strtok_r crlf s))"

function parse_lines :: "bool \<Rightarrow> string \<Rightarrow> int \<Rightarrow> http_request_t \<Rightarrow> (int \<times> http_request_t) result" where
  "parse_lines terminated s return_value r =
     and_then (next_line terminated s) (\<lambda>tok. case tok of
       None \<Rightarrow> Inr (return_value, r)
     | Some (line, rest) \<Rightarrow>
         and_then (parse_header_field line r) (\<lambda>(rv, r'). if rv \<noteq> 0 then Inr (rv, r')
           else parse_lines terminated rest rv r'))"
  by pat_completeness auto
termination
  by (relation "measure (\<lambda>(t, s, rv, r). length s)")
    (auto simp: next_line_def dest: strtok_r_shorter)

declare parse_lines.simps [simp del]

definition parse_http_request :: "libc \<Rightarrow> buffer \<Rightarrow> http_request_t \<Rightarrow> (int \<times> http_request_t) result" where
  "parse_http_request L raw_request r =
     (if \<not> alloc_ok L (count raw_request) then Inr (ALLOCATE_MEMORY_ERROR, r)
      else case data raw_request of
        None \<Rightarrow> Inl (Null_pointer ''memcpy'')
      | Some d \<Rightarrow>
          in_bounds ''raw_request->data'' (count raw_request \<le> length d) (
          let copy = take (count raw_request) d; terminated = NUL \<in> set copy in
          and_then (next_line terminated (cstr copy)) (\<lambda>tok.
          and_then (parse_control_data (map_option fst tok) r) (\<lambda>(rv, r1).
          parse_lines terminated (case tok of None \<Rightarrow> [] | Some (_, rest) \<Rightarrow> rest) rv r1))))"

section \<open>Validation\<close>

text \<open>No value of the list occurs in a header that is not empty.\<close>

definition refuses :: "string \<Rightarrow> string list \<Rightarrow> bool" where
  "refuses h values \<longleftrightarrow> (\<forall>v \<in> set values. \<not> strcasestr h v) \<and> h \<noteq> []"

definition validate_request_headers :: "file_system \<Rightarrow> http_request_t \<Rightarrow> int" where
  "validate_request_headers F r =
     (let acc = accept r;
          encoding = (if refuses (accept_encoding r) [''gzip'', ''deflate''] then HTTP_NOT_ACCEPTABLE else HTTP_OK) in
      if req_method r \<noteq> HTTP_GET then HTTP_METHOD_NOT_ALLOWED
      else if refuses (accept_language r) [''en-US'', ''en'', ''*''] then HTTP_NOT_ACCEPTABLE
      else case uri_to_file_name (uri r) of
        None \<Rightarrow> HTTP_NOT_FOUND
      | Some file_name \<Rightarrow>
          if \<not> find_static_file F file_name then HTTP_NOT_FOUND
          else if strcasestr file_name ''.html''
          then if refuses acc [''text/html'', ''text/*'', ''*/*''] then HTTP_NOT_ACCEPTABLE else encoding
          else if strcasestr file_name ''.png''
          then if refuses acc [''*/*'', ''image/*'', ''image/png''] then HTTP_NOT_ACCEPTABLE else encoding
          else if strcasestr file_name ''.css''
          then if refuses acc [''text/css'', ''text/*'', ''*/*''] then HTTP_NOT_ACCEPTABLE else encoding
          else if strcasestr file_name ''.js''
          then if refuses acc [''application/javascript'', ''application/*'', ''*/*''] then HTTP_NOT_ACCEPTABLE
               else encoding
          else if strcasestr file_name ''.gif''
          then if refuses acc [''image/gif'', ''image/*'', ''*/*''] then HTTP_NOT_ACCEPTABLE else encoding
          else HTTP_NOT_ACCEPTABLE)"

section \<open>Tokens\<close>

text \<open>All the tokens successive calls of \<open>strtok_r\<close> return.\<close>

function tokens :: "(char \<Rightarrow> bool) \<Rightarrow> string \<Rightarrow> string list" where
  "tokens d s = (case strtok_r d s of None \<Rightarrow> [] | Some (t, rest) \<Rightarrow> t # tokens d rest)"
  by pat_completeness auto
termination
  by (relation "measure (\<lambda>(d, s). length s)") (auto dest: strtok_r_shorter)

declare tokens.simps [simp del]

lemma tokens_None: "strtok_r d s = None \<Longrightarrow> tokens d s = []"
  by (subst tokens.simps) simp

lemma tokens_Some: "strtok_r d s = Some (t, rest) \<Longrightarrow> tokens d s = t # tokens d rest"
  by (subst tokens.simps) simp

lemma tokens_parts:
  "concat (tokens d s) = filter (\<lambda>c. \<not> d c) s \<and> (\<forall>t \<in> set (tokens d s). t \<noteq> [] \<and> (\<forall>c \<in> set t. \<not> d c))"
proof (induction d s rule: tokens.induct)
  case (1 d s)
  show ?case
  proof (cases "strtok_r d s")
    case None
    then show ?thesis by (simp add: tokens_None strtok_r_None filter_empty_conv)
  next
    case (Some p)
    obtain t rest where p: "p = (t, rest)" by force
    obtain pre post where s: "s = pre @ t @ post" "\<forall>c \<in> set pre. d c" "t \<noteq> []" "\<forall>c \<in> set t. \<not> d c"
      "post = [] \<and> rest = [] \<or> (\<exists>c. post = c # rest \<and> d c)"
      using strtok_r_Some [of d s t rest] Some p by blast
    have "filter (\<lambda>c. \<not> d c) pre = []" "filter (\<lambda>c. \<not> d c) t = t"
      using s(2,4) by (simp_all add: filter_empty_conv)
    moreover have "filter (\<lambda>c. \<not> d c) post = filter (\<lambda>c. \<not> d c) rest" using s(5) by auto
    moreover have "concat (tokens d rest) = filter (\<lambda>c. \<not> d c) rest \<and>
        (\<forall>t \<in> set (tokens d rest). t \<noteq> [] \<and> (\<forall>c \<in> set t. \<not> d c))"
      using 1 Some p by simp
    moreover have "tokens d s = t # tokens d rest" using Some p by (simp add: tokens_Some)
    ultimately show ?thesis using s(1,3,4) by simp
  qed
qed

abbreviation slash :: "char \<Rightarrow> bool" where
  "slash \<equiv> (\<lambda>c. c = CHR ''/'')"

text \<open>The loop stores the first tokens one after the other.\<close>

lemma uri_loop_fst:
  "fst (uri_loop i n (strtok_r slash s) r) \<longleftrightarrow>
     (\<forall>t \<in> set (take n (tokens slash s)). length t < HTTP_URI_TOKEN_SIZE - 1)"
proof (induction n arbitrary: i s r)
  case 0
  then show ?case by simp
next
  case (Suc n)
  show ?case
  proof (cases "strtok_r slash s")
    case None
    then show ?thesis by (simp add: tokens_None)
  next
    case (Some p)
    obtain t rest where p: "p = (t, rest)" by force
    then have "tokens slash s = t # tokens slash rest" using Some by (simp add: tokens_Some)
    then show ?thesis using Suc.IH by (simp add: Some p not_less [symmetric])
  qed
qed

lemma uri_loop_stores:
  "i + n = length (uri r) \<Longrightarrow> \<forall>t \<in> set (take n (tokens slash s)). length t < HTTP_URI_TOKEN_SIZE - 1 \<Longrightarrow>
   uri_loop i n (strtok_r slash s) r =
     (True, r\<lparr>uri := take i (uri r) @ take n (tokens slash s) @
             drop (i + length (take n (tokens slash s))) (uri r)\<rparr>)"
proof (induction n arbitrary: i s r)
  case 0
  then show ?case by simp
next
  case (Suc n)
  show ?case
  proof (cases "strtok_r slash s")
    case None
    then show ?thesis by (simp add: tokens_None)
  next
    case (Some p)
    obtain t rest where p: "p = (t, rest)" by force
    have tok: "tokens slash s = t # tokens slash rest" using Some p by (simp add: tokens_Some)
    let ?r = "r\<lparr>uri := (uri r)[i := t]\<rparr>"
    have short: "length t < HTTP_URI_TOKEN_SIZE - 1"
      "\<forall>t \<in> set (take n (tokens slash rest)). length t < HTTP_URI_TOKEN_SIZE - 1"
      using Suc.prems(2) by (auto simp: tok)
    have step: "uri_loop i (Suc n) (strtok_r slash s) r = uri_loop (Suc i) n (strtok_r slash rest) ?r"
      using short(1) by (simp add: Some p)
    have "uri_loop (Suc i) n (strtok_r slash rest) ?r = (True, ?r\<lparr>uri := take (Suc i) (uri ?r) @
        take n (tokens slash rest) @ drop (Suc i + length (take n (tokens slash rest))) (uri ?r)\<rparr>)"
      by (rule Suc.IH [OF _ short(2)]) (use Suc.prems in simp)
    moreover have "take (Suc i) (uri ?r) @ take n (tokens slash rest) @
          drop (Suc i + length (take n (tokens slash rest))) (uri ?r)
        = take i (uri r) @ take (Suc n) (tokens slash s) @
          drop (i + length (take (Suc n) (tokens slash s))) (uri r)"
      using Suc.prems(1) by (simp add: take_Suc_conv_app_nth tok)
    ultimately show ?thesis unfolding step by simp
  qed
qed

section \<open>What the request line must be\<close>

definition method_token :: "string \<Rightarrow> bool" where
  "method_token m \<longleftrightarrow> (\<forall>c \<in> set m. is_upper c) \<and> 2 \<le> length m \<and> length m \<le> 12"

definition version_token :: "string \<Rightarrow> bool" where
  "version_token v \<longleftrightarrow> (\<exists>d. v = ''HTTP/'' @ d \<and> length d = 3 \<and> (\<forall>c \<in> set d. is_digit c \<or> c = CHR ''.''))"

definition request_line :: "string \<Rightarrow> string \<Rightarrow> string \<Rightarrow> string \<Rightarrow> bool" where
  "request_line line m u v \<longleftrightarrow> line = m @ '' '' @ u @ '' '' @ v \<and> method_token m \<and> version_token v \<and>
     u \<noteq> [] \<and> CHR '' '' \<notin> set u"

lemma piece_ok_Lit: "piece_ok (Lit c g) seg \<longleftrightarrow> seg = [c]"
  by (cases seg) (auto simp: piece_ok_def le_Suc_eq)

lemma control_segments:
  "match_pieces control_pattern line = Some segs \<longleftrightarrow>
     (\<exists>m u v d. request_line line m u v \<and> v = ''HTTP/'' @ d \<and>
        segs = [m, '' '', u, '' '', ''H'', ''T'', ''T'', ''P'', ''/'', d])"
proof -
  have "match_pieces control_pattern line = Some segs \<longleftrightarrow> matches control_pattern segs line"
    by (rule match_pieces_iff [OF separated_control])
  also have "\<dots> \<longleftrightarrow> (\<exists>m u v d. request_line line m u v \<and> v = ''HTTP/'' @ d \<and>
      segs = [m, '' '', u, '' '', ''H'', ''T'', ''T'', ''P'', ''/'', d])"
    unfolding matches_def control_pattern_def request_line_def method_token_def version_token_def
    by (auto simp: list_all2_Cons1 piece_ok_Lit) (auto simp: piece_ok_def Suc_le_eq)
  finally show ?thesis .
qed

lemma control_match:
  assumes "request_line line m u v"
  shows "match_regex control_pattern (Some line) 4 = Inr (4,
    [\<lparr>rm_so = 0, rm_eo = length line\<rparr>, \<lparr>rm_so = 0, rm_eo = length m\<rparr>,
     \<lparr>rm_so = length m + 1, rm_eo = length m + 1 + length u\<rparr>,
     \<lparr>rm_so = length m + 1 + length u + 1, rm_eo = length line\<rparr>])"
proof -
  obtain d where d: "v = ''HTTP/'' @ d" "length d = 3"
    using assms by (auto simp: request_line_def version_token_def)
  have seg: "match_pieces control_pattern line = Some [m, '' '', u, '' '', ''H'', ''T'', ''T'', ''P'', ''/'', d]"
    unfolding control_segments using assms d by blast
  have "length line = length m + 1 + length u + 1 + 8"
    using assms d by (simp add: request_line_def)
  then have "map (group_match (spans 0 control_pattern
      [m, '' '', u, '' '', ''H'', ''T'', ''T'', ''P'', ''/'', d])) [0..<4] =
    [\<lparr>rm_so = 0, rm_eo = length line\<rparr>, \<lparr>rm_so = 0, rm_eo = length m\<rparr>,
     \<lparr>rm_so = length m + 1, rm_eo = length m + 1 + length u\<rparr>,
     \<lparr>rm_so = length m + 1 + length u + 1, rm_eo = length line\<rparr>]"
    by (simp add: control_pattern_def group_match_def d(2) upt_rec)
  then show ?thesis by (simp add: match_regex_def seg)
qed

lemma control_no_match:
  assumes "\<nexists>m u v. request_line line m u v"
  shows "match_regex control_pattern (Some line) 4 = Inr (-1, [])"
proof -
  have "match_pieces control_pattern line = None"
    using control_segments [of line] assms by (metis option.exhaust)
  then show ?thesis by (simp add: match_regex_def)
qed

text \<open>The method is decided by the first characters of the line.\<close>

lemma parse_control_data_match:
  assumes rl: "request_line line m u v" and len: "length (uri r) = 4"
  shows "parse_control_data (Some line) r =
    (if 800 \<le> length u then Inr (-1, r)
     else if 8 \<le> length m then Inl (Out_of_bounds ''method_str'')
     else if \<forall>t \<in> set (take 4 (tokens slash u)). length t < 199
     then Inr (0, r\<lparr>req_method := method_str_to_enum line,
            uri := take 4 (tokens slash u) @ drop (length (take 4 (tokens slash u))) (uri r), version := v\<rparr>)
     else Inr (-1, snd (uri_loop 0 4 (strtok_r slash u) (r\<lparr>req_method := method_str_to_enum line\<rparr>))))"
proof -
  have parts: "length line = length m + 1 + length u + 1 + length v" "length v = 8"
    "take (length u) (drop (length m + 1) line) = u" "drop (length m + 1 + length u + 1) line = v"
    using rl by (auto simp: request_line_def version_token_def)
  have v: "take (length line - (length m + 1 + length u + 1)) (drop (length m + 1 + length u + 1) line) = v"
    unfolding parts(4) using parts(1) by simp
  let ?r = "r\<lparr>req_method := method_str_to_enum line\<rparr>"
  have run: "parse_control_data (Some line) r =
    (if 800 \<le> length u then Inr (-1, r)
     else if 8 \<le> length m then Inl (Out_of_bounds ''method_str'')
     else let (ok, r3) = uri_loop 0 4 (strtok_r slash u) ?r
          in if \<not> ok then Inr (-1, r3) else Inr (0, r3\<lparr>version := v\<rparr>))"
    using parts v unfolding parse_control_data_def control_match [OF rl]
    by (auto simp: match_len_def matched_def in_bounds_def Let_def split: prod.splits)
  show ?thesis
  proof (cases "\<forall>t \<in> set (take 4 (tokens slash u)). length t < 199")
    case True
    then have "uri_loop 0 4 (strtok_r slash u) ?r = (True, ?r\<lparr>uri := take 0 (uri ?r) @
        take 4 (tokens slash u) @ drop (0 + length (take 4 (tokens slash u))) (uri ?r)\<rparr>)"
      using uri_loop_stores [of 0 4 ?r u] len by simp
    then show ?thesis using True unfolding run by simp
  next
    case False
    then have "\<not> fst (uri_loop 0 4 (strtok_r slash u) ?r)" using uri_loop_fst [of 0 4 u ?r] by simp
    then show ?thesis
      unfolding run if_not_P [OF False]
      by (cases "uri_loop 0 4 (strtok_r slash u) ?r") simp
  qed
qed

lemma parse_control_data_no_match:
  "(\<nexists>m u v. request_line line m u v) \<Longrightarrow> parse_control_data (Some line) r = Inr (-1, r)"
  by (simp add: parse_control_data_def control_no_match)

text \<open>
  C15: \<open>parse_control_data\<close> accepts a line exactly when it is an upper-case method of two to seven
  letters, one space, a path without spaces of fewer than 800 bytes whose first four segments have
  fewer than 199, one space and a version; it then stores the first four non-empty segments of the
  path, the version, and the method told by the first letters of the line.
\<close>

theorem request_line_accepted:
  assumes "length (uri r) = HTTP_URI_TOKEN_COUNT"
  shows "parse_control_data (Some line) r = Inr (0, r') \<longleftrightarrow>
    (\<exists>m u v. request_line line m u v \<and> length m < HTTP_METHOD_SIZE \<and> length u < 800 \<and>
       (\<forall>t \<in> set (take 4 (tokens slash u)). length t < 199) \<and>
       r' = r\<lparr>req_method := method_str_to_enum line,
              uri := take 4 (tokens slash u) @ drop (length (take 4 (tokens slash u))) (uri r), version := v\<rparr>)"
proof (cases "\<exists>m u v. request_line line m u v")
  case True
  then obtain m u v where rl: "request_line line m u v" by blast
  have unique: "m' = m \<and> u' = u \<and> v' = v" if rl': "request_line line m' u' v'" for m' u' v'
  proof -
    have "length m' = length m" "length u' = length u"
      using control_match [OF rl] control_match [OF rl'] by auto
    then show ?thesis using rl rl' by (auto simp: request_line_def)
  qed
  let ?ok = "\<lambda>m u v. length m < HTTP_METHOD_SIZE \<and> length u < 800 \<and>
       (\<forall>t \<in> set (take 4 (tokens slash u)). length t < 199) \<and>
       r' = r\<lparr>req_method := method_str_to_enum line,
              uri := take 4 (tokens slash u) @ drop (length (take 4 (tokens slash u))) (uri r), version := v\<rparr>"
  have "(\<exists>m u v. request_line line m u v \<and> ?ok m u v) \<longleftrightarrow> ?ok m u v"
    using rl unique by blast
  then show ?thesis
    unfolding parse_control_data_match [OF rl assms]
    by (cases "800 \<le> length u"; cases "8 \<le> length m";
        cases "\<forall>t \<in> set (take 4 (tokens slash u)). length t < 199") auto
next
  case False
  then show ?thesis by (auto simp: parse_control_data_no_match)
qed

theorem request_line_accepted_witness:
  "parse_control_data (Some ''GET /posts/7 HTTP/1.1'') zero_request = Inr (0, zero_request\<lparr>req_method := HTTP_GET,
     uri := [''posts'', ''7'', [], []], version := ''HTTP/1.1''\<rparr>)"
proof -
  have rl: "request_line ''GET /posts/7 HTTP/1.1'' ''GET'' ''/posts/7'' ''HTTP/1.1''"
    by (auto simp: request_line_def method_token_def version_token_def is_upper_def is_digit_def between_def code_def)
  have tok: "tokens slash ''/posts/7'' = [''posts'', ''7'']"
    by (subst tokens.simps, simp add: strtok_r_def)+
  have get: "method_str_to_enum ''GET /posts/7 HTTP/1.1'' = HTTP_GET" by code_simp
  have len: "length (uri zero_request) = HTTP_URI_TOKEN_COUNT" by (simp add: zero_request_def)
  show ?thesis
    unfolding request_line_accepted [OF len]
    by (rule exI [of _ "''GET''"], rule exI [of _ "''/posts/7''"], rule exI [of _ "''HTTP/1.1''"])
      (use rl in \<open>simp add: tok get zero_request_def\<close>)
qed

text \<open>
  A request line with a method of 8 to 12 capital letters, which the pattern allows, is copied into
  \<open>method_str\<close>, an array of 8 bytes, and its terminator as well: a write outside the array.
\<close>

lemma long_method_overflows:
  assumes "request_line line m u v" and "length u < 800" and "length (uri r) = HTTP_URI_TOKEN_COUNT"
    and "HTTP_METHOD_SIZE \<le> length m"
  shows "parse_control_data (Some line) r = Inl (Out_of_bounds ''method_str'')"
  using parse_control_data_match [OF assms(1,3)] assms(2,4) by simp

section \<open>Header fields\<close>

text \<open>The headers that are copied: name, array, size of the array.\<close>

definition text_headers :: "(string \<times> (string \<Rightarrow> http_request_t \<Rightarrow> http_request_t) \<times> string \<times> nat) list" where
  "text_headers =
     [(''host'', (\<lambda>v r. r\<lparr>host := v\<rparr>), ''host'', HTTP_HEADER_SIZE),
      (''user-agent'', (\<lambda>v r. r\<lparr>user_agent := v\<rparr>), ''user_agent'', HTTP_HEADER_SIZE),
      (''accept'', (\<lambda>v r. r\<lparr>accept := v\<rparr>), ''accept'', HTTP_HEADER_SIZE),
      (''accept-language'', (\<lambda>v r. r\<lparr>accept_language := v\<rparr>), ''accept_language'', HTTP_HEADER_SIZE),
      (''accept-encoding'', (\<lambda>v r. r\<lparr>accept_encoding := v\<rparr>), ''accept_encoding'', HTTP_HEADER_SIZE),
      (''if-none-match'', (\<lambda>v r. r\<lparr>if_none_match := v\<rparr>), ''if_none_match'', HTTP_HEADER_ETAG_SIZE),
      (''content-type'', (\<lambda>v r. r\<lparr>req_content_type := v\<rparr>), ''content_type'', HTTP_HEADER_SIZE)]"

definition header_line :: "string \<Rightarrow> string \<Rightarrow> string \<Rightarrow> bool" where
  "header_line line n v \<longleftrightarrow> (\<exists>w. line = n @ '':'' @ [w] @ v \<and> is_space w) \<and> n \<noteq> [] \<and> (\<forall>c \<in> set n. name_char c)"

lemma header_segments:
  "match_pieces header_pattern line = Some segs \<longleftrightarrow>
     (\<exists>n w v. line = n @ '':'' @ [w] @ v \<and> is_space w \<and> n \<noteq> [] \<and> (\<forall>c \<in> set n. name_char c) \<and>
        segs = [n, '':'', [w], v])"
proof -
  have "match_pieces header_pattern line = Some segs \<longleftrightarrow> matches header_pattern segs line"
    by (rule match_pieces_iff [OF separated_header])
  also have "\<dots> \<longleftrightarrow> (\<exists>n w v. line = n @ '':'' @ [w] @ v \<and> is_space w \<and> n \<noteq> [] \<and>
      (\<forall>c \<in> set n. name_char c) \<and> segs = [n, '':'', [w], v])"
    unfolding matches_def header_pattern_def
    by (auto simp: list_all2_Cons1 piece_ok_Lit)
      (auto simp: piece_ok_def Suc_le_eq length_Suc_conv le_Suc_eq)
  finally show ?thesis .
qed

lemma header_match:
  assumes "header_line line n v"
  shows "match_regex header_pattern (Some line) 3 = Inr (3,
    [\<lparr>rm_so = 0, rm_eo = length line\<rparr>, \<lparr>rm_so = 0, rm_eo = length n\<rparr>,
     \<lparr>rm_so = length n + 2, rm_eo = length line\<rparr>])"
proof -
  obtain w where w: "line = n @ '':'' @ [w] @ v" "is_space w"
    using assms by (auto simp: header_line_def)
  have seg: "match_pieces header_pattern line = Some [n, '':'', [w], v]"
    unfolding header_segments using assms w by (auto simp: header_line_def)
  have "map (group_match (spans 0 header_pattern [n, '':'', [w], v])) [0..<3] =
    [\<lparr>rm_so = 0, rm_eo = length line\<rparr>, \<lparr>rm_so = 0, rm_eo = length n\<rparr>,
     \<lparr>rm_so = length n + 2, rm_eo = length line\<rparr>]"
    by (simp add: header_pattern_def group_match_def w(1) upt_rec)
  then show ?thesis by (simp add: match_regex_def seg)
qed

lemma header_no_match:
  assumes "\<nexists>n v. header_line line n v"
  shows "parse_header_field line r = Inr (-1, r)"
proof -
  have "match_pieces header_pattern line = None"
    using header_segments [of line] assms unfolding header_line_def by (metis option.exhaust)
  then show ?thesis by (simp add: match_regex_def parse_header_field_def)
qed

text \<open>What a matching line comes down to.\<close>

definition store_header :: "string \<Rightarrow> string \<Rightarrow> http_request_t \<Rightarrow> (int \<times> http_request_t) result" where
  "store_header n v r =
     (case find (\<lambda>(h, _). map tolower n = h) text_headers of
        Some (_, f, arr, sz) \<Rightarrow> in_bounds arr (length v < sz) (Inr (0, f v r))
      | None \<Rightarrow>
          Inr (0, if map tolower n = ''connection''
            then (if strncasecmp_eq v ''keep-alive'' 10 then r\<lparr>connection := KEEP_ALIVE\<rparr>
                  else if strncasecmp_eq v ''close'' 5 then r\<lparr>connection := CLOSE\<rparr> else r)
            else if map tolower n = ''content-length'' then r\<lparr>req_content_length := strtol10 v\<rparr> else r))"

lemma lower_names:
  "map tolower ''Host'' = ''host''" "map tolower ''User-Agent'' = ''user-agent''"
  "map tolower ''Accept'' = ''accept''" "map tolower ''Accept-Language'' = ''accept-language''"
  "map tolower ''Accept-Encoding'' = ''accept-encoding''" "map tolower ''Connection'' = ''connection''"
  "map tolower ''If-None-Match'' = ''if-none-match''" "map tolower ''Content-Type'' = ''content-type''"
  "map tolower ''Content-Length'' = ''content-length''"
  by code_simp+

lemma parse_header_field_match:
  assumes h: "header_line line n v"
  shows "parse_header_field line r =
    (if 100 \<le> length n \<or> HTTP_HEADER_SIZE \<le> length v then Inr (-1, r) else store_header n v r)"
proof -
  obtain w where w: "line = n @ '':'' @ [w] @ v" using h by (auto simp: header_line_def)
  have mt: "matched line \<lparr>rm_so = 0, rm_eo = length n\<rparr> = n"
    "matched line \<lparr>rm_so = length n + 2, rm_eo = length line\<rparr> = v" "drop (length n + 2) line = v"
    "match_len \<lparr>rm_so = 0, rm_eo = length n\<rparr> = length n"
    "match_len \<lparr>rm_so = length n + 2, rm_eo = length line\<rparr> = length v"
    by (simp_all add: matched_def match_len_def w)
  have nth: "[a, b, c] ! 1 = b" "[a, b, c] ! 2 = c" for a b c :: regmatch by simp_all
  show ?thesis
    unfolding parse_header_field_def header_match [OF h] and_then_simps split nth mt Let_def
      strcasecmp_eq_def lower_names copy_field_def store_header_def text_headers_def regmatch.simps mt
    by simp
qed

text \<open>
  C14: a header line \<^verbatim>\<open>name: value\<close> whose name is, in any case, one of the copied headers sets exactly
  that field of the request to the value, when the value fits the array.
\<close>

theorem header_field_stored:
  assumes "header_line line n v" and "length n < 100" and "(map tolower n, f, arr, sz) \<in> set text_headers"
    and "length v < sz"
  shows "parse_header_field line r = Inr (0, f v r)"
proof -
  have "distinct (map fst text_headers)" by (simp add: text_headers_def)
  then have "find (\<lambda>(h, _). map tolower n = h) text_headers = Some (map tolower n, f, arr, sz)"
    using assms(3) by (auto simp: text_headers_def)
  moreover have "sz \<le> HTTP_HEADER_SIZE" using assms(3) by (auto simp: text_headers_def)
  ultimately show ?thesis
    using assms by (simp add: parse_header_field_match store_header_def)
qed

theorem header_field_stored_witness:
  "parse_header_field ''ACCEPT-encoding: gzip'' zero_request = Inr (0, zero_request\<lparr>accept_encoding := ''gzip''\<rparr>)"
proof -
  have line: "header_line ''ACCEPT-encoding: gzip'' ''ACCEPT-encoding'' ''gzip''"
    by (auto simp: header_line_def name_char_def is_upper_def is_lower_def is_digit_def is_space_def between_def code_def)
  have "map tolower ''ACCEPT-encoding'' = ''accept-encoding''" by code_simp
  then have "(map tolower ''ACCEPT-encoding'', (\<lambda>v r. r\<lparr>accept_encoding := v\<rparr>), ''accept_encoding'', HTTP_HEADER_SIZE)
      \<in> set text_headers"
    by (simp add: text_headers_def)
  from header_field_stored [OF line _ this, of zero_request] show ?thesis by simp
qed

text \<open>
  An \<open>If-None-Match\<close> value of 65 to 255 bytes passes the size check, which is against 256, and is
  written outside \<open>if_none_match\<close>, which has 65 bytes.
\<close>

lemma long_etag_overflows:
  assumes "header_line line n v" and "map tolower n = ''if-none-match''"
    and "HTTP_HEADER_ETAG_SIZE \<le> length v" and "length v < HTTP_HEADER_SIZE"
  shows "parse_header_field line r = Inl (Out_of_bounds ''if_none_match'')"
proof -
  have "length n = 13" using arg_cong [OF assms(2), of length] by simp
  moreover have "store_header n v r = Inl (Out_of_bounds ''if_none_match'')"
    unfolding store_header_def text_headers_def using assms(2,3) by simp
  ultimately show ?thesis using assms(4) by (simp add: parse_header_field_match [OF assms(1)])
qed

section \<open>The whole request\<close>

fun parse_headers :: "string list \<Rightarrow> int \<Rightarrow> http_request_t \<Rightarrow> (int \<times> http_request_t) result" where
  "parse_headers [] rv r = Inr (rv, r)"
| "parse_headers (l # ls) rv r =
     and_then (parse_header_field l r) (\<lambda>(rv', r'). if rv' \<noteq> 0 then Inr (rv', r') else parse_headers ls rv' r')"

lemma parse_lines_headers: "parse_lines True s rv r = parse_headers (tokens crlf s) rv r"
proof (induction "length s" arbitrary: s rv r rule: less_induct)
  case less
  show ?case
  proof (cases "strtok_r crlf s")
    case None
    then show ?thesis by (subst parse_lines.simps) (simp add: next_line_def tokens_None)
  next
    case (Some p)
    obtain l rest where p: "p = (l, rest)" by force
    then have "length rest < length s" using Some strtok_r_shorter by simp
    then have "parse_lines True rest rv' r' = parse_headers (tokens crlf rest) rv' r'" for rv' r'
      using less by blast
    then show ?thesis
      using Some p by (subst parse_lines.simps) (simp add: next_line_def tokens_Some split_def cong: if_cong)
  qed
qed

definition request_text :: "buffer \<Rightarrow> string \<Rightarrow> bool" where
  "request_text b s \<longleftrightarrow> (\<exists>d. data b = Some d \<and> count b \<le> length d \<and> NUL \<in> set (take (count b) d) \<and>
     s = cstr (take (count b) d))"

lemma parse_http_request_lines:
  assumes "request_text b s" and "alloc_ok L (count b)"
  shows "parse_http_request L b r = (case tokens crlf s of
      [] \<Rightarrow> Inl (Null_pointer ''regexec'')
    | l # hs \<Rightarrow> and_then (parse_control_data (Some l) r) (\<lambda>(rv, r1). parse_headers hs rv r1))"
proof -
  obtain d where d: "data b = Some d" "count b \<le> length d" "NUL \<in> set (take (count b) d)"
    and s: "s = cstr (take (count b) d)" using assms(1) by (auto simp: request_text_def)
  show ?thesis
  proof (cases "strtok_r crlf s")
    case None
    then show ?thesis
      using d s assms(2)
      by (simp add: parse_http_request_def next_line_def tokens_None parse_control_data_def match_regex_def)
  next
    case (Some p)
    then show ?thesis
      using d s assms(2) tokens_Some [of crlf s "fst p" "snd p"]
      by (simp add: parse_http_request_def next_line_def parse_lines_headers split_def Let_def)
  qed
qed

text \<open>
  C13: a NUL-terminated request is parsed as its non-empty lines (CR, LF and any run of them separate):
  the first as the request line, the others as header fields in order until one is refused. When
  there is none, and a client that closes its side leaves none, a null pointer goes to \<open>regexec\<close>.
\<close>

theorem request_parsed_by_lines:
  assumes "request_text b s" and "alloc_ok L (count b)"
  shows "parse_http_request L b r = (case tokens crlf s of
      [] \<Rightarrow> Inl (Null_pointer ''regexec'')
    | l # hs \<Rightarrow> and_then (parse_control_data (Some l) r) (\<lambda>(rv, r1). parse_headers hs rv r1)) \<and>
    concat (tokens crlf s) = filter (\<lambda>c. \<not> crlf c) s \<and> [] \<notin> set (tokens crlf s)"
  using parse_http_request_lines [OF assms] tokens_parts [of crlf s] by blast

theorem request_parsed_by_lines_witness:
  "parse_http_request \<lparr>alloc_ok = (\<lambda>_. True), junk = (\<lambda>_. NUL)\<rparr>
     \<lparr>capacity = 4, count = 1, data = Some [NUL, NUL, NUL, NUL]\<rparr> zero_request = Inl (Null_pointer ''regexec'')"
proof -
  have rt: "request_text \<lparr>capacity = 4, count = 1, data = Some [NUL, NUL, NUL, NUL]\<rparr> []"
    by (simp add: request_text_def cstr_def)
  have "tokens crlf [] = []" by (rule tokens_None) (simp add: strtok_r_def)
  then show ?thesis
    using request_parsed_by_lines [OF rt, of "\<lparr>alloc_ok = (\<lambda>_. True), junk = (\<lambda>_. NUL)\<rparr>" zero_request] by simp
qed

text \<open>
  The verdict on the request line is lost when a header follows: \<open>return_value\<close> is overwritten, and
  the request is reported as parsed although its line was refused.
\<close>

lemma request_line_error_masked:
  assumes "request_text b s" and "alloc_ok L (count b)" and "tokens crlf s = l # h # hs"
    and "parse_control_data (Some l) r = Inr (rv, r1)" and "parse_headers (h # hs) 0 r1 = Inr (0, r2)"
  shows "parse_http_request L b r = Inr (0, r2)"
  using parse_http_request_lines [OF assms(1,2), of r] assms(3-5) by simp

section \<open>The arrays of the request\<close>

definition request_fits :: "http_request_t \<Rightarrow> bool" where
  "request_fits r \<longleftrightarrow> length (uri r) = HTTP_URI_TOKEN_COUNT \<and>
     (\<forall>t \<in> set (uri r). length t < HTTP_URI_TOKEN_SIZE) \<and> length (version r) < HTTP_VERSION_SIZE \<and>
     length (host r) < HTTP_HEADER_SIZE \<and> length (user_agent r) < HTTP_HEADER_SIZE \<and>
     length (accept r) < HTTP_HEADER_SIZE \<and> length (accept_language r) < HTTP_HEADER_SIZE \<and>
     length (accept_encoding r) < HTTP_HEADER_SIZE \<and> length (if_none_match r) < HTTP_HEADER_ETAG_SIZE \<and>
     length (req_content_type r) < HTTP_HEADER_SIZE"

lemma uri_loop_fits: "request_fits r \<Longrightarrow> request_fits (snd (uri_loop i n tok r))"
proof (induction i n tok r rule: uri_loop.induct)
  case (3 i n t rest r)
  have "\<forall>x \<in> set ((uri r)[i := take 199 t]). length x < HTTP_URI_TOKEN_SIZE"
    using 3(2) set_update_subset_insert [of "uri r" i "take 199 t"] by (auto simp: request_fits_def)
  then have "request_fits (r\<lparr>uri := (uri r)[i := take 199 t]\<rparr>)"
    using 3(2) by (simp add: request_fits_def)
  then show ?case using 3 by (cases "199 \<le> length t") simp_all
qed simp_all

lemma parse_control_data_fits:
  assumes fits: "request_fits r" and ret: "parse_control_data (Some line) r = Inr (rv, r')"
  shows "request_fits r'"
proof (cases "\<exists>m u v. request_line line m u v")
  case True
  then obtain m u v where rl: "request_line line m u v" by blast
  have len: "length (uri r) = 4" using fits by (simp add: request_fits_def)
  have v: "length v < HTTP_VERSION_SIZE" using rl by (auto simp: request_line_def version_token_def)
  let ?r = "r\<lparr>req_method := method_str_to_enum line\<rparr>"
  have r: "request_fits ?r" using fits by (simp add: request_fits_def)
  show ?thesis
  proof (cases "length u < 800 \<and> length m < 8 \<and> (\<forall>t \<in> set (take 4 (tokens slash u)). length t < 199)")
    case True
    then have "snd (uri_loop 0 4 (strtok_r slash u) ?r) = ?r\<lparr>uri := take 4 (tokens slash u) @
        drop (length (take 4 (tokens slash u))) (uri r)\<rparr>"
      using uri_loop_stores [of 0 4 ?r u] len by simp
    then have "request_fits (?r\<lparr>uri := take 4 (tokens slash u) @
        drop (length (take 4 (tokens slash u))) (uri r)\<rparr>)"
      using uri_loop_fits [OF r, of 0 4 "strtok_r slash u"] by simp
    then have "request_fits (?r\<lparr>uri := take 4 (tokens slash u) @
        drop (length (take 4 (tokens slash u))) (uri r), version := v\<rparr>)"
      using v by (simp add: request_fits_def)
    then show ?thesis using ret True parse_control_data_match [OF rl len] by simp
  next
    case False
    then show ?thesis
      using ret parse_control_data_match [OF rl len] fits uri_loop_fits [OF r, of 0 4 "strtok_r slash u"]
      by (auto split: if_splits)
  qed
next
  case False
  then show ?thesis using ret fits by (auto simp: parse_control_data_no_match)
qed

lemma parse_header_field_fits:
  assumes fits: "request_fits r" and ret: "parse_header_field line r = Inr (rv, r')"
  shows "request_fits r'"
proof (cases "\<exists>n v. header_line line n v")
  case True
  then obtain n v where h: "header_line line n v" by blast
  have "request_fits r''" if "store_header n v r = Inr (rv, r'')" for r''
    using that fits unfolding store_header_def text_headers_def
    by (auto simp: request_fits_def split: if_splits)
  then show ?thesis using ret fits by (auto simp: parse_header_field_match [OF h] split: if_splits)
next
  case False
  then show ?thesis using ret fits by (auto simp: header_no_match)
qed

lemma parse_headers_fits:
  "request_fits r \<Longrightarrow> parse_headers ls rv0 r = Inr (rv, r') \<Longrightarrow> request_fits r'"
proof (induction ls arbitrary: rv0 r)
  case (Cons l ls)
  then obtain rv1 r1 where h: "parse_header_field l r = Inr (rv1, r1)"
    and rest: "if rv1 \<noteq> 0 then Inr (rv1, r1) = Inr (rv, r') else parse_headers ls rv1 r1 = (Inr (rv, r') :: _ result)"
    by (auto split: if_splits)
  from parse_header_field_fits [OF Cons.prems(1) h] have "request_fits r1" .
  then show ?case using rest Cons.IH by (auto split: if_splits)
qed simp


lemma zero_request_fits: "request_fits zero_request"
  by (simp add: request_fits_def zero_request_def)


section \<open>Which requests are valid\<close>

definition media_types :: "string \<Rightarrow> string list option" where
  "media_types file_name =
     (if strcasestr file_name ''.html'' then Some [''text/html'', ''text/*'', ''*/*'']
      else if strcasestr file_name ''.png'' then Some [''*/*'', ''image/*'', ''image/png'']
      else if strcasestr file_name ''.css'' then Some [''text/css'', ''text/*'', ''*/*'']
      else if strcasestr file_name ''.js'' then Some [''application/javascript'', ''application/*'', ''*/*'']
      else if strcasestr file_name ''.gif'' then Some [''image/gif'', ''image/*'', ''*/*'']
      else None)"


end
