(* ===== verification/Pipeline.thy ===== *)
theory Pipeline
  imports Listener Loader HttpRequest
begin

text \<open>
  The four worker stages (\<^verbatim>\<open>src/handlers/parser.c\<close>, \<^verbatim>\<open>loader.c\<close>, \<^verbatim>\<open>builder.c\<close>, \<^verbatim>\<open>sender.c\<close>) and the
  threads that run them (\<^verbatim>\<open>src/worker.c\<close>). A round of a stage is two steps, because the other threads
  run between them: it takes a session with \<open>pop_request\<close>, and, holding the session's pointers, it
  works on the objects and gives the session back with \<open>push_request\<close>. The inductive relation \<open>step\<close>
  is one such step of any thread, or one entry of the listener's round. Logging is left out.
\<close>

section \<open>The work of each stage\<close>

text \<open>\<open>handle_a\<close>: the parsed request and the status of the response.\<close>

definition parser_work :: "libc \<Rightarrow> file_system \<Rightarrow> buffer \<Rightarrow> http_request_t \<Rightarrow> http_response_t \<Rightarrow>
    (http_request_t \<times> http_response_t) result" where
  "parser_work L F b q s =
     and_then (parse_http_request L b q) (\<lambda>(result, q').
       Inr (q', s\<lparr>status_code :=
         (if result = ALLOCATE_MEMORY_ERROR then HTTP_INTERNAL_SERVER_ERROR
          else if result < 0 then HTTP_NOT_ACCEPTABLE
          else validate_request_headers F q')\<rparr>))"

text \<open>
  \<open>handle_c\<close>. \<open>stack\<close> is the response structure on the stack of
  \<open>construct_upgrade_to_https_response\<close>, which is not initialised.
\<close>

definition builder_work :: "libc \<Rightarrow> file_system \<Rightarrow> int \<Rightarrow> (string \<Rightarrow> nat list) \<Rightarrow> zlib \<Rightarrow> http_response_t \<Rightarrow>
    http_request_t \<Rightarrow> http_response_t \<Rightarrow> buffer \<Rightarrow> buffer \<Rightarrow> (http_response_t \<times> buffer \<times> buffer) result" where
  "builder_work L F now sha Z stack q s b tmp =
     (if status_code s = HTTP_MOVED_PERMANENTLY
      then and_then (construct_upgrade_to_https_response L now stack (uri q) (host q) b) (\<lambda>(_, b').
           Inr (s, b', tmp))
      else and_then (construct_response L F now sha Z s (uri q) (accept_encoding q) (if_none_match q) b tmp)
           (\<lambda>(_, s', b', tmp'). Inr (s', b', tmp')))"

text \<open>The scratch buffer of \<open>handle_c\<close>, cleared at the start of a round.\<close>

definition clear_scratch :: "buffer \<Rightarrow> buffer result" where
  "clear_scratch b = write_bytes 0 (replicate (capacity b) NUL) b"

text \<open>
  \<open>handle_d\<close>: what is left to send and the next status. \<open>send_return < session.buffer->count\<close> compares
  an \<open>int\<close> with an \<open>unsigned long\<close>.
\<close>

definition after_send :: "bool \<Rightarrow> (int \<Rightarrow> int) \<Rightarrow> int \<Rightarrow> http_request_t \<Rightarrow> int \<Rightarrow> buffer \<Rightarrow>
    (WORK_STATUS \<times> buffer) result" where
  "after_send tls get_error should_retry q n b =
     (if tls \<and> n \<le> 0
      then let ssl_error = get_error n in
        Inr (if ssl_error = SSL_ERROR_WANT_READ then WORK_STATUS_SEND_FAILED
             else if ssl_error = SSL_ERROR_WANT_WRITE then WORK_STATUS_READY_TO_SEND
             else WORK_STATUS_REJECTED, b)
      else if \<not> tls \<and> n \<le> 0 \<and> should_retry = 1 then Inr (WORK_STATUS_SEND_FAILED, b)
      else if to_uint64 n < int (count b)
      then and_then (read_at (nat n) (count b - nat n) b) (\<lambda>rest.
           and_then (write_bytes 0 rest b) (\<lambda>b'.
           Inr (WORK_STATUS_READY_TO_SEND, b'\<lparr>count := count b - nat n\<rparr>)))
      else if n = -1 then Inr (WORK_STATUS_REJECTED, b)
      else if connection q = CLOSE then Inr (WORK_STATUS_REJECTED, b)
      else Inr (WORK_STATUS_SENT, b))"

definition sender_work :: "'b bio_io \<Rightarrow> 'p ssl_io \<Rightarrow> http_request_t \<Rightarrow> buffer \<Rightarrow> bool \<Rightarrow> 'b \<Rightarrow> 'p \<Rightarrow>
    (WORK_STATUS \<times> buffer \<times> 'b \<times> 'p) result" where
  "sender_work B T q b has_ssl bs ps =
     (if is_ssl q
      then assert_that ''ssl != NULL'' has_ssl (
           and_then (send_ssl T ps b) (\<lambda>(n, ps').
           and_then (after_send True (SSL_get_error T ps') 0 q n b) (\<lambda>(st, b'). Inr (st, b', bs, ps'))))
      else and_then (send_bio B bs b) (\<lambda>(n, bs').
           and_then (after_send False (\<lambda>_. 0) (BIO_should_retry B bs') q n b) (\<lambda>(st, b'). Inr (st, b', bs', ps))))"

section \<open>The threads\<close>

datatype handler = handle_a | handle_b | handle_c | handle_d

definition handlers :: "handler list" where
  "handlers = [handle_a, handle_b, handle_c, handle_d]"

text \<open>
  \<open>init_workers\<close>: \<open>create i h\<close> is whether \<open>pthread_create\<close> succeeds for the thread at index \<open>i\<close>. The
  result lists the index and handler of the threads in the order they are started.
\<close>

fun start_threads :: "(nat \<Rightarrow> handler \<Rightarrow> bool) \<Rightarrow> int \<Rightarrow> (nat \<times> handler) list \<Rightarrow> (nat \<times> handler) list result" where
  "start_threads create prev_index [] = Inr []"
| "start_threads create prev_index ((index, h) # rest) =
     assert_that ''index != prev_index'' (int index \<noteq> prev_index) (
     assert_that ''pthread_create(&workers[index], NULL, handlers[i], NULL) == 0'' (create index h) (
     and_then (start_threads create (int index) rest) (\<lambda>ts. Inr ((index, h) # ts))))"

definition worker_indices :: "nat \<Rightarrow> (nat \<times> handler) list" where
  "worker_indices n = concat (map (\<lambda>i. map (\<lambda>j. (i * n + j, handlers ! i)) [0..<n]) [0..<length handlers])"

definition init_workers :: "(nat \<Rightarrow> handler \<Rightarrow> bool) \<Rightarrow> nat \<Rightarrow> bool \<Rightarrow> (nat \<times> handler) list result" where
  "init_workers create worker_size started =
     assert_that ''worker_size > 0'' (0 < worker_size) (
     assert_that ''workers == NULL'' (\<not> started) (
     start_threads create (-1) (worker_indices worker_size)))"

fun work_stage :: "handler \<Rightarrow> WORK_STATUS" where
  "work_stage handle_a = WORK_STATUS_REQUEST_READ"
| "work_stage handle_b = WORK_STATUS_PARSED"
| "work_stage handle_c = WORK_STATUS_DATA_FETCHED"
| "work_stage handle_d = WORK_STATUS_READY_TO_SEND"

text \<open>What the workers use besides the platform.\<close>

record 's site =
  s_files :: file_system
  s_sql :: "'s sqlite"
  s_now :: int
  s_sha :: "string \<Rightarrow> nat list"
  s_zlib :: zlib
  s_stack :: http_response_t

text \<open>
  The server with its workers: by index, the handler of a thread, its scratch buffer and prepared
  statements, and the pointers of the session it holds.
\<close>

record ('b, 'p, 's) farm =
  srv :: "('b, 'p) server"
  duty :: "nat \<Rightarrow> handler option"
  scratch :: "nat \<Rightarrow> buffer"
  prepared_stmts :: "nat \<Rightarrow> 's statements"
  held :: "nat \<Rightarrow> session_full_return option"

abbreviation the_cache :: "('b, 'p, 's) farm \<Rightarrow> session_cache" where
  "the_cache S \<equiv> cache (sw (srv S))"

definition put_cache :: "session_cache \<Rightarrow> ('b, 'p, 's) farm \<Rightarrow> ('b, 'p, 's) farm" where
  "put_cache sc S = S\<lparr>srv := (srv S)\<lparr>sw := (sw (srv S))\<lparr>cache := sc\<rparr>\<rparr>\<rparr>"

text \<open>A thread takes a session: the start of a round up to the work.\<close>

definition take_session :: "nat \<Rightarrow> handler \<Rightarrow> ('b, 'p, 's) farm \<Rightarrow> ('b, 'p, 's) farm option result" where
  "take_session t h S =
     and_then (if h = handle_c then clear_scratch (scratch S t) else Inr (scratch S t)) (\<lambda>tmp.
     and_then (pop_request (work_stage h) False (the_cache S)) (\<lambda>(p, sc).
     case p of
       Pops (Some r) \<Rightarrow>
         Inr (Some ((put_cache (set_thread (r_session r) (t + 1) sc) S)
                \<lparr>scratch := (scratch S)(t := tmp), held := (held S)(t := Some r)\<rparr>))
     | _ \<Rightarrow> Inr None))"

text \<open>The session is given back with the next status; its thread is reset before.\<close>

definition give_session :: "('b, 'p) platform \<Rightarrow> nat \<Rightarrow> session_full_return \<Rightarrow> WORK_STATUS \<Rightarrow>
    ('b, 'p, 's) farm \<Rightarrow> ('b, 'p, 's) farm result" where
  "give_session P t r st S =
     (let sc = set_thread (r_session r) 0 (the_cache S)
      in and_then (push P (related_fd (sessions sc (r_session r))) st (srv (put_cache sc S))) (\<lambda>W.
           Inr (S\<lparr>srv := W, held := (held S)(t := None)\<rparr>)))"

definition finish_session :: "('b, 'p) platform \<Rightarrow> 's site \<Rightarrow> nat \<Rightarrow> handler \<Rightarrow> session_full_return \<Rightarrow>
    ('b, 'p, 's) farm \<Rightarrow> ('b, 'p, 's) farm result" where
  "finish_session P X t h r S =
     (let sc = the_cache S; L = p_libc P;
          b = buffers sc (r_buffer r); q = requests sc (r_request r); s = responses sc (r_response r)
      in case h of
        handle_a \<Rightarrow> and_then (parser_work L (s_files X) b q s) (\<lambda>(q', s').
          give_session P t r WORK_STATUS_PARSED
            (put_cache (set_response (r_response r) s' (set_request (r_request r) q' sc)) S))
      | handle_b \<Rightarrow> and_then (loader_work L (s_files X) (s_sql X) (prepared_stmts S t) (scratch S t) q s b) (\<lambda>(s', b', tmp, st).
          and_then (give_session P t r WORK_STATUS_DATA_FETCHED
            (put_cache (set_response (r_response r) s' (set_buffer (r_buffer r) b' sc)) S)) (\<lambda>S'.
          and_then (clear_counted tmp) (\<lambda>tmp'.
          Inr (S'\<lparr>scratch := (scratch S')(t := tmp'), prepared_stmts := (prepared_stmts S')(t := st)\<rparr>))))
      | handle_c \<Rightarrow> and_then (builder_work L (s_files X) (s_now X) (s_sha X) (s_zlib X) (s_stack X) q s b (scratch S t)) (\<lambda>(s', b', tmp).
          give_session P t r WORK_STATUS_READY_TO_SEND
            ((put_cache (set_response (r_response r) s' (set_buffer (r_buffer r) b' sc)) S)\<lparr>scratch := (scratch S)(t := tmp)\<rparr>))
      | handle_d \<Rightarrow>
          let sock = bio_fd (bios sc (r_bio r)) in
          and_then (sender_work (p_bio P) (p_ssl P) q b (r_ssl r \<noteq> None) (bio_state (srv S) sock) (ssl_state (srv S) sock))
            (\<lambda>(st, b', bs, ps).
            let S1 = put_cache (set_buffer (r_buffer r) b' sc) S in
            give_session P t r st (S1\<lparr>srv := (srv S1)\<lparr>bio_state := (bio_state (srv S))(sock := bs),
                                                     ssl_state := (ssl_state (srv S))(sock := ps)\<rparr>\<rparr>)))"

text \<open>The listener thread works on the same server.\<close>

inductive step :: "('b, 'p) platform \<Rightarrow> 's site \<Rightarrow> int \<Rightarrow> int \<Rightarrow> ('b, 'p, 's) farm \<Rightarrow> ('b, 'p, 's) farm \<Rightarrow> bool"
  for P X l ls where
  step_take: "duty S t = Some h \<Longrightarrow> held S t = None \<Longrightarrow> take_session t h S = Inr (Some S') \<Longrightarrow> step P X l ls S S'"
| step_finish: "duty S t = Some h \<Longrightarrow> held S t = Some r \<Longrightarrow> finish_session P X t h r S = Inr S' \<Longrightarrow> step P X l ls S S'"
| step_listen: "listen_entry P l ls i (srv S) = Inr (i', W) \<Longrightarrow> step P X l ls S (S\<lparr>srv := W\<rparr>)"

inductive_cases stepE: "step P X l ls S S'"

section \<open>Taking and giving, on jobs\<close>

definition due :: "WORK_STATUS \<Rightarrow> job \<Rightarrow> bool" where
  "due st j \<longleftrightarrow> ws_bit st < 5 \<and> st \<in> j_marks j \<and> (\<forall>x \<in> j_marks j. ws_bit x < 5 \<longrightarrow> ws_bit x \<le> ws_bit st) \<and>
     WORK_STATUS_PROCESSING \<notin> j_marks j \<and> WORK_STATUS_SEND_FAILED \<notin> j_marks j"

lemma ready_due: "cache_wf sc \<Longrightarrow> k < session_count sc \<Longrightarrow> ready st (status_at k sc) \<longleftrightarrow> due st (jobs sc ! k)"
  by (simp add: ready_marks due_def status_at_job)

text \<open>The job \<open>j\<close> at index \<open>k\<close>, and no other for the workers to take.\<close>

definition alone :: "nat \<Rightarrow> job \<Rightarrow> session_cache \<Rightarrow> bool" where
  "alone k j sc \<longleftrightarrow> cache_wf sc \<and> k < session_count sc \<and> jobs sc ! k = j \<and>
     (\<forall>i < session_count sc. i \<noteq> k \<longrightarrow> (\<forall>st. \<not> due st (jobs sc ! i)))"

lemma alone_jobs:
  assumes "alone k j sc" and "cache_wf sc'" and "jobs sc' = (jobs sc)[k := j']"
  shows "alone k j' sc'"
proof -
  have "session_count sc' = session_count sc"
    using assms by (metis alone_def length_jobs length_list_update)
  then show ?thesis using assms by (auto simp: alone_def)
qed

lemma alone_peek: "alone k j sc \<Longrightarrow> due st j \<Longrightarrow> peek_next st sc = Some k"
  unfolding peek_next_Some by (auto simp: alone_def ready_due)

lemma cache_wf_set_thread:
  assumes wf: "cache_wf sc" and p: "p \<in> set (slots sc)"
  shows "cache_wf (set_thread p t sc)"
proof -
  have "distinct (session_array sc)" using wf by (simp add: cache_wf_def)
  then have "set (slots sc) \<inter> set (drop (session_count sc) (session_array sc)) = {}"
    unfolding slots_def by (rule set_take_disj_set_drop_if_distinct) simp
  then have "p \<notin> set (drop (session_count sc) (session_array sc))" using p by blast
  moreover have "conn_table (set_thread p t sc) = conn_table sc" by (simp add: conn_table_def)
  moreover have "lockstep (set_thread p t sc) = lockstep sc"
    by (simp add: lockstep_def set_thread_def split: option.split)
  ultimately show ?thesis using wf
    by (auto simp: cache_wf_def spare_def set_thread_def slots_def)
qed

lemma session_set_thread [simp]: "related_fd (sessions (set_thread p t sc) q) = related_fd (sessions sc q)"
  by (simp add: set_thread_def)

text \<open>The pointers of a job.\<close>

definition points_to :: "session_full_return \<Rightarrow> job \<Rightarrow> bool \<Rightarrow> bool" where
  "points_to r j tls \<longleftrightarrow> r_session r = j_slot j \<and> r_bio r = j_slot j \<and> r_buffer r = j_slot j \<and>
     r_request r = j_slot j \<and> r_response r = j_slot j \<and> (r_ssl r \<noteq> None \<longleftrightarrow> tls)"

lemma put_cache_simps [simp]:
  "cache (sw (srv (put_cache sc S))) = sc" "bio_state (srv (put_cache sc S)) = bio_state (srv S)"
  "ssl_state (srv (put_cache sc S)) = ssl_state (srv S)" "polls (srv (put_cache sc S)) = polls (srv S)"
  "broadcasts (sw (srv (put_cache sc S))) = broadcasts (sw (srv S))"
  "marked_fds (sw (srv (put_cache sc S))) = marked_fds (sw (srv S))"
  "held (put_cache sc S) = held S" "duty (put_cache sc S) = duty S" "scratch (put_cache sc S) = scratch S"
  "prepared_stmts (put_cache sc S) = prepared_stmts S"
  by (simp_all add: put_cache_def)

lemma take_value:
  assumes j: "alone k j (the_cache S)" "due (work_stage h) j"
    and tmp: "h = handle_c \<Longrightarrow> clear_scratch (scratch S t) = Inr tmp" "h \<noteq> handle_c \<Longrightarrow> tmp = scratch S t"
  shows "\<exists>r S'. take_session t h S = Inr (Some S') \<and> alone k (take_job j) (the_cache S') \<and>
    points_to r j (ssl_array (the_cache S) \<noteq> None) \<and> held S' = (held S)(t := Some r) \<and>
    scratch S' = (scratch S)(t := tmp) \<and> duty S' = duty S \<and> prepared_stmts S' = prepared_stmts S \<and>
    bio_state (srv S') = bio_state (srv S) \<and> ssl_state (srv S') = ssl_state (srv S) \<and>
    ssl_array (the_cache S') = ssl_array (the_cache S) \<and> polls (srv S') = polls (srv S)"
proof -
  let ?sc = "the_cache S"
  have wf: "cache_wf ?sc" and k: "k < session_count ?sc" and jk: "jobs ?sc ! k = j" using j(1) by (auto simp: alone_def)
  let ?r = "full_return k ?sc"
  let ?sc' = "set_thread (r_session ?r) (t + 1) (taken k ?sc)"
  note r = return_job [OF wf k refl, unfolded jk]
  have p: "points_to ?r j (ssl_array ?sc \<noteq> None)" by (simp add: r points_to_def)
  have pop: "pop_request (work_stage h) False ?sc = Inr (Pops (Some ?r), taken k ?sc)"
    using alone_peek [OF j] by (simp add: pop_request_def taken_def)
  have wt: "cache_wf (taken k ?sc)" using wf k by (rule cache_wf_taken)
  have sl: "slots (taken k ?sc) = slots ?sc" by (simp add: taken_def)
  have "j_slot j \<in> set (slots ?sc)" using job_in_slots [OF wf k] j_slot_nth [OF wf k] jk by simp
  then have wf': "cache_wf ?sc'" using wt by (intro cache_wf_set_thread) (simp_all add: sl r)
  have "jobs ?sc' = (jobs ?sc)[k := take_job j]" using jobs_taken [OF wf k] jk by (simp add: jobs_set_thread)
  then have al: "alone k (take_job j) ?sc'" using alone_jobs [OF j(1) wf'] by simp
  let ?S = "(put_cache ?sc' S)\<lparr>scratch := (scratch S)(t := tmp), held := (held S)(t := Some ?r)\<rparr>"
  have "take_session t h S = Inr (Some ?S)"
    using pop tmp by (cases "h = handle_c") (simp_all add: take_session_def)
  moreover have "ssl_array ?sc' = ssl_array ?sc" by (simp add: set_thread_def)
  ultimately show ?thesis using p al by (intro exI [of _ ?r] exI [of _ ?S]) simp
qed

lemma give_value:
  assumes j: "alone k j (the_cache S)" "WORK_STATUS_PROCESSING \<in> j_marks j" and r: "points_to r j tls"
    and st: "st \<noteq> WORK_STATUS_REJECTED"
  shows "\<exists>S'. give_session P t r st S = Inr S' \<and> alone k (give_job st j) (the_cache S') \<and>
    held S' = (held S)(t := None) \<and> scratch S' = scratch S \<and> duty S' = duty S \<and>
    prepared_stmts S' = prepared_stmts S \<and> bio_state (srv S') = bio_state (srv S) \<and>
    ssl_state (srv S') = ssl_state (srv S) \<and> polls (srv S') = polls (srv S) \<and>
    ssl_array (the_cache S') = ssl_array (the_cache S) \<and>
    broadcasts (sw (srv S')) = broadcasts (sw (srv S)) @ woken st"
proof -
  let ?sc = "the_cache S"
  have wf: "cache_wf ?sc" and k: "k < session_count ?sc" and jk: "jobs ?sc ! k = j" using j(1) by (auto simp: alone_def)
  let ?sc1 = "set_thread (j_slot j) 0 ?sc"
  have "j_slot j \<in> set (slots ?sc)" using job_in_slots [OF wf k] j_slot_nth [OF wf k] jk by simp
  then have wf1: "cache_wf ?sc1" using wf by (intro cache_wf_set_thread)
  have jobs1: "jobs ?sc1 = jobs ?sc" by (rule jobs_set_thread)
  have fd: "related_fd (sessions ?sc1 (j_slot j)) = j_fd j"
    unfolding jk [symmetric] nth_jobs [OF wf k] by (simp add: job_at_def)
  let ?W = "srv (put_cache ?sc1 S)"
  have k1: "k < session_count (cache (sw ?W))" "cache_wf (cache (sw ?W))" using k wf1 by simp_all
  have j1: "jobs (cache (sw ?W)) ! k = j" using jobs1 jk by simp
  let ?W' = "?W\<lparr>sw := (sw ?W)\<lparr>cache := given_cache k st ?sc1, broadcasts := broadcasts (sw (srv S)) @ woken st\<rparr>\<rparr>"
  have push: "push P (j_fd j) st ?W = Inr ?W'"
    using push_job_server [OF k1(2,1) _ st, of P] j1 j(2) by simp
  let ?S = "S\<lparr>srv := ?W', held := (held S)(t := None)\<rparr>"
  have "give_session P t r st S = Inr ?S" using r push fd by (simp add: give_session_def points_to_def Let_def)
  moreover have "jobs (given_cache k st ?sc1) = (jobs ?sc)[k := give_job st j]"
    using jobs_given [OF wf1] k j1 jobs1 by simp
  then have "alone k (give_job st j) (given_cache k st ?sc1)"
    using cache_wf_given [OF wf1] k by (intro alone_jobs [OF j(1)]) simp_all
  moreover have "ssl_array (given_cache k st ?sc1) = ssl_array ?sc"
    by (simp add: given_cache_def reset_request_at_index_def set_thread_def Let_def)
  ultimately show ?thesis by (intro exI [of _ ?S]) simp
qed

section \<open>A round of each stage\<close>

lemma alone_objects:
  assumes "alone k j sc"
  shows "buffers sc (j_slot j) = j_buffer j" and "requests sc (j_slot j) = j_request j"
    and "responses sc (j_slot j) = j_response j" and "bio_fd (bios sc (j_slot j)) = j_fd j"
    and "buffer_wf (j_buffer j)"
  using assms job_objects [of sc k "j_slot j"] job_buffer_wf [of sc k] by (auto simp: alone_def)

lemma alone_set_buffer:
  "alone k j sc \<Longrightarrow> buffer_wf b \<Longrightarrow> alone k (j\<lparr>j_buffer := b\<rparr>) (set_buffer (j_slot j) b sc)"
  by (rule alone_jobs) (auto simp: alone_def cache_wf_set_buffer jobs_set_buffer)

lemma alone_set_request: "alone k j sc \<Longrightarrow> alone k (j\<lparr>j_request := q\<rparr>) (set_request (j_slot j) q sc)"
  by (rule alone_jobs) (auto simp: alone_def cache_wf_set_request jobs_set_request)

lemma alone_set_response: "alone k j sc \<Longrightarrow> alone k (j\<lparr>j_response := s\<rparr>) (set_response (j_slot j) s sc)"
  by (rule alone_jobs) (auto simp: alone_def cache_wf_set_response jobs_set_response)

lemma ssl_array_set [simp]:
  "ssl_array (set_buffer p b sc) = ssl_array sc" "ssl_array (set_request p q sc) = ssl_array sc"
  "ssl_array (set_response p s sc) = ssl_array sc"
  by (simp_all add: set_object_defs)

text \<open>The frame of a step of thread \<open>t\<close>: what it leaves alone.\<close>

definition only_by :: "nat \<Rightarrow> ('b, 'p, 's) farm \<Rightarrow> ('b, 'p, 's) farm \<Rightarrow> bool" where
  "only_by t S S' \<longleftrightarrow> duty S' = duty S \<and> polls (srv S') = polls (srv S) \<and>
     ssl_array (the_cache S') = ssl_array (the_cache S) \<and>
     (\<forall>u. u \<noteq> t \<longrightarrow> held S' u = held S u \<and> scratch S' u = scratch S u \<and> prepared_stmts S' u = prepared_stmts S u)"

lemma only_by_trans: "only_by t S S1 \<Longrightarrow> only_by t S1 S2 \<Longrightarrow> only_by t S S2"
  by (simp add: only_by_def)

text \<open>Thread \<open>t\<close> holds the job \<open>j\<close>, the only one there is work on.\<close>

definition holding :: "nat \<Rightarrow> nat \<Rightarrow> session_full_return \<Rightarrow> job \<Rightarrow> ('b, 'p, 's) farm \<Rightarrow> bool" where
  "holding t k r j S \<longleftrightarrow> alone k j (the_cache S) \<and> held S t = Some r \<and> WORK_STATUS_PROCESSING \<in> j_marks j \<and>
     points_to r j (ssl_array (the_cache S) \<noteq> None)"

lemma take_step:
  assumes j: "alone k j (the_cache S)" "due (work_stage h) j" and t: "duty S t = Some h" "held S t = None"
    and tmp: "h = handle_c \<Longrightarrow> clear_scratch (scratch S t) = Inr tmp" "h \<noteq> handle_c \<Longrightarrow> tmp = scratch S t"
  obtains r S1 where "step P X l ls S S1" and "holding t k r (take_job j) S1" and "only_by t S S1"
    and "scratch S1 t = tmp" and "prepared_stmts S1 t = prepared_stmts S t"
    and "bio_state (srv S1) = bio_state (srv S)" and "ssl_state (srv S1) = ssl_state (srv S)"
proof -
  from take_value [OF j tmp] obtain r S1 where v: "take_session t h S = Inr (Some S1)" "alone k (take_job j) (the_cache S1)"
    "points_to r j (ssl_array (the_cache S) \<noteq> None)" "held S1 = (held S)(t := Some r)" "scratch S1 = (scratch S)(t := tmp)"
    "duty S1 = duty S" "prepared_stmts S1 = prepared_stmts S" "bio_state (srv S1) = bio_state (srv S)"
    "ssl_state (srv S1) = ssl_state (srv S)" "ssl_array (the_cache S1) = ssl_array (the_cache S)" "polls (srv S1) = polls (srv S)"
    by blast
  show ?thesis
  proof (rule that)
    show "step P X l ls S S1" by (rule step_take [OF t v(1)])
    show "holding t k r (take_job j) S1"
      using v(2-4,10) by (simp add: holding_def points_to_def take_job_def)
    show "only_by t S S1" using v by (simp add: only_by_def)
  qed (use v in auto)
qed

lemma give_job_value:
  assumes h: "holding t k r j S" and j: "alone k j' sc" "j_slot j' = j_slot j" "WORK_STATUS_PROCESSING \<in> j_marks j'"
    and sc: "ssl_array sc = ssl_array (the_cache S)" and st: "st \<noteq> WORK_STATUS_REJECTED"
  shows "\<exists>S'. give_session P t r st (put_cache sc S) = Inr S' \<and> alone k (give_job st j') (the_cache S') \<and>
    held S' t = None \<and> only_by t S S' \<and> scratch S' = scratch S \<and> prepared_stmts S' = prepared_stmts S \<and>
    bio_state (srv S') = bio_state (srv S) \<and> ssl_state (srv S') = ssl_state (srv S)"
proof -
  have a: "alone k j' (the_cache (put_cache sc S))" using j(1) by simp
  have p: "points_to r j' (ssl_array (the_cache S) \<noteq> None)" using h j(2) by (simp add: holding_def points_to_def)
  from give_value [OF a j(3) p st, of P t] show ?thesis
    by (auto simp: only_by_def sc)
qed

text \<open>\<open>parser.c\<close>, \<open>loader.c\<close>, \<open>builder.c\<close>: the second half of a round.\<close>

lemma parser_step:
  assumes h: "holding t k r j S" and t: "duty S t = Some handle_a"
    and work: "parser_work (p_libc P) (s_files X) (j_buffer j) (j_request j) (j_response j) = Inr (q', s')"
  shows "\<exists>S'. step P X l ls S S' \<and> alone k (give_job WORK_STATUS_PARSED (j\<lparr>j_request := q', j_response := s'\<rparr>)) (the_cache S') \<and>
    held S' t = None \<and> only_by t S S' \<and> scratch S' = scratch S \<and> prepared_stmts S' = prepared_stmts S \<and>
    bio_state (srv S') = bio_state (srv S) \<and> ssl_state (srv S') = ssl_state (srv S)"
proof -
  have a: "alone k j (the_cache S)" using h by (simp add: holding_def)
  let ?sc = "set_response (j_slot j) s' (set_request (j_slot j) q' (the_cache S))"
  have al: "alone k (j\<lparr>j_request := q', j_response := s'\<rparr>) ?sc"
    using alone_set_response [OF alone_set_request [OF a]] by simp
  obtain S' where S': "give_session P t r WORK_STATUS_PARSED (put_cache ?sc S) = Inr S'"
    "alone k (give_job WORK_STATUS_PARSED (j\<lparr>j_request := q', j_response := s'\<rparr>)) (the_cache S')"
    "held S' t = None" "only_by t S S'" "scratch S' = scratch S" "prepared_stmts S' = prepared_stmts S"
    "bio_state (srv S') = bio_state (srv S)" "ssl_state (srv S') = ssl_state (srv S)"
    using give_job_value [OF h al, of WORK_STATUS_PARSED P] h by (auto simp: holding_def)
  have "finish_session P X t handle_a r S = Inr S'"
    using S'(1) h work alone_objects [OF a] by (simp add: finish_session_def holding_def points_to_def Let_def)
  then have "step P X l ls S S'" using h t by (intro step_finish) (auto simp: holding_def)
  then show ?thesis using S' by blast
qed

lemma loader_step:
  assumes h: "holding t k r j S" and t: "duty S t = Some handle_b"
    and work: "loader_work (p_libc P) (s_files X) (s_sql X) (prepared_stmts S t) (scratch S t) (j_request j) (j_response j) (j_buffer j)
      = Inr (s', b', tmp, sts)" "clear_counted tmp = Inr tmp'" "buffer_wf b'"
  shows "\<exists>S'. step P X l ls S S' \<and> alone k (give_job WORK_STATUS_DATA_FETCHED (j\<lparr>j_buffer := b', j_response := s'\<rparr>)) (the_cache S') \<and>
    held S' t = None \<and> only_by t S S' \<and> scratch S' t = tmp' \<and> prepared_stmts S' t = sts \<and>
    bio_state (srv S') = bio_state (srv S) \<and> ssl_state (srv S') = ssl_state (srv S)"
proof -
  have a: "alone k j (the_cache S)" using h by (simp add: holding_def)
  let ?sc = "set_response (j_slot j) s' (set_buffer (j_slot j) b' (the_cache S))"
  have al: "alone k (j\<lparr>j_buffer := b', j_response := s'\<rparr>) ?sc"
    using alone_set_response [OF alone_set_buffer [OF a work(3)]] by simp
  obtain S' where S': "give_session P t r WORK_STATUS_DATA_FETCHED (put_cache ?sc S) = Inr S'"
    "alone k (give_job WORK_STATUS_DATA_FETCHED (j\<lparr>j_buffer := b', j_response := s'\<rparr>)) (the_cache S')"
    "held S' t = None" "only_by t S S'" "scratch S' = scratch S" "prepared_stmts S' = prepared_stmts S"
    "bio_state (srv S') = bio_state (srv S)" "ssl_state (srv S') = ssl_state (srv S)"
    using give_job_value [OF h al, of WORK_STATUS_DATA_FETCHED P] h by (auto simp: holding_def)
  let ?S = "S'\<lparr>scratch := (scratch S')(t := tmp'), prepared_stmts := (prepared_stmts S')(t := sts)\<rparr>"
  have "finish_session P X t handle_b r S = Inr ?S"
    using S'(1) h work alone_objects [OF a] by (simp add: finish_session_def holding_def points_to_def Let_def)
  then have "step P X l ls S ?S" using h t by (intro step_finish) (auto simp: holding_def)
  then show ?thesis using S' by (intro exI [of _ ?S]) (simp add: only_by_def)
qed

lemma builder_step:
  assumes h: "holding t k r j S" and t: "duty S t = Some handle_c"
    and work: "builder_work (p_libc P) (s_files X) (s_now X) (s_sha X) (s_zlib X) (s_stack X) (j_request j) (j_response j)
      (j_buffer j) (scratch S t) = Inr (s', b', tmp)" "buffer_wf b'"
  shows "\<exists>S'. step P X l ls S S' \<and> alone k (give_job WORK_STATUS_READY_TO_SEND (j\<lparr>j_buffer := b', j_response := s'\<rparr>)) (the_cache S') \<and>
    held S' t = None \<and> only_by t S S' \<and> scratch S' t = tmp \<and> prepared_stmts S' t = prepared_stmts S t \<and>
    bio_state (srv S') = bio_state (srv S) \<and> ssl_state (srv S') = ssl_state (srv S)"
proof -
  have a: "alone k j (the_cache S)" using h by (simp add: holding_def)
  let ?sc = "set_response (j_slot j) s' (set_buffer (j_slot j) b' (the_cache S))"
  let ?S = "S\<lparr>scratch := (scratch S)(t := tmp)\<rparr>"
  have al: "alone k (j\<lparr>j_buffer := b', j_response := s'\<rparr>) ?sc"
    using alone_set_response [OF alone_set_buffer [OF a work(2)]] by simp
  have h2: "holding t k r j ?S" using h by (simp add: holding_def)
  obtain S' where S': "give_session P t r WORK_STATUS_READY_TO_SEND (put_cache ?sc ?S) = Inr S'"
    "alone k (give_job WORK_STATUS_READY_TO_SEND (j\<lparr>j_buffer := b', j_response := s'\<rparr>)) (the_cache S')"
    "held S' t = None" "only_by t ?S S'" "scratch S' = scratch ?S" "prepared_stmts S' = prepared_stmts ?S"
    "bio_state (srv S') = bio_state (srv ?S)" "ssl_state (srv S') = ssl_state (srv ?S)"
    using give_job_value [OF h2 al, of WORK_STATUS_READY_TO_SEND P] h by (auto simp: holding_def)
  have comm: "(put_cache ?sc S)\<lparr>scratch := (scratch S)(t := tmp)\<rparr> = put_cache ?sc ?S" by (simp add: put_cache_def)
  have "finish_session P X t handle_c r S = Inr S'"
    using S'(1) h work alone_objects [OF a]
    by (simp add: finish_session_def holding_def points_to_def Let_def comm)
  then have "step P X l ls S S'" using h t by (intro step_finish) (auto simp: holding_def)
  then show ?thesis using S' by (intro exI [of _ S']) (simp add: only_by_def)
qed

text \<open>\<open>sender.c\<close>, on a plain connection.\<close>

lemma sender_step:
  assumes h: "holding t k r j S" and t: "duty S t = Some handle_d"
    and work: "sender_work (p_bio P) (p_ssl P) (j_request j) (j_buffer j) (ssl_array (the_cache S) \<noteq> None)
      (bio_state (srv S) (j_fd j)) (ssl_state (srv S) (j_fd j)) = Inr (st, b', bs, ps)" "buffer_wf b'"
    and st: "st \<noteq> WORK_STATUS_REJECTED"
  shows "\<exists>S'. step P X l ls S S' \<and> alone k (give_job st (j\<lparr>j_buffer := b'\<rparr>)) (the_cache S') \<and>
    held S' t = None \<and> only_by t S S' \<and> scratch S' = scratch S \<and> prepared_stmts S' = prepared_stmts S \<and>
    bio_state (srv S') = (bio_state (srv S))(j_fd j := bs) \<and> ssl_state (srv S') = (ssl_state (srv S))(j_fd j := ps)"
proof -
  have a: "alone k j (the_cache S)" using h by (simp add: holding_def)
  let ?sc = "set_buffer (j_slot j) b' (the_cache S)"
  let ?f = "\<lambda>W. W\<lparr>bio_state := (bio_state (srv S))(j_fd j := bs), ssl_state := (ssl_state (srv S))(j_fd j := ps)\<rparr>"
  let ?S = "S\<lparr>srv := ?f (srv S)\<rparr>"
  have al: "alone k (j\<lparr>j_buffer := b'\<rparr>) ?sc" by (rule alone_set_buffer [OF a work(2)])
  have h2: "holding t k r j ?S" using h by (simp add: holding_def)
  obtain S' where S': "give_session P t r st (put_cache ?sc ?S) = Inr S'"
    "alone k (give_job st (j\<lparr>j_buffer := b'\<rparr>)) (the_cache S')"
    "held S' t = None" "only_by t ?S S'" "scratch S' = scratch ?S" "prepared_stmts S' = prepared_stmts ?S"
    "bio_state (srv S') = bio_state (srv ?S)" "ssl_state (srv S') = ssl_state (srv ?S)"
    using give_job_value [OF h2 al _ _ _ st, of P] h by (auto simp: holding_def)
  have comm: "(put_cache ?sc S)\<lparr>srv := ?f (srv (put_cache ?sc S))\<rparr> = put_cache ?sc ?S" by (simp add: put_cache_def)
  have "finish_session P X t handle_d r S = Inr S'"
    using S'(1) h work(1) alone_objects [OF a]
    by (simp add: finish_session_def holding_def points_to_def Let_def comm)
  then have "step P X l ls S S'" using h t by (intro step_finish) (auto simp: holding_def)
  then show ?thesis using S' by (intro exI [of _ S']) (simp add: only_by_def)
qed

section \<open>The values of the stages\<close>

text \<open>The request a text spells, and the status it earns.\<close>

definition reads_as :: "string \<Rightarrow> http_request_t \<Rightarrow> http_request_t \<Rightarrow> bool" where
  "reads_as s q0 q \<longleftrightarrow> (\<exists>l hs rv r. tokens crlf s = l # hs \<and> parse_control_data (Some l) q0 = Inr (rv, r) \<and>
     parse_headers hs rv r = Inr (0, q))"

lemma parser_value:
  assumes mem: "\<And>m. alloc_ok L m" and wf: "buffer_wf b" "data b \<noteq> None"
    and b: "count b = length s + 1" "take (count b) (bytes b) = s @ [NUL]" "NUL \<notin> set s"
    and q: "reads_as s q0 q"
  shows "parser_work L F b q0 r = Inr (q, r\<lparr>status_code := validate_request_headers F q\<rparr>)"
proof -
  obtain d where d: "data b = Some d" using wf(2) by blast
  have "cstr (s @ [NUL]) = s" using b(3) by (auto simp: cstr_def takeWhile_tail)
  then have rt: "request_text b s"
    using d b wf(1) by (auto simp: request_text_def bytes_def buffer_wf_def)
  from q obtain l hs rv r1 where "tokens crlf s = l # hs" "parse_control_data (Some l) q0 = Inr (rv, r1)"
    "parse_headers hs rv r1 = Inr (0, q)" by (auto simp: reads_as_def)
  then have "parse_http_request L b q0 = Inr (0, q)"
    using parse_http_request_lines [OF rt mem] by simp
  then show ?thesis by (simp add: parser_work_def)
qed

text \<open>The document of a request that needs no database: a plain file, or an error page.\<close>

definition plain_document :: "file_system \<Rightarrow> http_request_t \<Rightarrow> int \<Rightarrow> string \<Rightarrow> bool" where
  "plain_document F q st doc \<longleftrightarrow>
     (if st = HTTP_OK
      then (\<exists>p. uri_to_file_name (uri q) = Some p \<and> p \<notin> {''index.html'', ''project.html'', ''post.html''} \<and>
              contents F (static_path p) = Some doc \<and> doc \<noteq> [] \<and> NUL \<notin> set doc \<and> length doc < 2 ^ 27 \<and>
              mtime F (static_path p) \<noteq> None)
      else doc = error_page st)"

lemma loader_value:
  assumes mem: "\<And>m. alloc_ok L m" and wf: "buffer_wf b" "data b \<noteq> None" "capacity b < 2 ^ 31"
    and d: "plain_document F q (status_code r) doc" and st: "0 \<le> status_code r" "status_code r < 1000"
  shows "\<exists>b'. loader_work L F Q sts tmp q r b = Inr (r, b', tmp, sts) \<and> holds doc b'"
proof -
  obtain b0 where b0: "write_bytes 0 (replicate (count b) NUL) b = Inr b0" "buffer_wf b0" "capacity b0 = capacity b"
    using clear_count_value [OF wf(1,2)] .
  have small: "capacity b0 < 2 ^ 31" using b0(3) wf(3) by simp
  show ?thesis
  proof (cases "status_code r = HTTP_OK")
    case True
    then obtain p where p: "uri_to_file_name (uri q) = Some p" "p \<notin> {''index.html'', ''project.html'', ''post.html''}"
      "contents F (static_path p) = Some doc" "doc \<noteq> []" "NUL \<notin> set doc" "length doc < 2 ^ 27"
      using d by (auto simp: plain_document_def)
    have "length doc < 2 ^ 29" using p(6) by simp
    from read_static_file_value [OF mem b0(2) small p(3,4,5) this] obtain b' where
      "read_static_file L F p b0 = Inr (int (length doc), b')" "holds doc b'" by blast
    then show ?thesis using True p b0(1) by (simp add: loader_work_def load_def)
  next
    case False
    from error_response_value [OF mem b0(2) small st] obtain b' where
      "error_response L (status_code r) r b0 = Inr (r\<lparr>status_code := status_code r\<rparr>, b')" "holds (error_page (status_code r)) b'"
      by blast
    then show ?thesis using False d b0(1) by (simp add: loader_work_def plain_document_def)
  qed
qed

lemma error_page_size: "0 \<le> st \<Longrightarrow> st < 1000 \<Longrightarrow> 0 < length (error_page st) \<and> length (error_page st) < 2 ^ 27"
  using length_error_page [of st] by (simp add: error_page_def)

lemma plain_document_size:
  assumes "plain_document F q st doc" and "0 \<le> st" "st < 1000"
  shows "0 < length doc" and "length doc < 2 ^ 27"
  using assms error_page_size [of st] by (auto simp: plain_document_def split: if_splits)

lemma length_response_head:
  assumes "response_fits r"
  shows "length (response_head r) \<le> 3134"
proof -
  have "0 \<le> content_length r" using assms by (simp add: response_fits_def)
  note head = header_blocks_text [OF this]
  have "length (concat (map snd (header_blocks r))) \<le> 3132"
    using block_fits_length [OF header_blocks_fit [OF assms]] length_header_blocks [of r] by linarith
  then show ?thesis unfolding head [symmetric] by simp
qed

lemma builder_value:
  assumes mem: "\<And>m. alloc_ok L m" and Z: "zlib_laws Z" and doc: "holds doc b" "plain_document F q (status_code r) doc"
    and st: "0 \<le> status_code r" "status_code r < 1000" "status_code r \<notin> {HTTP_MOVED_PERMANENTLY, HTTP_NOT_MODIFIED}"
    and r: "content_encoding r \<in> {[], ''gzip'', ''deflate''}" "length (location r) < HTTP_HEADER_SIZE"
    and tmp: "buffer_wf tmp" "data tmp \<noteq> None" "capacity tmp < 2 ^ 31"
    and env: "sha256_ok sha" "0 \<le> now" "now < 253402300800"
    and ans: "answer Z (accept_encoding q) (if_none_match q) doc (planned_headers F now sha (uri q) doc r) = (hdrs, payload)"
    and fit: "length (encoded Z (coding (accept_encoding q)) doc) \<le> max (capacity tmp) (length doc)" "length payload < 2 ^ 28"
  shows "\<exists>b' tmp'. builder_work L F now sha Z stack q r b tmp = Inr (hdrs, b', tmp') \<and> buffer_wf b' \<and>
    count b' = length (response_head hdrs @ payload) \<and> take (count b') (bytes b') = response_head hdrs @ payload \<and>
    length (response_head hdrs @ payload) < 2 ^ 31"
proof -
  have h: "buffer_wf b" "data b \<noteq> None" "capacity b < 2 ^ 31" "count b = length doc" "take (count b) (bytes b) = doc"
    using doc(1) unfolding holds_def by (auto dest: arg_cong [of _ _ "take (length doc)"])
  have ready: "build_ready F now sha r (uri q) b tmp"
    using h tmp env st r doc(2) plain_document_size [OF doc(2) st(1,2)]
    by (auto simp: build_ready_def plain_document_def)
  have "response_fits hdrs"
    using answer_fits [OF planned_fits [OF ready plain_document_size(2) [OF doc(2) st(1,2)]] ans fit(2)] by simp
  then have small: "length (response_head hdrs @ payload) < 2 ^ 31" using length_response_head [of hdrs] fit(2) by simp
  from construct_response_value [OF mem Z ready _ ans] fit h obtain n b' tmp' where
    "construct_response L F now sha Z r (uri q) (accept_encoding q) (if_none_match q) b tmp = Inr (int n, hdrs, b', tmp')"
    "buffer_wf b'" "count b' = n" "n = length (response_head hdrs @ payload)" "take n (bytes b') = response_head hdrs @ payload"
    by metis
  then show ?thesis using st(3) small by (simp add: builder_work_def)
qed

text \<open>The socket takes the first \<open>n\<close> bytes of a plain response.\<close>

lemma send_bio_value:
  assumes b: "buffer_wf b" "count b = length text" "take (count b) (bytes b) = text" "text \<noteq> []" "length text < 2 ^ 31"
    and w: "BIO_write B bs text = (n, bs')" "n \<noteq> -2"
  shows "send_bio B bs b = Inr (n, bs')"
proof -
  obtain d where d: "data b = Some d" "length text \<le> length d"
    using b by (auto simp: buffer_wf_def split: option.splits)
  have i: "to_int32 (int (length text)) = int (length text)" using b(5) by (intro to_int32_id) auto
  have "counted b = Inr text"
    using d b i by (simp add: counted_def read_bytes_def bytes_def)
  then show ?thesis using w by (simp add: send_bio_def)
qed

lemma sender_value:
  assumes q: "\<not> is_ssl q" "connection q = KEEP_ALIVE"
    and b: "buffer_wf b" "count b = length text" "take (count b) (bytes b) = text" "text \<noteq> []" "length text < 2 ^ 31"
    and w: "BIO_write B bs text = (int n, bs')" "0 < n" "n \<le> length text"
  obtains b' where "\<And>tls ps. sender_work B T q b tls bs ps =
      Inr (if n = length text then WORK_STATUS_SENT else WORK_STATUS_READY_TO_SEND, b', bs', ps)"
    and "buffer_wf b'" and "n < length text \<Longrightarrow> count b' = length text - n"
    and "n < length text \<Longrightarrow> take (count b') (bytes b') = drop n text"
proof -
  have "int n \<noteq> -2" by simp
  note send = send_bio_value [OF b w(1) this]
  have u: "to_uint64 (int n) = int n" using w(3) b(5) by (simp add: to_uint64_def)
  show ?thesis
  proof (cases "n = length text")
    case True
    then show ?thesis using q send u b(1,2) w(2) by (intro that [of b]) (auto simp: sender_work_def after_send_def)
  next
    case False
    obtain d where d: "data b = Some d" "length d = capacity b" "length text \<le> length d"
      using b by (auto simp: buffer_wf_def split: option.splits)
    have rest: "read_at n (count b - n) b = Inr (drop n text)"
      using d b(2,3) w(3) by (simp add: read_at_def bytes_def take_drop drop_take [symmetric])
    have "0 < length text" using b(4) by simp
    then have cap: "0 < capacity b" using d(2,3) by linarith
    have fit: "0 + length (drop n text) \<le> capacity b" using d(2,3) by simp
    obtain b1 where b1: "write_bytes 0 (drop n text) b = Inr b1"
      using write_bytes_returns [OF b(1) cap fit] by blast
    note b1s = write_bytes_Inr [OF b(1) b1]
    let ?b = "b1\<lparr>count := count b - n\<rparr>"
    have wf: "buffer_wf ?b" using b1s(1,3) by (auto simp: buffer_wf_def split: option.splits)
    have "sender_work B T q b tls bs ps = Inr (WORK_STATUS_READY_TO_SEND, ?b, bs', ps)" for tls ps
      using q send u rest b1 b(2) w(2,3) False by (simp add: sender_work_def after_send_def)
    moreover have "take (count ?b) (bytes ?b) = drop n text" using b1s(4) b(2) by (simp add: bytes_def)
    ultimately show ?thesis using wf b(2) False by (intro that [of ?b]) auto
  qed
qed

end
