(* ===== verification/Serving.thy ===== *)
theory Serving
  imports Pipeline
begin

text \<open>
  The stages together: what happens to one request from its arrival on the socket to the response on
  it, and what goes wrong when the threads get into each other's way.
\<close>

section \<open>The situation\<close>

text \<open>A client: what it has sent, and what has been sent to it. A write takes at least one byte.\<close>

definition bio_client :: "'b bio_io \<Rightarrow> ('b \<Rightarrow> string) \<Rightarrow> ('b \<Rightarrow> string) \<Rightarrow> bool" where
  "bio_client B arrived sent \<longleftrightarrow> bio_stream B arrived \<and>
     (\<forall>s k. sent (snd (snd (BIO_read B s k))) = sent s) \<and>
     (\<forall>s xs. xs \<noteq> [] \<longrightarrow> (\<exists>s' n. BIO_write B s xs = (int n, s') \<and> 0 < n \<and> n \<le> length xs \<and>
       sent s' = sent s @ take n xs))"

text \<open>A session between two requests.\<close>

definition idle_job :: "job \<Rightarrow> bool" where
  "idle_job j \<longleftrightarrow> j_marks j \<subseteq> {WORK_STATUS_INITIAL, WORK_STATUS_SENT} \<and> \<not> is_ssl (j_request j) \<and>
     count (j_buffer j) = 0 \<and> (capacity (j_buffer j) = 0 \<and> data (j_buffer j) = None \<or> capacity (j_buffer j) = 1024) \<and>
     content_encoding (j_response j) \<in> {[], ''gzip'', ''deflate''} \<and> length (location (j_response j)) < HTTP_HEADER_SIZE"

text \<open>An entry of the poll array that is ready to be read.\<close>

definition readable_entry :: "('b, 'p) platform \<Rightarrow> int \<Rightarrow> int \<Rightarrow> nat \<Rightarrow> int \<Rightarrow> ('b, 'p) server \<Rightarrow> bool" where
  "readable_entry P l ls i f W \<longleftrightarrow>
     (\<exists>xs. fds (polls W) = Some xs \<and> i < length xs \<and> fd (xs ! i) = f \<and> revents (xs ! i) = POLLIN) \<and>
     is_marked f (marked_fds (sw W)) = Inr False \<and> p_so_error P 0 f = Some 0 \<and> f \<noteq> l \<and> f \<noteq> ls"

lemma readable_entry_step:
  assumes "readable_entry P l ls i f W" and "handle_request_async P f W = Inr (0, W')"
  shows "listen_entry P l ls i W = Inr (i, W')"
  using assms by (auto simp: readable_entry_def listen_entry_def Let_def check_for_socket_error_def)

text \<open>One free thread of each kind.\<close>

definition crew :: "('b, 'p, 's) farm \<Rightarrow> nat \<Rightarrow> nat \<Rightarrow> nat \<Rightarrow> nat \<Rightarrow> bool" where
  "crew S a b c d \<longleftrightarrow>
     duty S a = Some handle_a \<and> duty S b = Some handle_b \<and> duty S c = Some handle_c \<and> duty S d = Some handle_d \<and>
     held S a = None \<and> held S b = None \<and> held S c = None \<and> held S d = None \<and>
     buffer_wf (scratch S b) \<and> data (scratch S b) \<noteq> None \<and>
     buffer_wf (scratch S c) \<and> data (scratch S c) \<noteq> None \<and> capacity (scratch S c) < 2 ^ 31"

section \<open>The phases of a request\<close>

text \<open>Arrival: the listener reads from the socket of an idle session.\<close>

lemma read_step:
  assumes j: "alone k j (the_cache S)" "idle_job j" and e: "readable_entry P l ls i (j_fd j) (srv S)"
    and rd: "recv_bio (p_libc P) (p_bio P) (bio_state (srv S) (j_fd j)) (j_buffer j) = Inr (n, s', b)" "0 < n" "buffer_wf b"
  obtains S1 where "step P X l ls S S1"
    and "alone k (j\<lparr>j_marks := insert WORK_STATUS_REQUEST_READ (j_marks j), j_buffer := b\<rparr>) (the_cache S1)"
    and "bio_state (srv S1) = (bio_state (srv S))(j_fd j := s')"
    and "duty S1 = duty S" and "held S1 = held S" and "scratch S1 = scratch S" and "prepared_stmts S1 = prepared_stmts S"
proof -
  have wf: "cache_wf (the_cache S)" and k: "k < session_count (the_cache S)" and jk: "j = jobs (the_cache S) ! k"
    using j(1) by (auto simp: alone_def)
  have np: "WORK_STATUS_PROCESSING \<notin> j_marks j" and rdy: "readable_job j" and plain: "\<not> is_ssl (j_request j)"
    using j(2) by (auto simp: idle_job_def readable_job_def stages_def)
  obtain W' where W': "handle_request_async P (j_fd j) (srv S) = Inr (0, W')" "cache_wf (cache (sw W'))"
    "jobs (cache (sw W')) = (jobs (the_cache S))[k := j\<lparr>j_marks := insert WORK_STATUS_REQUEST_READ (j_marks j - {WORK_STATUS_PROCESSING}),
      j_buffer := b\<rparr>]" "bio_state W' = (bio_state (srv S))(j_fd j := s')"
    using read_job [OF wf k jk rdy plain rd] by blast
  show ?thesis
  proof (rule that)
    show "step P X l ls S (S\<lparr>srv := W'\<rparr>)"
      by (rule step_listen [OF readable_entry_step [OF e W'(1)]])
    show "alone k (j\<lparr>j_marks := insert WORK_STATUS_REQUEST_READ (j_marks j), j_buffer := b\<rparr>) (the_cache (S\<lparr>srv := W'\<rparr>))"
      using alone_jobs [OF j(1) W'(2,3)] np by simp
  qed (use W'(4) in auto)
qed

lemma arrival:
  assumes B: "bio_client (p_bio P) arrived sent" and mem: "\<And>m. alloc_ok (p_libc P) m"
    and j: "alone k j (the_cache S)" "idle_job j" and e: "readable_entry P l ls i (j_fd j) (srv S)"
    and req: "arrived (bio_state (srv S) (j_fd j)) = req" "req \<noteq> []" "length req < 4096"
  obtains S1 b where "step P X l ls S S1" and
    "alone k (j\<lparr>j_marks := insert WORK_STATUS_REQUEST_READ (j_marks j), j_buffer := b\<rparr>) (the_cache S1)"
    and "buffer_wf b" and "count b = length req + 1" and "take (count b) (bytes b) = req @ [NUL]"
    and "data b \<noteq> None" and "capacity b < 2 ^ 31"
    and "sent (bio_state (srv S1) (j_fd j)) = sent (bio_state (srv S) (j_fd j))"
    and "duty S1 = duty S" and "held S1 = held S" and "scratch S1 = scratch S" and "prepared_stmts S1 = prepared_stmts S"
proof -
  have str: "bio_stream (p_bio P) arrived" using B by (simp add: bio_client_def)
  have bwf: "buffer_wf (j_buffer j)" by (rule alone_objects(5) [OF j(1)])
  have empty: "count (j_buffer j) = 0"
    "capacity (j_buffer j) = 0 \<and> data (j_buffer j) = None \<or> capacity (j_buffer j) = 1024"
    using j(2) by (auto simp: idle_job_def)
  obtain s' b where rd: "recv_bio (p_libc P) (p_bio P) (bio_state (srv S) (j_fd j)) (j_buffer j) = Inr (int (length req) + 1, s', b)"
    "buffer_wf b" "count b = length req + 1" "take (count b) (bytes b) = req @ [NUL]" "capacity b \<le> 522240" "data b \<noteq> None"
    "\<forall>I. (\<forall>s k. I s \<longrightarrow> I (snd (snd (BIO_read (p_bio P) s k)))) \<longrightarrow> I (bio_state (srv S) (j_fd j)) \<longrightarrow> I s'"
    using recv_bio_short [OF str mem bwf empty, of "bio_state (srv S) (j_fd j)", unfolded req(1), OF req(2,3)]
    by (elim exE conjE)
  have kept: "sent s' = sent (bio_state (srv S) (j_fd j))"
    using rd(7) [rule_format, of "\<lambda>s. sent s = sent (bio_state (srv S) (j_fd j))"] B by (simp add: bio_client_def)
  have n: "0 < int (length req) + 1" by simp
  obtain S1 where "step P X l ls S S1"
    "alone k (j\<lparr>j_marks := insert WORK_STATUS_REQUEST_READ (j_marks j), j_buffer := b\<rparr>) (the_cache S1)"
    "bio_state (srv S1) = (bio_state (srv S))(j_fd j := s')"
    "duty S1 = duty S" "held S1 = held S" "scratch S1 = scratch S" "prepared_stmts S1 = prepared_stmts S"
    by (rule read_step [OF j e rd(1) n rd(2)])
  then show ?thesis using that rd kept by simp
qed

text \<open>A whole round of a stage, by a free thread.\<close>

lemma given_next:
  assumes "WORK_STATUS_PROCESSING \<notin> M"
  shows "given WORK_STATUS_PARSED (insert WORK_STATUS_PROCESSING M) = insert WORK_STATUS_PARSED M"
    and "given WORK_STATUS_DATA_FETCHED (insert WORK_STATUS_PROCESSING M) = insert WORK_STATUS_DATA_FETCHED M"
    and "given WORK_STATUS_READY_TO_SEND (insert WORK_STATUS_PROCESSING M) = insert WORK_STATUS_READY_TO_SEND M"
  using assms by auto

lemma steps_two: "step P X l ls S S1 \<Longrightarrow> step P X l ls S1 S2 \<Longrightarrow> (step P X l ls)\<^sup>*\<^sup>* S S2"
  by (meson converse_rtranclp_into_rtranclp r_into_rtranclp)

lemma due_free: "due st j \<Longrightarrow> WORK_STATUS_PROCESSING \<notin> j_marks j"
  by (simp add: due_def)

lemma parser_round:
  assumes j: "alone k j (the_cache S)" "due WORK_STATUS_REQUEST_READ j" and t: "duty S t = Some handle_a" "held S t = None"
    and work: "parser_work (p_libc P) (s_files X) (j_buffer j) (j_request j) (j_response j) = Inr (q', s')"
  obtains S' where "(step P X l ls)\<^sup>*\<^sup>* S S'" and "only_by t S S'" and "held S' t = None"
    and "alone k (j\<lparr>j_marks := insert WORK_STATUS_PARSED (j_marks j), j_request := q', j_response := s'\<rparr>) (the_cache S')"
    and "bio_state (srv S') = bio_state (srv S)"
proof -
  from j(2) have stage: "due (work_stage handle_a) j" by simp
  obtain r S1 where S1: "step P X l ls S S1" "holding t k r (take_job j) S1" "only_by t S S1" "bio_state (srv S1) = bio_state (srv S)"
    by (rule take_step [OF j(1) stage t]) auto
  have "duty S1 t = Some handle_a" using S1(3) t(1) by (simp add: only_by_def)
  from parser_step [OF S1(2) this, where P = P and X = X and l = l and ls = ls and q' = q' and s' = s'] work obtain S' where
    S': "step P X l ls S1 S'" "alone k (give_job WORK_STATUS_PARSED (take_job j\<lparr>j_request := q', j_response := s'\<rparr>)) (the_cache S')"
    "held S' t = None" "only_by t S1 S'" "bio_state (srv S') = bio_state (srv S1)"
    by (auto simp: take_job_def)
  have "give_job WORK_STATUS_PARSED (take_job j\<lparr>j_request := q', j_response := s'\<rparr>) =
      j\<lparr>j_marks := insert WORK_STATUS_PARSED (j_marks j), j_request := q', j_response := s'\<rparr>"
    using due_free [OF j(2)] by (simp add: give_job_def take_job_def given_next)
  then show ?thesis
    using that [OF steps_two [OF S1(1) S'(1)] only_by_trans [OF S1(3) S'(4)] S'(3)] S'(2,5) S1(4) by simp
qed

lemma loader_round:
  assumes j: "alone k j (the_cache S)" "due WORK_STATUS_PARSED j" and t: "duty S t = Some handle_b" "held S t = None"
    and work: "loader_work (p_libc P) (s_files X) (s_sql X) (prepared_stmts S t) (scratch S t) (j_request j) (j_response j) (j_buffer j)
      = Inr (s', b', tmp, sts)" "clear_counted tmp = Inr tmp'" "buffer_wf b'"
  obtains S' where "(step P X l ls)\<^sup>*\<^sup>* S S'" and "only_by t S S'" and "held S' t = None"
    and "alone k (j\<lparr>j_marks := insert WORK_STATUS_DATA_FETCHED (j_marks j), j_buffer := b', j_response := s'\<rparr>) (the_cache S')"
    and "bio_state (srv S') = bio_state (srv S)"
proof -
  from j(2) have stage: "due (work_stage handle_b) j" by simp
  obtain r S1 where S1: "step P X l ls S S1" "holding t k r (take_job j) S1" "only_by t S S1" "bio_state (srv S1) = bio_state (srv S)"
    "scratch S1 t = scratch S t" "prepared_stmts S1 t = prepared_stmts S t"
    by (rule take_step [OF j(1) stage t]) auto
  have "duty S1 t = Some handle_b" using S1(3) t(1) by (simp add: only_by_def)
  from loader_step [OF S1(2) this, where P = P and X = X and l = l and ls = ls, OF _ work(2,3)] work(1) S1(5,6) obtain S' where
    S': "step P X l ls S1 S'" "alone k (give_job WORK_STATUS_DATA_FETCHED (take_job j\<lparr>j_buffer := b', j_response := s'\<rparr>)) (the_cache S')"
    "held S' t = None" "only_by t S1 S'" "bio_state (srv S') = bio_state (srv S1)"
    by (auto simp: take_job_def)
  have "give_job WORK_STATUS_DATA_FETCHED (take_job j\<lparr>j_buffer := b', j_response := s'\<rparr>) =
      j\<lparr>j_marks := insert WORK_STATUS_DATA_FETCHED (j_marks j), j_buffer := b', j_response := s'\<rparr>"
    using due_free [OF j(2)] by (simp add: give_job_def take_job_def given_next)
  then show ?thesis
    using that [OF steps_two [OF S1(1) S'(1)] only_by_trans [OF S1(3) S'(4)] S'(3)] S'(2,5) S1(4) by simp
qed

lemma builder_round:
  assumes j: "alone k j (the_cache S)" "due WORK_STATUS_DATA_FETCHED j" and t: "duty S t = Some handle_c" "held S t = None"
    and tmp: "clear_scratch (scratch S t) = Inr tmp"
    and work: "builder_work (p_libc P) (s_files X) (s_now X) (s_sha X) (s_zlib X) (s_stack X) (j_request j) (j_response j)
      (j_buffer j) tmp = Inr (s', b', tmp')" "buffer_wf b'"
  obtains S' where "(step P X l ls)\<^sup>*\<^sup>* S S'" and "only_by t S S'" and "held S' t = None"
    and "alone k (j\<lparr>j_marks := insert WORK_STATUS_READY_TO_SEND (j_marks j), j_buffer := b', j_response := s'\<rparr>) (the_cache S')"
    and "bio_state (srv S') = bio_state (srv S)"
proof -
  from j(2) have stage: "due (work_stage handle_c) j" by simp
  obtain r S1 where S1: "step P X l ls S S1" "holding t k r (take_job j) S1" "only_by t S S1" "bio_state (srv S1) = bio_state (srv S)"
    "scratch S1 t = tmp"
    by (rule take_step [OF j(1) stage t, of tmp]) (use tmp in auto)
  have "duty S1 t = Some handle_c" using S1(3) t(1) by (simp add: only_by_def)
  from builder_step [OF S1(2) this, where P = P and X = X and l = l and ls = ls, OF _ work(2)] work(1) S1(5) obtain S' where
    S': "step P X l ls S1 S'" "alone k (give_job WORK_STATUS_READY_TO_SEND (take_job j\<lparr>j_buffer := b', j_response := s'\<rparr>)) (the_cache S')"
    "held S' t = None" "only_by t S1 S'" "bio_state (srv S') = bio_state (srv S1)"
    by (auto simp: take_job_def)
  have "give_job WORK_STATUS_READY_TO_SEND (take_job j\<lparr>j_buffer := b', j_response := s'\<rparr>) =
      j\<lparr>j_marks := insert WORK_STATUS_READY_TO_SEND (j_marks j), j_buffer := b', j_response := s'\<rparr>"
    using due_free [OF j(2)] by (simp add: give_job_def take_job_def given_next)
  then show ?thesis
    using that [OF steps_two [OF S1(1) S'(1)] only_by_trans [OF S1(3) S'(4)] S'(3)] S'(2,5) S1(4) by simp
qed

lemma sender_round:
  assumes j: "alone k j (the_cache S)" "due WORK_STATUS_READY_TO_SEND j" and t: "duty S t = Some handle_d" "held S t = None"
    and work: "\<And>tls ps. sender_work (p_bio P) (p_ssl P) (j_request j) (j_buffer j) tls (bio_state (srv S) (j_fd j)) ps
      = Inr (st, b', bs, ps)" "buffer_wf b'" and st: "st \<noteq> WORK_STATUS_REJECTED"
  obtains S' where "(step P X l ls)\<^sup>*\<^sup>* S S'" and "only_by t S S'" and "held S' t = None"
    and "alone k (give_job st (take_job j\<lparr>j_buffer := b'\<rparr>)) (the_cache S')"
    and "bio_state (srv S') = (bio_state (srv S))(j_fd j := bs)"
proof -
  from j(2) have stage: "due (work_stage handle_d) j" by simp
  obtain r S1 where S1: "step P X l ls S S1" "holding t k r (take_job j) S1" "only_by t S S1" "bio_state (srv S1) = bio_state (srv S)"
    by (rule take_step [OF j(1) stage t]) auto
  have "duty S1 t = Some handle_d" using S1(3) t(1) by (simp add: only_by_def)
  from sender_step [OF S1(2) this, where P = P and X = X and l = l and ls = ls, OF _ work(2) st] work(1) S1(4) obtain S' where
    S': "step P X l ls S1 S'" "alone k (give_job st (take_job j\<lparr>j_buffer := b'\<rparr>)) (the_cache S')"
    "held S' t = None" "only_by t S1 S'" "bio_state (srv S') = (bio_state (srv S1))(j_fd j := bs)"
    by (auto simp: take_job_def)
  show ?thesis
    using that [OF steps_two [OF S1(1) S'(1)] only_by_trans [OF S1(3) S'(4)] S'(3,2)] S'(5) S1(4) by simp
qed

section \<open>Properties\<close>

lemma clear_scratch_value:
  assumes "buffer_wf b" and "data b \<noteq> None"
  obtains b' where "clear_scratch b = Inr b'" "buffer_wf b'" "data b' \<noteq> None" "capacity b' = capacity b"
proof -
  obtain d where d: "data b = Some d" "length d = capacity b" using assms by (auto simp: buffer_wf_def)
  then have "clear_scratch b = Inr (b\<lparr>data := Some (replicate (capacity b) NUL)\<rparr>)"
    by (simp add: clear_scratch_def write_bytes_def)
  then show ?thesis using that assms d by (auto simp: buffer_wf_def)
qed

lemma clear_counted_value:
  assumes "buffer_wf b" and "data b \<noteq> None"
  obtains b' where "clear_counted b = Inr b'"
proof -
  obtain b0 where "write_bytes 0 (replicate (count b) NUL) b = Inr b0"
    using clear_count_value [OF assms] .
  then show ?thesis using that by (simp add: clear_counted_def)
qed

lemma validate_status: "validate_request_headers F q \<in> {HTTP_OK, HTTP_METHOD_NOT_ALLOWED, HTTP_NOT_ACCEPTABLE, HTTP_NOT_FOUND}"
  unfolding validate_request_headers_def Let_def by (cases "uri_to_file_name (uri q)") simp_all

lemma answer_kept:
  assumes "answer Z ae inm doc (planned_headers F now sha u doc r) = (hdrs, payload)"
    and "content_encoding r \<in> {[], ''gzip'', ''deflate''}"
  shows "content_encoding hdrs \<in> {[], ''gzip'', ''deflate''}" and "location hdrs = location r"
proof -
  let ?h = "planned_headers F now sha u doc r"
  have h: "content_encoding ?h = content_encoding r" "location ?h = location r"
    by (simp_all add: planned_headers_def Let_def)
  have c: "coding ae \<in> {[], ''gzip'', ''deflate''}" by (simp add: coding_def)
  have ans: "hdrs = fst (answer Z ae inm doc ?h)" using assms(1) by simp
  show "content_encoding hdrs \<in> {[], ''gzip'', ''deflate''}"
    unfolding ans answer_def Let_def using assms(2) c h(1) by (elim insertE emptyE) (simp_all split: if_split)
  show "location hdrs = location r" unfolding ans answer_def Let_def using h(2) by simp
qed

text \<open>From the arrival to the document in the buffer.\<close>

lemma request_loaded:
  assumes B: "bio_client (p_bio P) arrived sent" and mem: "\<And>m. alloc_ok (p_libc P) m"
    and j: "alone k j (the_cache S)" "idle_job j" and e: "readable_entry P l ls i (j_fd j) (srv S)"
    and req: "arrived (bio_state (srv S) (j_fd j)) = req" "req \<noteq> []" "length req < 4096" "NUL \<notin> set req"
    and q: "reads_as req (j_request j) q"
    and doc: "status = validate_request_headers (s_files X) q" "plain_document (s_files X) q status doc"
    and crew: "crew S a b c d"
  obtains S' j' where "(step P X l ls)\<^sup>*\<^sup>* S S'" and "alone k j' (the_cache S')"
    and "j_marks j' = insert WORK_STATUS_DATA_FETCHED (insert WORK_STATUS_PARSED (insert WORK_STATUS_REQUEST_READ (j_marks j)))"
    and "j_fd j' = j_fd j" and "j_request j' = q" and "j_response j' = (j_response j)\<lparr>status_code := status\<rparr>"
    and "holds doc (j_buffer j')"
    and "sent (bio_state (srv S') (j_fd j)) = sent (bio_state (srv S) (j_fd j))"
    and "duty S' = duty S" and "scratch S' c = scratch S c" and "held S' c = None" and "held S' d = None"
proof -
  let ?M = "j_marks j"
  let ?s = "(j_response j)\<lparr>status_code := status\<rparr>"
  have M: "?M \<subseteq> {WORK_STATUS_INITIAL, WORK_STATUS_SENT}" using j(2) by (simp add: idle_job_def)
  have ne: "a \<noteq> b" "a \<noteq> c" "a \<noteq> d" "b \<noteq> c" "b \<noteq> d" "c \<noteq> d" using crew by (auto simp: crew_def)
  have status: "0 \<le> status" "status < 1000" "status \<notin> {HTTP_MOVED_PERMANENTLY, HTTP_NOT_MODIFIED}"
    using validate_status [of "s_files X" q] doc(1) by auto
  obtain S1 b1 where S1: "step P X l ls S S1"
    "alone k (j\<lparr>j_marks := insert WORK_STATUS_REQUEST_READ ?M, j_buffer := b1\<rparr>) (the_cache S1)"
    "buffer_wf b1" "count b1 = length req + 1" "take (count b1) (bytes b1) = req @ [NUL]" "data b1 \<noteq> None" "capacity b1 < 2 ^ 31"
    "sent (bio_state (srv S1) (j_fd j)) = sent (bio_state (srv S) (j_fd j))"
    "duty S1 = duty S" "held S1 = held S" "scratch S1 = scratch S" "prepared_stmts S1 = prepared_stmts S"
    by (rule arrival [OF B mem j e req(1-3)])
  let ?j1 = "j\<lparr>j_marks := insert WORK_STATUS_REQUEST_READ ?M, j_buffer := b1\<rparr>"
  have w1: "parser_work (p_libc P) (s_files X) (j_buffer ?j1) (j_request ?j1) (j_response ?j1) = Inr (q, ?s)"
    using parser_value [OF mem S1(3,6,4,5) req(4) q(1)] doc(1) by simp
  have d1: "due WORK_STATUS_REQUEST_READ ?j1" using M by (auto simp: due_def)
  have t1: "duty S1 a = Some handle_a" "held S1 a = None" using S1(9,10) crew by (simp_all add: crew_def)
  obtain S2 where S2: "(step P X l ls)\<^sup>*\<^sup>* S1 S2" "only_by a S1 S2"
    "alone k (?j1\<lparr>j_marks := insert WORK_STATUS_PARSED (j_marks ?j1), j_request := q, j_response := ?s\<rparr>) (the_cache S2)"
    "bio_state (srv S2) = bio_state (srv S1)"
    by (rule parser_round [OF S1(2) d1 t1 w1])
  let ?j2 = "?j1\<lparr>j_marks := insert WORK_STATUS_PARSED (j_marks ?j1), j_request := q, j_response := ?s\<rparr>"
  note a2 = S2(3)
  have sb: "scratch S2 b = scratch S b" "duty S2 b = Some handle_b" "held S2 b = None"
    using S2(2) S1(9-12) ne crew by (simp_all add: only_by_def crew_def)
  have "0 \<le> status_code ?s" "status_code ?s < 1000" "plain_document (s_files X) q (status_code ?s) doc"
    using status doc(2) by simp_all
  from loader_value [OF mem S1(3,6,7) this(3,1,2)]
  obtain b2 where b2: "loader_work (p_libc P) (s_files X) (s_sql X) (prepared_stmts S2 b) (scratch S2 b) q ?s b1
      = Inr (?s, b2, scratch S2 b, prepared_stmts S2 b)" "holds doc b2"
    by blast
  obtain tmp where tmp: "clear_counted (scratch S2 b) = Inr tmp"
    using clear_counted_value [of "scratch S2 b"] crew sb(1) by (auto simp: crew_def)
  have d2: "due WORK_STATUS_PARSED ?j2" using M by (auto simp: due_def)
  have w2: "loader_work (p_libc P) (s_files X) (s_sql X) (prepared_stmts S2 b) (scratch S2 b) (j_request ?j2) (j_response ?j2)
      (j_buffer ?j2) = Inr (?s, b2, scratch S2 b, prepared_stmts S2 b)" using b2(1) by simp
  have wf2: "buffer_wf b2" using b2(2) by (simp add: holds_def)
  obtain S3 where S3: "(step P X l ls)\<^sup>*\<^sup>* S2 S3" "only_by b S2 S3"
    "alone k (?j2\<lparr>j_marks := insert WORK_STATUS_DATA_FETCHED (j_marks ?j2), j_buffer := b2, j_response := ?s\<rparr>) (the_cache S3)"
    "bio_state (srv S3) = bio_state (srv S2)"
    by (rule loader_round [OF a2 d2 sb(2,3) w2 tmp wf2])
  let ?j3 = "?j2\<lparr>j_marks := insert WORK_STATUS_DATA_FETCHED (j_marks ?j2), j_buffer := b2, j_response := ?s\<rparr>"
  have "(step P X l ls)\<^sup>*\<^sup>* S S3"
    using S1(1) S2(1) S3(1) by (meson converse_rtranclp_into_rtranclp rtranclp_trans)
  then show ?thesis
    using that [OF _ S3(3)] b2(2) S3(2,4) S2(2,4) S1(8-12) ne crew by (simp add: only_by_def crew_def)
qed

text \<open>A response leaves in as many rounds of a sender as the socket needs; nothing is lost or sent twice.\<close>

lemma response_sent:
  assumes B: "bio_client (p_bio P) arrived sent"
  shows "alone k j (the_cache S) \<Longrightarrow> due WORK_STATUS_READY_TO_SEND j \<Longrightarrow> \<not> is_ssl (j_request j) \<Longrightarrow>
    connection (j_request j) = KEEP_ALIVE \<Longrightarrow> duty S d = Some handle_d \<Longrightarrow> held S d = None \<Longrightarrow>
    count (j_buffer j) = length msg \<Longrightarrow> take (length msg) (bytes (j_buffer j)) = msg \<Longrightarrow>
    msg \<noteq> [] \<Longrightarrow> length msg < 2 ^ 31 \<Longrightarrow>
    \<exists>S' b. (step P X l ls)\<^sup>*\<^sup>* S S' \<and> sent (bio_state (srv S') (j_fd j)) = sent (bio_state (srv S) (j_fd j)) @ msg \<and>
      alone k (give_job WORK_STATUS_SENT (take_job j\<lparr>j_buffer := b\<rparr>)) (the_cache S')"
proof (induction "length msg" arbitrary: msg j S rule: less_induct)
  case less
  note pre = less.prems
  have wf: "buffer_wf (j_buffer j)" by (rule alone_objects(5) [OF pre(1)])
  obtain bs n where w: "BIO_write (p_bio P) (bio_state (srv S) (j_fd j)) msg = (int n, bs)" "0 < n" "n \<le> length msg"
    "sent bs = sent (bio_state (srv S) (j_fd j)) @ take n msg"
    using B pre(9) unfolding bio_client_def by blast
  have t: "take (count (j_buffer j)) (bytes (j_buffer j)) = msg" using pre(7,8) by simp
  obtain b where b: "\<And>tls ps. sender_work (p_bio P) (p_ssl P) (j_request j) (j_buffer j) tls
      (bio_state (srv S) (j_fd j)) ps = Inr (if n = length msg then WORK_STATUS_SENT else WORK_STATUS_READY_TO_SEND, b, bs, ps)" "buffer_wf b"
    "n < length msg \<Longrightarrow> count b = length msg - n" "n < length msg \<Longrightarrow> take (count b) (bytes b) = drop n msg"
    by (rule sender_value [OF pre(3,4) wf pre(7) t pre(9,10) w(1-3)]) blast
  let ?st = "if n = length msg then WORK_STATUS_SENT else WORK_STATUS_READY_TO_SEND"
  obtain S1 where S1: "(step P X l ls)\<^sup>*\<^sup>* S S1" "only_by d S S1" "held S1 d = None"
    "alone k (give_job ?st (take_job j\<lparr>j_buffer := b\<rparr>)) (the_cache S1)"
    "bio_state (srv S1) = (bio_state (srv S))(j_fd j := bs)"
    by (rule sender_round [OF pre(1,2,5,6) b(1,2)]) auto
  show ?case
  proof (cases "n = length msg")
    case True
    then show ?thesis using S1(1,4,5) w(4) by (intro exI [of _ S1] exI [of _ b]) simp
  next
    case False
    then have n: "n < length msg" using w(3) by simp
    let ?j = "j\<lparr>j_buffer := b\<rparr>"
    have proc: "WORK_STATUS_PROCESSING \<notin> j_marks j" "WORK_STATUS_READY_TO_SEND \<in> j_marks j"
      using pre(2) by (auto simp: due_def)
    have "give_job WORK_STATUS_READY_TO_SEND (take_job j\<lparr>j_buffer := b\<rparr>) = ?j"
      using proc by (simp add: give_job_def take_job_def given_next insert_absorb)
    then have a: "alone k ?j (the_cache S1)" using S1(4) False by simp
    have "\<exists>S' b'. (step P X l ls)\<^sup>*\<^sup>* S1 S' \<and>
        sent (bio_state (srv S') (j_fd ?j)) = sent (bio_state (srv S1) (j_fd ?j)) @ drop n msg \<and>
        alone k (give_job WORK_STATUS_SENT (take_job ?j\<lparr>j_buffer := b'\<rparr>)) (the_cache S')"
    proof (rule less.hyps [of "drop n msg" ?j S1])
      show "duty S1 d = Some handle_d" using S1(2) pre(5) by (simp add: only_by_def)
    qed (use n w(2) a pre S1(3) b(3,4) in \<open>simp_all add: due_def\<close>)
    then obtain S' b' where S': "(step P X l ls)\<^sup>*\<^sup>* S1 S'"
      "sent (bio_state (srv S') (j_fd j)) = sent (bio_state (srv S1) (j_fd j)) @ drop n msg"
      "alone k (give_job WORK_STATUS_SENT (take_job j\<lparr>j_buffer := b'\<rparr>)) (the_cache S')"
      by (auto simp: take_job_def)
    then show ?thesis using rtranclp_trans [OF S1(1) S'(1)] S1(5) w(4)
      by (intro exI [of _ S'] exI [of _ b']) simp
  qed
qed

text \<open>From the document to the response on the wire.\<close>

lemma request_answered:
  assumes B: "bio_client (p_bio P) arrived sent" and mem: "\<And>m. alloc_ok (p_libc P) m"
    and j: "alone k j (the_cache S)"
      "j_marks j = insert WORK_STATUS_DATA_FETCHED (insert WORK_STATUS_PARSED (insert WORK_STATUS_REQUEST_READ M))"
      "M \<subseteq> {WORK_STATUS_INITIAL, WORK_STATUS_SENT}"
    and q: "\<not> is_ssl (j_request j)" "connection (j_request j) = KEEP_ALIVE"
    and r: "status_code (j_response j) = validate_request_headers F q0"
      "content_encoding (j_response j) \<in> {[], ''gzip'', ''deflate''}" "length (location (j_response j)) < HTTP_HEADER_SIZE"
    and doc: "holds doc (j_buffer j)" "plain_document (s_files X) (j_request j) (status_code (j_response j)) doc"
    and env: "zlib_laws (s_zlib X)" "sha256_ok (s_sha X)" "0 \<le> s_now X" "s_now X < 253402300800"
    and ans: "answer (s_zlib X) (accept_encoding (j_request j)) (if_none_match (j_request j)) doc
      (planned_headers (s_files X) (s_now X) (s_sha X) (uri (j_request j)) doc (j_response j)) = (hdrs, payload)"
    and c: "duty S c = Some handle_c" "held S c = None"
      "buffer_wf (scratch S c)" "data (scratch S c) \<noteq> None" "capacity (scratch S c) < 2 ^ 31"
    and d: "duty S d = Some handle_d" "held S d = None" "c \<noteq> d"
    and fit: "length (encoded (s_zlib X) (coding (accept_encoding (j_request j))) doc) \<le> max (capacity (scratch S c)) (length doc)" "length payload < 2 ^ 28"
  obtains S' j' where "(step P X l ls)\<^sup>*\<^sup>* S S'" and "alone k j' (the_cache S')"
    and "sent (bio_state (srv S') (j_fd j)) = sent (bio_state (srv S) (j_fd j)) @ response_head hdrs @ payload"
    and "j_fd j' = j_fd j" and "idle_job j'" and "j_response j' = hdrs"
proof -
  obtain tmp where tmp: "clear_scratch (scratch S c) = Inr tmp" "buffer_wf tmp" "data tmp \<noteq> None"
    "capacity tmp = capacity (scratch S c)"
    by (rule clear_scratch_value [OF c(3,4)])
  have small: "capacity tmp < 2 ^ 31" using tmp(4) c(5) by simp
  have st: "0 \<le> status_code (j_response j)" "status_code (j_response j) < 1000"
    "status_code (j_response j) \<notin> {HTTP_MOVED_PERMANENTLY, HTTP_NOT_MODIFIED}"
    using validate_status [of F q0] r(1) by auto
  have enc: "length (encoded (s_zlib X) (coding (accept_encoding (j_request j))) doc) \<le> max (capacity tmp) (length doc)"
    using fit(1) tmp(4) by simp
  obtain b1 tmp' where b1: "builder_work (p_libc P) (s_files X) (s_now X) (s_sha X) (s_zlib X) (s_stack X) (j_request j)
      (j_response j) (j_buffer j) tmp = Inr (hdrs, b1, tmp')"
    "buffer_wf b1" "count b1 = length (response_head hdrs @ payload)" "take (count b1) (bytes b1) = response_head hdrs @ payload"
    "length (response_head hdrs @ payload) < 2 ^ 31"
    using builder_value [OF mem env(1) doc st r(2,3) tmp(2,3) small env(2-4) ans enc fit(2), of "s_stack X"] by blast
  have d1: "due WORK_STATUS_DATA_FETCHED j" using j(2,3) by (auto simp: due_def)
  obtain S1 where S1: "(step P X l ls)\<^sup>*\<^sup>* S S1" "only_by c S S1"
    "alone k (j\<lparr>j_marks := insert WORK_STATUS_READY_TO_SEND (j_marks j), j_buffer := b1, j_response := hdrs\<rparr>) (the_cache S1)"
    "bio_state (srv S1) = bio_state (srv S)"
    by (rule builder_round [OF j(1) d1 c(1,2) tmp(1) b1(1,2)])
  let ?j1 = "j\<lparr>j_marks := insert WORK_STATUS_READY_TO_SEND (j_marks j), j_buffer := b1, j_response := hdrs\<rparr>"
  have t: "duty S1 d = Some handle_d" "held S1 d = None" using S1(2) d by (simp_all add: only_by_def)
  have ne: "response_head hdrs @ payload \<noteq> []" by (simp add: response_head_def)
  have d2: "due WORK_STATUS_READY_TO_SEND ?j1" using j(2,3) by (auto simp: due_def)
  have "\<exists>S' b. (step P X l ls)\<^sup>*\<^sup>* S1 S' \<and>
      sent (bio_state (srv S') (j_fd ?j1)) = sent (bio_state (srv S1) (j_fd ?j1)) @ response_head hdrs @ payload \<and>
      alone k (give_job WORK_STATUS_SENT (take_job ?j1\<lparr>j_buffer := b\<rparr>)) (the_cache S')"
    by (rule response_sent [OF B S1(3) d2 _ _ t _ _ ne b1(5)]) (use q b1(3,4) in simp_all)
  then obtain S2 b2 where S2: "(step P X l ls)\<^sup>*\<^sup>* S1 S2"
    "sent (bio_state (srv S2) (j_fd j)) = sent (bio_state (srv S1) (j_fd j)) @ response_head hdrs @ payload"
    "alone k (give_job WORK_STATUS_SENT (take_job ?j1\<lparr>j_buffer := b2\<rparr>)) (the_cache S2)"
    by (elim exE conjE) simp
  let ?j2 = "give_job WORK_STATUS_SENT (take_job ?j1\<lparr>j_buffer := b2\<rparr>)"
  show ?thesis
  proof (rule that)
    show "(step P X l ls)\<^sup>*\<^sup>* S S2" using S1(1) S2(1) by (rule rtranclp_trans)
    show "idle_job ?j2"
      using answer_kept [OF ans r(2)] r(3) q j(2,3) by (auto simp: idle_job_def give_job_def take_job_def Let_def zero_request_def)
    show "sent (bio_state (srv S2) (j_fd j)) = sent (bio_state (srv S) (j_fd j)) @ response_head hdrs @ payload"
      using S2(2) S1(4) by simp
  qed (use S2(3) in \<open>simp_all add: give_job_def take_job_def Let_def\<close>)
qed

text \<open>
  C1: A request and its response. A plain client on an idle session has sent a request that parses as
  \<open>q\<close> and asks to keep the connection; no other session has work, and one worker of each kind is
  free. Then the threads have a run at whose end the client has been sent exactly the response head
  and payload that \<open>answer\<close> describes for the document of the request: the static file, when it is
  valid and names one, the page of the error it earned otherwise. The session is then idle again,
  ready for the next request of the connection.
\<close>

theorem request_served:
  assumes B: "bio_client (p_bio P) arrived sent" and mem: "\<And>m. alloc_ok (p_libc P) m"
    and j: "alone k j (the_cache S)" "idle_job j" and e: "readable_entry P l ls i (j_fd j) (srv S)"
    and req: "arrived (bio_state (srv S) (j_fd j)) = req" "req \<noteq> []" "length req < 4096" "NUL \<notin> set req"
    and q: "reads_as req (j_request j) q" "\<not> is_ssl q" "connection q = KEEP_ALIVE"
    and doc: "status = validate_request_headers (s_files X) q" "plain_document (s_files X) q status doc"
    and env: "zlib_laws (s_zlib X)" "sha256_ok (s_sha X)" "0 \<le> s_now X" "s_now X < 253402300800"
    and ans: "answer (s_zlib X) (accept_encoding q) (if_none_match q) doc
      (planned_headers (s_files X) (s_now X) (s_sha X) (uri q) doc ((j_response j)\<lparr>status_code := status\<rparr>)) = (hdrs, payload)"
    and crew: "crew S a b c d"
    and fit: "length (encoded (s_zlib X) (coding (accept_encoding q)) doc) \<le> max (capacity (scratch S c)) (length doc)" "length payload < 2 ^ 28"
  shows "\<exists>S' j'. (step P X l ls)\<^sup>*\<^sup>* S S' \<and>
    sent (bio_state (srv S') (j_fd j)) = sent (bio_state (srv S) (j_fd j)) @ response_head hdrs @ payload \<and>
    alone k j' (the_cache S') \<and> j_fd j' = j_fd j \<and> idle_job j' \<and> j_response j' = hdrs"
proof -
  let ?s = "(j_response j)\<lparr>status_code := status\<rparr>"
  have idle: "j_marks j \<subseteq> {WORK_STATUS_INITIAL, WORK_STATUS_SENT}" "content_encoding ?s \<in> {[], ''gzip'', ''deflate''}"
    "length (location ?s) < HTTP_HEADER_SIZE" using j(2) by (simp_all add: idle_job_def)
  obtain S1 j1 where S1: "(step P X l ls)\<^sup>*\<^sup>* S S1" "alone k j1 (the_cache S1)"
    "j_marks j1 = insert WORK_STATUS_DATA_FETCHED (insert WORK_STATUS_PARSED (insert WORK_STATUS_REQUEST_READ (j_marks j)))"
    "j_fd j1 = j_fd j" "j_request j1 = q" "j_response j1 = ?s" "holds doc (j_buffer j1)"
    "sent (bio_state (srv S1) (j_fd j)) = sent (bio_state (srv S) (j_fd j))"
    "duty S1 = duty S" "scratch S1 c = scratch S c" "held S1 c = None" "held S1 d = None"
    by (rule request_loaded [OF B mem j e req q(1) doc crew])
  have cd: "c \<noteq> d" using crew by (auto simp: crew_def)
  have st: "status_code (j_response j1) = validate_request_headers (s_files X) q" using S1(6) doc(1) by simp
  note S1 = S1(1-4) S1(5) S1(6-)
  show ?thesis
    by (rule request_answered [OF B mem S1(2,3) idle(1), where c = c and d = d and F = "s_files X" and ?q0.0 = q
          and X = X and doc = doc and hdrs = hdrs and payload = payload and l = l and ls = ls])
      (use S1 idle st q doc(2) env ans crew fit cd in \<open>auto simp: crew_def intro: rtranclp_trans\<close>)
qed

text \<open>A site with a client that asks for a page it does not have.\<close>

definition chat_bio :: "(string \<times> string) bio_io" where
  "chat_bio = \<lparr>BIO_read = (\<lambda>(i, out) k. if i = [] then (-1, [], (i, out))
       else (int (length (take (nat k) i)), take (nat k) i, (drop (nat k) i, out))),
     BIO_write = (\<lambda>(i, out) xs. (int (min 16 (length xs)), (i, out @ take 16 xs))), BIO_should_retry = (\<lambda>s. 8)\<rparr>"

lemma chat_bio_client: "bio_client chat_bio fst snd"
proof -
  have "bio_stream chat_bio fst"
    by (auto simp: bio_stream_def bio_bounded_def chat_bio_def min_def split: if_splits)
  moreover have "snd (snd (snd (BIO_read chat_bio s k))) = snd s" for s k
    by (cases s) (simp add: chat_bio_def)
  moreover have "\<exists>s' n. BIO_write chat_bio s xs = (int n, s') \<and> 0 < n \<and> n \<le> length xs \<and> snd s' = snd s @ take n xs"
    if "xs \<noteq> []" for s xs
    using that by (cases s) (auto simp: chat_bio_def min_def intro!: exI [of _ "min 16 (length xs)"])
  ultimately show ?thesis by (simp add: bio_client_def)
qed

definition lost_request :: string where
  "lost_request = ''GET /x HTTP/1.1'' @ CRLF @ CRLF"

definition chat_platform :: "(string \<times> string, unit) platform" where
  "chat_platform = \<lparr>p_libc = roomy, p_env = demo_env, p_props = default_properties, p_bio = chat_bio,
     p_ssl = fresh_ssl, p_sockets = no_descriptors, p_errno = 4, p_so_error = (\<lambda>_ _. Some 0),
     p_new_bio = (\<lambda>_. ([], [])), p_new_ssl = (\<lambda>_. ())\<rparr>"

definition chat_site :: "(string \<times> string) list site" where
  "chat_site = \<lparr>s_files = demo_site, s_sql = list_db, s_now = 0, s_sha = demo_sha, s_zlib = store_zlib,
     s_stack = zero_response\<rparr>"

definition chat_farm :: "8 word \<Rightarrow> (string \<times> string, unit, (string \<times> string) list) farm" where
  "chat_farm s = \<lparr>srv = \<lparr>sw = (demo_world 2 [(2, s), (3, 128)])\<lparr>marked_fds := init_marked_fds 64\<rparr>,
       polls = \<lparr>fds = Some [\<lparr>fd = 5, events = POLLIN, revents = 0\<rparr>, \<lparr>fd = 2, events = POLLIN, revents = POLLIN\<rparr>],
         pa_count = 2, last_in_index = 1, max_count = 2\<rparr>,
       bio_state = (\<lambda>f. if f = 2 then (lost_request, []) else ([], [])), ssl_state = (\<lambda>_. ())\<rparr>,
     duty = (\<lambda>t. if t < 4 then Some (handlers ! t) else None), scratch = (\<lambda>_. page 1024 []),
     prepared_stmts = (\<lambda>_. no_statements), held = (\<lambda>_. None)\<rparr>"

definition lost_answer :: http_response_t where
  "lost_answer = fst (answer store_zlib [] [] (error_page 404)
     (planned_headers demo_site 0 demo_sha [''x'', [], [], []] (error_page 404) (zero_response\<lparr>status_code := 404\<rparr>)))"

lemma lost_request_reads: "reads_as lost_request zero_request
    (zero_request\<lparr>req_method := HTTP_GET, uri := [''x'', [], [], []], version := ''HTTP/1.1''\<rparr>)"
proof -
  have tok: "tokens crlf lost_request = [''GET /x HTTP/1.1'']"
    by (simp add: lost_request_def) (subst tokens.simps, simp add: strtok_r_def crlf_def code_def)+
  have rl: "request_line ''GET /x HTTP/1.1'' ''GET'' ''/x'' ''HTTP/1.1''"
    by (auto simp: request_line_def method_token_def version_token_def is_upper_def is_digit_def between_def code_def)
  have sl: "tokens slash ''/x'' = [''x'']" by (subst tokens.simps, simp add: strtok_r_def)+
  have get: "method_str_to_enum ''GET /x HTTP/1.1'' = HTTP_GET" by code_simp
  have "parse_control_data (Some ''GET /x HTTP/1.1'') zero_request =
      Inr (0, zero_request\<lparr>req_method := HTTP_GET, uri := [''x'', [], [], []], version := ''HTTP/1.1''\<rparr>)"
    using parse_control_data_match [OF rl, of zero_request] by (simp add: sl get zero_request_def)
  then show ?thesis by (simp add: reads_as_def tok)
qed

lemma chat_farm_wf: "cache_wf (the_cache (chat_farm s))"
  by (simp add: chat_farm_def cache_wf_def demo_world_def lockstep_def conn_table_def slots_def conn_at_def
      buffer_wf_def spare_def two_slots)

lemma chat_farm_jobs: "jobs (the_cache (chat_farm s)) =
    [\<lparr>j_slot = 0, j_fd = 2, j_marks = marks_of s, j_buffer = no_buffer, j_request = zero_request, j_response = zero_response\<rparr>,
     \<lparr>j_slot = 1, j_fd = 3, j_marks = marks_of 128, j_buffer = no_buffer, j_request = zero_request, j_response = zero_response\<rparr>]"
  by (simp add: chat_farm_def demo_world_def jobs_def job_at_def slots_def two_slots)

lemma marks_of_128: "WORK_STATUS_PROCESSING \<in> marks_of 128"
  by (simp add: marks_of_mem)

lemma chat_farm_alone: "alone 0 (jobs (the_cache (chat_farm s)) ! 0) (the_cache (chat_farm s))"
proof -
  have n: "session_count (the_cache (chat_farm s)) = 2" by (simp add: chat_farm_def demo_world_def)
  have "\<not> due st (jobs (the_cache (chat_farm s)) ! Suc 0)" for st
    using marks_of_128 by (simp add: chat_farm_jobs due_def)
  then show ?thesis unfolding alone_def n less_2_cases_iff using chat_farm_wf by auto
qed

lemma coding_none: "coding [] = []"
  by (simp add: coding_def strcasestr_def)

lemma answer_plain: "snd (answer Z [] [] doc h) = doc"
  by (simp add: answer_def coding_none encoded_def)

theorem request_served_witness:
  "\<exists>S'. (step chat_platform chat_site 5 (-1))\<^sup>*\<^sup>* (chat_farm 0) S' \<and>
    snd (bio_state (srv S') 2) = response_head lost_answer @ error_page 404"
proof -
  let ?q = "zero_request\<lparr>req_method := HTTP_GET, uri := [''x'', [], [], []], version := ''HTTP/1.1''\<rparr>"
  let ?j = "jobs (the_cache (chat_farm 0)) ! 0"
  have j: "?j = \<lparr>j_slot = 0, j_fd = 2, j_marks = {}, j_buffer = no_buffer, j_request = zero_request, j_response = zero_response\<rparr>"
    by (simp add: chat_farm_jobs marks_of_def)
  have idle: "idle_job ?j" unfolding j by (simp add: idle_job_def zero_request_def zero_response_def)
  have entry: "readable_entry chat_platform 5 (-1) 1 (j_fd ?j) (srv (chat_farm 0))"
    unfolding j by (simp add: readable_entry_def chat_farm_def chat_platform_def is_marked_def init_marked_fds_def marks_at_def)
  have none: "uri_to_file_name [''x'', [], [], []] = None"
    by (simp add: uri_to_file_name_def static_names_def strncmp_eq_def)
  have st: "404 = validate_request_headers (s_files chat_site) ?q"
    by (simp add: validate_request_headers_def refuses_def none zero_request_def)
  have doc: "plain_document (s_files chat_site) ?q 404 (error_page 404)" by (simp add: plain_document_def)
  have crew: "crew (chat_farm 0) 0 1 2 3"
    by (simp add: crew_def chat_farm_def handlers_def page_def buffer_wf_def)
  have req: "lost_request \<noteq> []" "length lost_request < 4096" "NUL \<notin> set lost_request"
    by (simp_all add: lost_request_def)
  have ans: "answer (s_zlib chat_site) (accept_encoding ?q) (if_none_match ?q) (error_page 404)
      (planned_headers (s_files chat_site) (s_now chat_site) (s_sha chat_site) (uri ?q) (error_page 404)
        ((j_response ?j)\<lparr>status_code := 404\<rparr>)) = (lost_answer, error_page 404)"
    unfolding j by (rule prod_eqI) (simp_all only: lost_answer_def chat_site_def zero_request_def answer_plain
      http_request_t.simps job.simps site.simps fst_conv snd_conv)
  have fit: "length (encoded (s_zlib chat_site) (coding (accept_encoding ?q)) (error_page 404))
      \<le> max (capacity (scratch (chat_farm 0) 2)) (length (error_page 404))" "length (error_page 404) < 2 ^ 28"
    using length_error_page [of 404]
    by (simp_all add: zero_request_def encoded_def coding_none)
  have "\<exists>S' j'. (step chat_platform chat_site 5 (-1))\<^sup>*\<^sup>* (chat_farm 0) S' \<and>
      snd (bio_state (srv S') (j_fd ?j)) = snd (bio_state (srv (chat_farm 0)) (j_fd ?j)) @ response_head lost_answer @ error_page 404 \<and>
      alone 0 j' (the_cache S') \<and> j_fd j' = j_fd ?j \<and> idle_job j' \<and> j_response j' = lost_answer"
  proof (rule request_served [where arrived = fst and i = 1 and req = lost_request and q = ?q and status = 404
        and a = 0 and b = 1 and c = 2 and d = 3, OF _ _ chat_farm_alone idle entry _ req _ _ _ st doc _ _ _ _ ans crew fit])
    show "bio_client (p_bio chat_platform) fst snd" using chat_bio_client by (simp add: chat_platform_def)
    show "alloc_ok (p_libc chat_platform) m" for m by (simp add: chat_platform_def)
    show "fst (bio_state (srv (chat_farm 0)) (j_fd ?j)) = lost_request" unfolding j by (simp add: chat_farm_def)
    show "reads_as lost_request (j_request ?j) ?q" unfolding j using lost_request_reads by simp
    show "zlib_laws (s_zlib chat_site)" by (simp add: chat_site_def store_zlib_laws)
    show "sha256_ok (s_sha chat_site)" by (simp add: chat_site_def sha256_ok_def demo_sha_def)
  qed (simp_all add: chat_site_def zero_request_def)
  then show ?thesis unfolding j by (auto simp: chat_farm_def)
qed

section \<open>When the client goes away\<close>

lemma recv_bio_closed:
  assumes mem: "\<And>m. alloc_ok L m" and wf: "buffer_wf b"
    and empty: "count b = 0" "capacity b = 0 \<and> data b = None \<or> capacity b = 1024"
    and closed: "\<And>k. BIO_read B s k = (0, [], s')"
  shows "\<exists>b'. recv_bio L B s b = Inr (1, s', b') \<and> buffer_wf b' \<and> count b' = 1 \<and> take 1 (bytes b') = [NUL] \<and> data b' \<noteq> None"
proof -
  have small: "capacity b < 2 ^ 31" using empty(2) by auto
  have c: "unat ((0 :: 8 word) + 1) * DEFAULT_BUFFER_SIZE = 1024" by simp
  obtain b1 where b1: "assert_capacity L b 1024 = Inr b1"
    using assert_capacity_returns [OF mem wf small, of 1024] by auto
  note b1s = assert_capacity_Inr [OF wf b1]
  obtain b2 where b2: "write_bytes (count b1) [] b1 = Inr b2"
    using write_bytes_returns [OF b1s(1,6), of "count b1" "[]"] b1s(2,4) empty(1) by auto
  note b2s = write_bytes_Inr [OF b1s(1) b2]
  have cap: "0 < capacity b2" "count b2 = 0" using b1s(4,6) b2s(2,3) empty(1) by simp_all
  obtain b3 where b3: "write_bytes 0 [NUL] b2 = Inr b3"
    using write_bytes_returns [OF b2s(1) cap(1), of 0 "[NUL]"] cap(1) by auto
  note b3s = write_bytes_Inr [OF b2s(1) b3]
  have loop: "recv_loop L B 0 s b = Some (Inr (0, s', b2))"
    by (subst recv_loop.simps) (simp only: c b1 sum.case closed prod.case b2, simp)
  let ?b = "b3\<lparr>count := 1\<rparr>"
  have "data b = None \<or> 0 < capacity b" using empty(2) by auto
  then have "recv_bio L B s b = Inr (1, s', ?b)"
    using loop b3 cap(2) by (simp add: recv_bio_def to_int32_def)
  moreover have "buffer_wf ?b" using b3s(1,2) cap(1) by (auto simp: buffer_wf_def split: option.splits)
  moreover have "take 1 (bytes ?b) = [NUL]" using b3s(4) by (simp add: bytes_def)
  moreover have "data ?b \<noteq> None" using b3 by (auto simp: write_bytes_def split: option.splits)
  ultimately show ?thesis by (intro exI [of _ ?b]) simp
qed

lemma parser_work_empty:
  assumes mem: "\<And>m. alloc_ok L m" and b: "buffer_wf b" "count b = 1" "take 1 (bytes b) = [NUL]" "data b \<noteq> None"
  shows "parser_work L F b q s = Inl (Null_pointer ''regexec'')"
proof -
  obtain d where d: "data b = Some d" using b(4) by blast
  then have "request_text b []"
    using b by (auto simp: request_text_def bytes_def buffer_wf_def cstr_def)
  then have "parse_http_request L b q = Inl (Null_pointer ''regexec'')"
    using parse_http_request_lines [OF _ mem] by (simp add: tokens.simps strtok_r_def)
  then show ?thesis by (simp add: parser_work_def)
qed

text \<open>
  C38: A closed connection. When the client of an idle session closes the connection, \<open>BIO_read\<close>
  returns 0, and \<open>recv_bio\<close> stores an empty text of one byte: the listener takes it for a request.
  The next parser finds no line in it and hands a null pointer to \<open>regexec\<close>.
\<close>

theorem closed_connection_crashes:
  assumes mem: "\<And>m. alloc_ok (p_libc P) m"
    and j: "alone k j (the_cache S)" "idle_job j" and e: "readable_entry P l ls i (j_fd j) (srv S)"
    and closed: "\<And>n. BIO_read (p_bio P) (bio_state (srv S) (j_fd j)) n = (0, [], s')"
    and a: "duty S a = Some handle_a" "held S a = None"
  shows "\<exists>S' r. (step P X l ls)\<^sup>*\<^sup>* S S' \<and> held S' a = Some r \<and>
    finish_session P X a handle_a r S' = Inl (Null_pointer ''regexec'')"
proof -
  have bwf: "buffer_wf (j_buffer j)" by (rule alone_objects(5) [OF j(1)])
  have "\<exists>b'. recv_bio (p_libc P) (p_bio P) (bio_state (srv S) (j_fd j)) (j_buffer j) = Inr (1, s', b') \<and>
      buffer_wf b' \<and> count b' = 1 \<and> take 1 (bytes b') = [NUL] \<and> data b' \<noteq> None"
    by (rule recv_bio_closed [OF mem bwf _ _ closed]) (use j(2) in \<open>simp_all add: idle_job_def\<close>)
  then obtain b where b: "recv_bio (p_libc P) (p_bio P) (bio_state (srv S) (j_fd j)) (j_buffer j) = Inr (1, s', b)"
    "buffer_wf b" "count b = 1" "take 1 (bytes b) = [NUL]" "data b \<noteq> None" by blast
  let ?j = "j\<lparr>j_marks := insert WORK_STATUS_REQUEST_READ (j_marks j), j_buffer := b\<rparr>"
  obtain S1 where S1: "step P X l ls S S1" "alone k ?j (the_cache S1)" "duty S1 = duty S" "held S1 = held S"
    by (rule read_step [OF j e b(1) _ b(2)]) auto
  have due: "due (work_stage handle_a) ?j" using j(2) by (auto simp: due_def idle_job_def)
  have t: "duty S1 a = Some handle_a" "held S1 a = None" using S1(3,4) a by simp_all
  obtain r S2 where S2: "step P X l ls S1 S2" "holding a k r (take_job ?j) S2"
    by (rule take_step [OF S1(2) due t]) auto
  have al: "alone k (take_job ?j) (the_cache S2)" and h: "held S2 a = Some r"
    and r: "points_to r (take_job ?j) (ssl_array (the_cache S2) \<noteq> None)"
    using S2(2) by (simp_all add: holding_def)
  have "parser_work (p_libc P) (s_files X) b (j_request j) (j_response j) = Inl (Null_pointer ''regexec'')"
    by (rule parser_work_empty [OF mem b(2-5)])
  then have "finish_session P X a handle_a r S2 = Inl (Null_pointer ''regexec'')"
    using alone_objects [OF al] r by (simp add: finish_session_def points_to_def take_job_def Let_def)
  then show ?thesis using steps_two [OF S1(1) S2(1)] h by blast
qed

text \<open>A client that has closed its end of the connection.\<close>

abbreviation closed_platform :: "(string \<times> string, unit) platform" where
  "closed_platform \<equiv> chat_platform\<lparr>p_bio := chat_bio\<lparr>BIO_read := (\<lambda>s n. (0, [], s))\<rparr>\<rparr>"

lemma chat_job: "jobs (the_cache (chat_farm 0)) ! 0 =
    \<lparr>j_slot = 0, j_fd = 2, j_marks = {}, j_buffer = no_buffer, j_request = zero_request, j_response = zero_response\<rparr>"
  by (simp add: chat_farm_jobs marks_of_def)

lemma chat_idle: "idle_job (jobs (the_cache (chat_farm 0)) ! 0)"
  unfolding chat_job by (simp add: idle_job_def zero_request_def zero_response_def)

theorem closed_connection_crashes_witness:
  "\<exists>S' r. (step closed_platform chat_site 5 (-1))\<^sup>*\<^sup>* (chat_farm 0) S' \<and> held S' 0 = Some r \<and>
    finish_session closed_platform chat_site 0 handle_a r S' = Inl (Null_pointer ''regexec'')"
proof (rule closed_connection_crashes [OF _ chat_farm_alone chat_idle, where i = 1 and s' = "(lost_request, [])"])
  show "readable_entry closed_platform 5 (-1) 1 (j_fd (jobs (the_cache (chat_farm 0)) ! 0)) (srv (chat_farm 0))"
    unfolding chat_job
    by (simp add: readable_entry_def chat_farm_def chat_platform_def is_marked_def init_marked_fds_def marks_at_def)
  show "BIO_read (p_bio closed_platform) (bio_state (srv (chat_farm 0)) (j_fd (jobs (the_cache (chat_farm 0)) ! 0))) n
      = (0, [], (lost_request, []))" for n
    unfolding chat_job by (simp add: chat_platform_def chat_farm_def)
qed (simp_all add: chat_platform_def chat_farm_def handlers_def)

text \<open>
  An error on an idle connection, such as a reset by its peer. \<open>ppoll\<close> reports \<open>POLLERR\<close>, and for
  every error but three the listener rejects the session; but nobody holds it, so the assertion of
  \<open>push_request\<close> fails and the server ends.
\<close>

lemma idle_error_aborts:
  assumes wf: "cache_wf (cache (sw W))" and k: "k < session_count (cache (sw W))"
    and idle: "WORK_STATUS_PROCESSING \<notin> j_marks (jobs (cache (sw W)) ! k)"
    and xs: "fds (polls W) = Some xs" "i < length xs" "fd (xs ! i) = j_fd (jobs (cache (sw W)) ! k)"
    and ev: "revents (xs ! i) AND POLLERR \<noteq> 0" and code: "p_errno P \<notin> {EFAULT, EINTR, EINVAL}"
    and m: "is_marked (fd (xs ! i)) (marked_fds (sw W)) = Inr False"
  shows "listen_entry P l ls i W = Inl (Assert_failed ''*status_array[i] & WORK_STATUS_PROCESSING'')"
proof -
  have fd: "fd_at k (cache (sw W)) = fd (xs ! i)" using fd_at_job [OF wf k] xs(3) by simp
  have np: "\<not> has_status (status_at k (cache (sw W))) WORK_STATUS_PROCESSING"
    using idle by (simp add: has_status_marks status_at_job [OF wf k])
  have "push P (fd (xs ! i)) WORK_STATUS_REJECTED W = Inl (Assert_failed ''*status_array[i] & WORK_STATUS_PROCESSING'')"
    using push_request_unowned [OF wf k fd np] by (simp add: push_def)
  moreover have "classify_poll_error (p_errno P) = REMOVE_FD" using code by (simp add: classify_poll_error_def)
  ultimately show ?thesis using xs(1,2) ev m by (simp add: listen_entry_def reject_entry_def Let_def)
qed

text \<open>
  C39: A plain response whose socket is full. \<open>BIO_should_retry\<close> gives the flag 8 for "try again", the
  sender compares it with 1, and so it rejects the session: the connection is closed in the middle of
  the response.
\<close>

theorem blocked_send_rejected:
  assumes q: "\<not> is_ssl q" and b: "buffer_wf b" "count b = length doc" "take (count b) (bytes b) = doc" "doc \<noteq> []" "length doc < 2 ^ 31"
    and w: "BIO_write B bs doc = (-1, bs')" "BIO_should_retry B bs' = 8"
  shows "sender_work B T q b tls bs ps = Inr (WORK_STATUS_REJECTED, b, bs', ps)"
proof -
  have "send_bio B bs b = Inr (-1, bs')" by (rule send_bio_value [OF b w(1)]) simp
  then show ?thesis using q b(2,5) w(2) by (simp add: sender_work_def after_send_def to_uint64_def)
qed

theorem blocked_send_rejected_witness:
  "sender_work (chat_bio\<lparr>BIO_write := (\<lambda>s xs. (-1, s))\<rparr>) fresh_ssl zero_request (page 64 ''HTTP/1.1 200 OK'') False ([], []) ()
    = Inr (WORK_STATUS_REJECTED, page 64 ''HTTP/1.1 200 OK'', ([], []), ())"
  by (rule blocked_send_rejected [where doc = "''HTTP/1.1 200 OK''"])
    (simp_all add: page_def buffer_wf_def bytes_def chat_bio_def zero_request_def)

end
