(* ===== verification/Configuration.thy ===== *)
theory Configuration
  imports Properties Numerals Buffer
begin

text \<open>
  \<^verbatim>\<open>src/properties.c\<close>: how the configuration is read, first from the arguments of the program and
  then from the properties file. What is done is noted in \<open>log_buffer\<close>, a local array of 4097 bytes,
  with one \<open>snprintf\<close> per note. The files are arguments: which paths exist (\<open>access\<close>) and the text
  \<open>fopen\<close> finds. The state is the configuration and the notes.
\<close>

section \<open>Notes and values\<close>

abbreviation LOG_BUFFER_SIZE :: nat where "LOG_BUFFER_SIZE \<equiv> 4096"
abbreviation NEWLINE :: char where "NEWLINE \<equiv> CHR 0x0A"

type_synonym reading = "properties \<times> string"

definition atoi :: "string \<Rightarrow> int" where
  "atoi s = to_int32 (strtol10 s)"

text \<open>
  \<open>snprintf(log_buffer + log_buffer_offset, LOG_BUFFER_SIZE - log_buffer_offset, ...)\<close>. The offset grows
  by the length of the whole text, cut off or not; beyond the end the room left is a negative number,
  converted to a huge \<open>size_t\<close>.
\<close>

definition noted :: "string \<Rightarrow> reading \<Rightarrow> reading result" where
  "noted m st = in_bounds ''log_buffer'' (length (snd st) \<le> LOG_BUFFER_SIZE) (Inr (fst st, snd st @ m @ [NEWLINE]))"

text \<open>\<open>argv[i + 1]\<close>, which is \<open>NULL\<close> behind the last argument, as the argument of a function.\<close>

definition with_value :: "string \<Rightarrow> string option \<Rightarrow> (string \<Rightarrow> 'a result) \<Rightarrow> 'a result" where
  "with_value f v k = (case v of None \<Rightarrow> Inl (Null_pointer f) | Some s \<Rightarrow> k s)"

definition port_ok :: "string \<Rightarrow> bool" where
  "port_ok v \<longleftrightarrow> 0 < atoi v \<and> atoi v < 65536"

definition known_level :: "string \<Rightarrow> bool" where
  "known_level v \<longleftrightarrow> strcasecmp_eq v ''TRACE'' \<or> strcasecmp_eq v ''DEBUG'' \<or> strcasecmp_eq v ''INFO'' \<or>
     strcasecmp_eq v ''WARN'' \<or> strcasecmp_eq v ''ERROR'' \<or> strcasecmp_eq v ''FATAL''"

definition set_log_level :: "string \<Rightarrow> properties \<Rightarrow> properties" where
  "set_log_level v p =
     (if strcasecmp_eq v ''TRACE'' then p\<lparr>log_level := 0\<rparr>
      else if strcasecmp_eq v ''DEBUG'' then p\<lparr>log_level := 1\<rparr>
      else if strcasecmp_eq v ''INFO'' then p\<lparr>log_level := 2\<rparr>
      else if strcasecmp_eq v ''WARN'' then p\<lparr>log_level := 3\<rparr>
      else if strcasecmp_eq v ''ERROR'' then p\<lparr>log_level := 4\<rparr>
      else p)"

definition known_type :: "string \<Rightarrow> bool" where
  "known_type v \<longleftrightarrow> strcasecmp_eq v ''CONSOLE_ONLY'' \<or> strcasecmp_eq v ''FILE_ONLY'' \<or> strcasecmp_eq v ''CONSOLE_FILE''"

definition set_log_type :: "string \<Rightarrow> properties \<Rightarrow> properties" where
  "set_log_type v p =
     (if strcasecmp_eq v ''CONSOLE_ONLY'' then p\<lparr>log_type := 0\<rparr>
      else if strcasecmp_eq v ''FILE_ONLY'' then p\<lparr>log_type := 1\<rparr>
      else if strcasecmp_eq v ''CONSOLE_FILE'' then p\<lparr>log_type := 2\<rparr>
      else p)"

section \<open>The arguments\<close>

text \<open>The body of the loop over \<open>argv\<close>; \<open>i + 1 <= argc\<close> holds in every round.\<close>

definition parse_arg :: "(string \<Rightarrow> bool) \<Rightarrow> string \<Rightarrow> string option \<Rightarrow> reading \<Rightarrow> reading result" where
  "parse_arg exists a value st =
     (let p = fst st; lg = snd st in
      if strcasecmp_eq a ''-p'' \<or> strcasecmp_eq a ''--port''
      then with_value ''atoi'' value (\<lambda>v.
           assert_that ''atoi(argv[i + 1]) > 0 && atoi(argv[i + 1]) < 65536'' (port_ok v) (
           in_bounds ''http_port'' (length v < 5) (
           noted (''Port from args: '' @ v) (p\<lparr>http_port := v\<rparr>, lg))))
      else if strcasecmp_eq a ''-e'' \<or> strcasecmp_eq a ''--environment''
      then with_value ''strcasecmp'' value (\<lambda>v.
           assert_that ''strcasecmp(argv[i + 1], dev) == 0 || strcasecmp(argv[i + 1], prod) == 0 || strcasecmp(argv[i + 1], test) == 0''
             (strcasecmp_eq v ''dev'' \<or> strcasecmp_eq v ''prod'' \<or> strcasecmp_eq v ''test'') (
           in_bounds ''env'' (length v < 4) (
           noted (''Environment from args: '' @ v) (p\<lparr>env := v\<rparr>, lg))))
      else if strcasecmp_eq a ''--properties''
      then with_value ''access'' value (\<lambda>v.
           assert_that ''access(argv[i + 1], F_OK) == 0'' (exists v) (
           in_bounds ''properties_file'' (length v < 200) (
           noted (''Properties file from args: '' @ v) (p\<lparr>properties_file := v\<rparr>, lg))))
      else if strcasecmp_eq a ''--log-file''
      then with_value ''strcpy'' value (\<lambda>v.
           in_bounds ''log_file'' (length v < 200) (
           noted (''Log file from args: '' @ v) (p\<lparr>log_file := v\<rparr>, lg)))
      else if strcasecmp_eq a ''--log-level''
      then with_value ''strcasecmp'' value (\<lambda>v.
           assert_that ''strcasecmp(argv[i + 1], TRACE) == 0 || ...'' (known_level v) (
           let p1 = set_log_level v p in
           noted (''Log level from args: '' @ show_int (log_level p1)) (p1, lg)))
      else if strcasecmp_eq a ''--log-type''
      then with_value ''strcasecmp'' value (\<lambda>v.
           assert_that ''strcasecmp(argv[i + 1], CONSOLE_ONLY) == 0 || ...'' (known_type v) (
           let p1 = set_log_type v p in
           noted (''Log type from args: '' @ show_int (log_type p1)) (p1, lg)))
      else if strcasecmp_eq a ''--reset-db'' then Inr (p\<lparr>reset_db := True\<rparr>, lg)
      else if strcasecmp_eq a ''--enable-https'' then noted ''Enabling HTTPS'' (p\<lparr>enable_https := True\<rparr>, lg)
      else Inr st)"

fun parse_args :: "(string \<Rightarrow> bool) \<Rightarrow> string list \<Rightarrow> reading \<Rightarrow> reading result" where
  "parse_args exists [] st = Inr st"
| "parse_args exists (a # rest) st =
     and_then (parse_arg exists a (case rest of [] \<Rightarrow> None | v # _ \<Rightarrow> Some v) st) (parse_args exists rest)"

section \<open>The properties file\<close>

text \<open>The lines \<open>getline\<close> returns, with their newline character where there is one.\<close>

function getlines :: "string \<Rightarrow> string list" where
  "getlines s =
     (if s = [] then []
      else case dropWhile (\<lambda>c. c \<noteq> NEWLINE) s of
        [] \<Rightarrow> [s]
      | _ # r \<Rightarrow> (takeWhile (\<lambda>c. c \<noteq> NEWLINE) s @ [NEWLINE]) # getlines r)"
  by pat_completeness auto
termination
proof (relation "measure length")
  fix s r :: string and c
  assume "dropWhile (\<lambda>c. c \<noteq> NEWLINE) s = c # r"
  then show "(r, s) \<in> measure length"
    using length_dropWhile_le [of "\<lambda>c. c \<noteq> NEWLINE" s] by simp
qed simp

declare getlines.simps [simp del]

text \<open>
  The body of the loop over the lines. The last character is overwritten by NUL, whether it is a
  newline or not; \<open>line + n\<close> is read up to the next NUL. The name \<open>cert_chain_file\<close> has 15 characters and
  16 are compared, so only a line with nothing else passes; \<open>line + 17\<close> is then behind what
  \<open>getline\<close> has stored.
\<close>

definition line_key :: "string \<Rightarrow> string \<Rightarrow> bool" where
  "line_key line key \<longleftrightarrow> strncasecmp_eq (cstr (butlast line)) key (length key)"

definition line_value :: "nat \<Rightarrow> string \<Rightarrow> string" where
  "line_value n line = cstr (drop n (butlast line @ [NUL, NUL]))"

definition parse_line :: "string \<Rightarrow> reading \<Rightarrow> reading result" where
  "parse_line line st =
     (let p = fst st; lg = snd st in
      if line_key line ''session_max_size''
      then let v = line_value 17 line in
           assert_that ''atoi(line + 17) > 0 && atoi(line + 17) < 65536'' (port_ok v) (
           noted (''Session max size: '' @ show_int (atoi v)) (p\<lparr>session_max_size := nat (atoi v)\<rparr>, lg))
      else if line_key line ''worker_thread_max_size''
      then let v = line_value 23 line in
           assert_that ''atoi(line + 23) > 0 && atoi(line + 23) < 65536'' (port_ok v) (
           noted (''Worker thread max size: '' @ show_int (atoi v)) (p\<lparr>worker_thread_max_size := nat (atoi v)\<rparr>, lg))
      else if line_key line ''listen_backlog_max_size''
      then let v = line_value 24 line in
           assert_that ''atoi(line + 24) > 0 && atoi(line + 24) < 65536'' (port_ok v) (
           noted (''Listen backlog max size: '' @ show_int (atoi v)) (p\<lparr>listen_backlog_max_size := nat (atoi v)\<rparr>, lg))
      else if line_key line ''http_port''
      then let v = line_value 10 line in
           assert_that ''atoi(line + 10) > 0 && atoi(line + 10) < 65536'' (port_ok v) (
           in_bounds ''http_port'' (length v < 5) (
           noted (''HTTP port: '' @ v) (p\<lparr>http_port := v\<rparr>, lg)))
      else if line_key line ''env''
      then let v = line_value 4 line in
           assert_that ''strncasecmp(line + 4, dev, 3) == 0 || strncasecmp(line + 4, prod, 4) == 0 || strncasecmp(line + 4, test, 4) == 0''
             (strncasecmp_eq v ''dev'' 3 \<or> strncasecmp_eq v ''prod'' 4 \<or> strncasecmp_eq v ''test'' 4) (
           in_bounds ''env'' (length v < 4) (
           noted (''Environment: '' @ v) (p\<lparr>env := v\<rparr>, lg)))
      else if line_key line ''log_file''
      then let v = line_value 9 line in
           in_bounds ''log_file'' (length v < 200) (
           noted (''Log file: '' @ v) (p\<lparr>log_file := v\<rparr>, lg))
      else if line_key line ''log_level''
      then let v = line_value 10 line in
           assert_that ''strcasecmp(line + 10, TRACE) == 0 || ...'' (known_level v) (
           let p1 = set_log_level v p in
           noted (''Log level: '' @ show_int (log_level p1)) (p1, lg))
      else if line_key line ''log_type''
      then let v = line_value 9 line in
           assert_that ''strcasecmp(line + 9, CONSOLE_ONLY) == 0 || ...'' (known_type v) (
           let p1 = set_log_type v p in
           noted (''Log type: '' @ show_int (log_type p1)) (p1, lg))
      else if strncasecmp_eq (cstr (butlast line)) ''cert_chain_file'' 16 then Inl (Out_of_bounds ''line'')
      else if line_key line ''private_key_file''
      then let v = line_value 17 line in
           in_bounds ''private_key_file'' (length v < 200) (
           noted (''Private key file: '' @ v) (p\<lparr>private_key_file := v\<rparr>, lg))
      else if line_key line ''enable_https''
      then let on = (0 < atoi (line_value 13 line)) in
           noted (''Enable HTTPS: '' @ (if on then ''1'' else ''0'')) (p\<lparr>enable_https := on\<rparr>, lg)
      else Inr st)"

fun parse_lines_of :: "string list \<Rightarrow> reading \<Rightarrow> reading result" where
  "parse_lines_of [] st = Inr st"
| "parse_lines_of (l # ls) st = and_then (parse_line l st) (parse_lines_of ls)"

section \<open>Start\<close>

text \<open>The configuration and what is printed.\<close>

definition init_properties :: "(string \<Rightarrow> bool) \<Rightarrow> (string \<Rightarrow> string option) \<Rightarrow> string list \<Rightarrow>
    (properties \<times> string) result" where
  "init_properties exists fopen argv =
     and_then (if 1 < length argv
               then noted (''Running with '' @ show_nat (length argv) @ '' arguments'') (default_properties, [])
               else Inr (default_properties, [])) (\<lambda>st0.
     and_then (parse_args exists (tl argv) st0) (\<lambda>st1.
     and_then (case fopen (properties_file (fst st1)) of
        Some text \<Rightarrow> and_then (noted (''Using properties file: '' @ properties_file (fst st1)) st1) (parse_lines_of (getlines text))
      | None \<Rightarrow> noted (''Failed to find properties file, using default values with port '' @ http_port (fst st1) @
          '' and environment '' @ env (fst st1)) st1) (\<lambda>(p, lg).
     Inr (p, if strcasecmp_eq (env p) ''dev'' then take (LOG_BUFFER_SIZE - 1) lg else []))))"

text \<open>\<open>set_env\<close>: its parameter hides the variable, so the string is copied onto itself.\<close>

definition set_env :: "string \<Rightarrow> properties \<Rightarrow> properties result" where
  "set_env v p =
     assert_that ''strncasecmp(env, dev, 3) == 0 || strncasecmp(env, prod, 4) == 0 || strncasecmp(env, test, 4) == 0''
       (strncasecmp_eq v ''dev'' 3 \<or> strncasecmp_eq v ''prod'' 4 \<or> strncasecmp_eq v ''test'' 4) (Inr p)"

section \<open>What a configuration looks like\<close>

definition config_wf :: "properties \<Rightarrow> bool" where
  "config_wf p \<longleftrightarrow>
     0 < session_max_size p \<and> session_max_size p < 65536 \<and>
     0 < worker_thread_max_size p \<and> worker_thread_max_size p < 65536 \<and>
     0 < listen_backlog_max_size p \<and> listen_backlog_max_size p < 65536 \<and>
     length (http_port p) < 5 \<and> port_ok (http_port p) \<and> https_port p = ''8443'' \<and>
     strcasecmp_eq (env p) ''dev'' \<and> log_level p \<in> {0..4} \<and> log_type p \<in> {0..2} \<and>
     length (log_file p) < 200 \<and> length (properties_file p) < 200 \<and> cert_file p = cert_file default_properties \<and>
     length (private_key_file p) < 200 \<and> db_url p = db_url default_properties"

lemma noted_Inr [simp]: "noted m st = Inr st' \<longleftrightarrow> length (snd st) \<le> LOG_BUFFER_SIZE \<and> st' = (fst st, snd st @ m @ [NEWLINE])"
  by (auto simp: noted_def)

lemma with_value_Inr [simp]: "with_value f v k = Inr x \<longleftrightarrow> (\<exists>s. v = Some s \<and> k s = Inr x)"
  by (simp add: with_value_def split: option.split)

lemma dev_only:
  assumes "length v < 4" and "strncasecmp_eq v ''dev'' 3 \<or> strncasecmp_eq v ''prod'' 4 \<or> strncasecmp_eq v ''test'' 4"
  shows "strcasecmp_eq v ''dev''"
  using assms(2)
proof (elim disjE)
  assume "strncasecmp_eq v ''dev'' 3"
  then show ?thesis using assms(1) by (simp add: strncasecmp_eq_def strcasecmp_eq_def)
next
  assume "strncasecmp_eq v ''prod'' 4"
  then have "length (map tolower (take 4 v)) = length (map tolower (take 4 ''prod''))"
    unfolding strncasecmp_eq_def by (rule arg_cong)
  then show ?thesis using assms(1) by simp
next
  assume "strncasecmp_eq v ''test'' 4"
  then have "length (map tolower (take 4 v)) = length (map tolower (take 4 ''test''))"
    unfolding strncasecmp_eq_def by (rule arg_cong)
  then show ?thesis using assms(1) by simp
qed

lemma dev_only_arg:
  assumes "length v < 4" and "strcasecmp_eq v ''dev'' \<or> strcasecmp_eq v ''prod'' \<or> strcasecmp_eq v ''test''"
  shows "strcasecmp_eq v ''dev''"
  using assms by (auto simp: strcasecmp_eq_def dest: arg_cong [of _ _ length])

lemma config_wf_level: "config_wf p \<Longrightarrow> config_wf (set_log_level v p)"
  by (simp add: config_wf_def set_log_level_def)

lemma config_wf_type: "config_wf p \<Longrightarrow> config_wf (set_log_type v p)"
  by (simp add: config_wf_def set_log_type_def)

lemma config_wf_updates:
  assumes "config_wf p"
  shows "port_ok v \<Longrightarrow> length v < 5 \<Longrightarrow> config_wf (p\<lparr>http_port := v\<rparr>)"
    and "strcasecmp_eq v ''dev'' \<Longrightarrow> config_wf (p\<lparr>env := v\<rparr>)"
    and "length v < 200 \<Longrightarrow> config_wf (p\<lparr>properties_file := v\<rparr>)"
    and "length v < 200 \<Longrightarrow> config_wf (p\<lparr>log_file := v\<rparr>)"
    and "length v < 200 \<Longrightarrow> config_wf (p\<lparr>private_key_file := v\<rparr>)"
    and "config_wf (p\<lparr>reset_db := b\<rparr>)" and "config_wf (p\<lparr>enable_https := b\<rparr>)"
    and "port_ok v \<Longrightarrow> config_wf (p\<lparr>session_max_size := nat (atoi v)\<rparr>)"
    and "port_ok v \<Longrightarrow> config_wf (p\<lparr>worker_thread_max_size := nat (atoi v)\<rparr>)"
    and "port_ok v \<Longrightarrow> config_wf (p\<lparr>listen_backlog_max_size := nat (atoi v)\<rparr>)"
  using assms by (simp_all add: config_wf_def port_ok_def nat_less_iff)

lemma parse_arg_wf: "parse_arg ex a v st = Inr st' \<Longrightarrow> config_wf (fst st) \<Longrightarrow> config_wf (fst st')"
  unfolding parse_arg_def Let_def
  by (auto simp: config_wf_updates config_wf_level config_wf_type dev_only_arg split: if_splits)

lemma parse_args_wf: "parse_args ex as st = Inr st' \<Longrightarrow> config_wf (fst st) \<Longrightarrow> config_wf (fst st')"
  by (induction as arbitrary: st) (auto dest: parse_arg_wf)

lemma parse_line_wf: "parse_line l st = Inr st' \<Longrightarrow> config_wf (fst st) \<Longrightarrow> config_wf (fst st')"
  unfolding parse_line_def Let_def
  by (auto simp: config_wf_updates config_wf_level config_wf_type dev_only split: if_splits)

lemma parse_lines_wf: "parse_lines_of ls st = Inr st' \<Longrightarrow> config_wf (fst st) \<Longrightarrow> config_wf (fst st')"
  by (induction ls arbitrary: st) (auto dest: parse_line_wf)

lemmas char_simps = is_space_def is_digit_def is_upper_def tolower_def between_def code_def

lemma port_ok_80: "port_ok ''80''" and port_ok_8080: "port_ok ''8080''" and port_ok_8081: "port_ok ''8081''" and atoi_one: "atoi ''1'' = 1"
  by (simp_all add: port_ok_def atoi_def strtol10_def digits_value_def char_simps to_int32_def)

lemma default_wf: "config_wf default_properties"
  using port_ok_8080 by (simp add: config_wf_def default_properties_def strcasecmp_eq_def)

section \<open>Facts about files\<close>

lemma getlines_Nil [simp]: "getlines [] = []"
  by (simp add: getlines.simps)

lemma getlines_line:
  assumes "NEWLINE \<notin> set l"
  shows "getlines (l @ NEWLINE # r) = (l @ [NEWLINE]) # getlines r"
proof -
  have "dropWhile (\<lambda>c. c \<noteq> NEWLINE) (l @ NEWLINE # r) = NEWLINE # r"
    using assms by (subst dropWhile_append2) auto
  moreover have "takeWhile (\<lambda>c. c \<noteq> NEWLINE) (l @ NEWLINE # r) = l"
    using assms by (subst takeWhile_append2) auto
  ultimately show ?thesis by (subst getlines.simps) simp
qed

lemma parse_lines_append: "parse_lines_of (xs @ ys) st = and_then (parse_lines_of xs st) (parse_lines_of ys)"
proof (induction xs arbitrary: st)
  case (Cons x xs)
  then show ?case by (cases "parse_line x st") simp_all
qed simp

lemma port_kept:
  assumes "\<not> line_key l ''http_port''" and "parse_line l st = Inr st'"
  shows "http_port (fst st') = http_port (fst st)"
  using assms(2) unfolding parse_line_def Let_def
  by (auto simp: assms(1) set_log_level_def set_log_type_def split: if_splits)

lemma port_kept_lines:
  "\<forall>l \<in> set ls. \<not> line_key l ''http_port'' \<Longrightarrow> parse_lines_of ls st = Inr st' \<Longrightarrow>
    http_port (fst st') = http_port (fst st)"
  by (induction ls arbitrary: st) (auto dest: port_kept)

lemma cstr_plain: "NUL \<notin> set s \<Longrightarrow> cstr (s @ NUL # r) = s"
  unfolding cstr_def by (subst takeWhile_append2) auto

lemma cstr_all: "NUL \<notin> set s \<Longrightarrow> cstr s = s"
  unfolding cstr_def by (auto simp: takeWhile_eq_all_conv)

lemma port_line:
  assumes "NUL \<notin> set v"
  shows "parse_line (''http_port='' @ v @ [NEWLINE]) st = assert_that ''atoi(line + 10) > 0 && atoi(line + 10) < 65536''
    (port_ok v) (in_bounds ''http_port'' (length v < 5) (noted (''HTTP port: '' @ v) ((fst st)\<lparr>http_port := v\<rparr>, snd st)))"
proof -
  let ?l = "''http_port='' @ v @ [NEWLINE]"
  have b: "butlast ?l = ''http_port='' @ v" by (simp add: butlast_append)
  have c: "cstr (butlast ?l) = ''http_port='' @ v"
    unfolding b using assms by (intro cstr_all) simp
  have k: "line_key ?l ''session_max_size'' = False" "line_key ?l ''worker_thread_max_size'' = False"
    "line_key ?l ''listen_backlog_max_size'' = False" "line_key ?l ''http_port'' = True"
    unfolding line_key_def c strncasecmp_eq_def by (simp_all add: tolower_def is_upper_def between_def code_def)
  have v: "line_value 10 ?l = v"
    unfolding line_value_def b using cstr_plain [OF assms, of "[NUL]"] by simp
  show ?thesis by (simp only: parse_line_def k v Let_def if_False if_True)
qed

text \<open>A size written with spaces around the equals sign, as the README does, stops the server.\<close>

lemma spaced_size_aborts:
  "parse_line (''session_max_size = 64'' @ [NEWLINE]) st = Inl (Assert_failed ''atoi(line + 17) > 0 && atoi(line + 17) < 65536'')"
proof -
  have "line_key (''session_max_size = 64'' @ [NEWLINE]) ''session_max_size'' = True"
    by (simp add: line_key_def strncasecmp_eq_def cstr_def char_simps)
  moreover have "line_value 17 (''session_max_size = 64'' @ [NEWLINE]) = ''= 64''"
    by (simp add: line_value_def cstr_def)
  moreover have "port_ok ''= 64'' = False"
    by (simp add: port_ok_def atoi_def strtol10_def digits_value_def char_simps to_int32_def)
  ultimately show ?thesis by (simp add: parse_line_def Let_def)
qed

section \<open>Properties\<close>

lemma init_propertiesE:
  assumes "init_properties exists fopen argv = Inr (p, out)"
  obtains st0 st1 st2 where
    "st0 = (default_properties, if 1 < length argv then ''Running with '' @ show_nat (length argv) @ '' arguments'' @ [NEWLINE] else [])"
    and "parse_args exists (tl argv) st0 = Inr st1"
    and "(case fopen (properties_file (fst st1)) of
        Some file \<Rightarrow> and_then (noted (''Using properties file: '' @ properties_file (fst st1)) st1) (parse_lines_of (getlines file))
      | None \<Rightarrow> noted (''Failed to find properties file, using default values with port '' @ http_port (fst st1) @
          '' and environment '' @ env (fst st1)) st1) = Inr st2"
    and "p = fst st2" and "out = (if strcasecmp_eq (env p) ''dev'' then take (LOG_BUFFER_SIZE - 1) (snd st2) else [])"
proof -
  obtain st0 st1 st2 where r: "(if 1 < length argv then noted (''Running with '' @ show_nat (length argv) @ '' arguments'') (default_properties, [])
        else Inr (default_properties, [])) = Inr st0"
    "parse_args exists (tl argv) st0 = Inr st1"
    "(case fopen (properties_file (fst st1)) of
        Some file \<Rightarrow> and_then (noted (''Using properties file: '' @ properties_file (fst st1)) st1) (parse_lines_of (getlines file))
      | None \<Rightarrow> noted (''Failed to find properties file, using default values with port '' @ http_port (fst st1) @
          '' and environment '' @ env (fst st1)) st1) = Inr st2"
    "(case st2 of (p, lg) \<Rightarrow> Inr (p, if strcasecmp_eq (env p) ''dev'' then take (LOG_BUFFER_SIZE - 1) lg else [])) = (Inr (p, out) :: reading result)"
    using assms unfolding init_properties_def and_then_Inr by blast
  have "st0 = (default_properties, if 1 < length argv then ''Running with '' @ show_nat (length argv) @ '' arguments'' @ [NEWLINE] else [])"
    using r(1) by (auto split: if_splits)
  moreover have "p = fst st2" "out = (if strcasecmp_eq (env p) ''dev'' then take (LOG_BUFFER_SIZE - 1) (snd st2) else [])"
    using r(4) by (auto split: prod.splits)
  ultimately show ?thesis using that r(2,3) by blast
qed

lemma init_properties_value:
  assumes "init_properties exists fopen argv = Inr (p, out)"
  shows "config_wf p \<and> length out < LOG_BUFFER_SIZE"
  using assms
proof (rule init_propertiesE)
  fix st0 st1 st2
  assume st0: "st0 = (default_properties, if 1 < length argv then ''Running with '' @ show_nat (length argv) @ '' arguments'' @ [NEWLINE] else [])"
    and st1: "parse_args exists (tl argv) st0 = Inr st1"
    and st2: "(case fopen (properties_file (fst st1)) of
        Some file \<Rightarrow> and_then (noted (''Using properties file: '' @ properties_file (fst st1)) st1) (parse_lines_of (getlines file))
      | None \<Rightarrow> noted (''Failed to find properties file, using default values with port '' @ http_port (fst st1) @
          '' and environment '' @ env (fst st1)) st1) = Inr st2"
    and p: "p = fst st2" "out = (if strcasecmp_eq (env p) ''dev'' then take (LOG_BUFFER_SIZE - 1) (snd st2) else [])"
  have "config_wf (fst st1)" using parse_args_wf [OF st1] default_wf by (simp add: st0)
  then have "config_wf (fst st2)" using st2 by (auto split: option.splits dest: parse_lines_wf)
  then show ?thesis by (simp add: p min_def)
qed



text \<open>
  The last \<open>http_port\<close> line of the properties file decides the port, whatever the lines before it
  and the arguments of the program say.
\<close>

lemma last_port_line_decides:
  assumes run: "init_properties exists fopen argv = Inr (p, out)"
    and opened: "\<And>path. fopen path = Some conf" "getlines conf = ls @ (''http_port='' @ v @ [NEWLINE]) # rest"
    and v: "NUL \<notin> set v" and rest: "\<forall>l \<in> set rest. \<not> line_key l ''http_port''"
  shows "http_port p = v"
  using run
proof (rule init_propertiesE)
  fix st0 st1 st2
  assume "(case fopen (properties_file (fst st1)) of
        Some file \<Rightarrow> and_then (noted (''Using properties file: '' @ properties_file (fst st1)) st1) (parse_lines_of (getlines file))
      | None \<Rightarrow> noted (''Failed to find properties file, using default values with port '' @ http_port (fst st1) @
          '' and environment '' @ env (fst st1)) st1) = Inr st2"
    and p: "p = fst st2"
  then obtain st where "parse_lines_of (ls @ (''http_port='' @ v @ [NEWLINE]) # rest) st = Inr st2"
    unfolding opened option.case and_then_Inr by blast
  then obtain st3 where "parse_lines_of ((''http_port='' @ v @ [NEWLINE]) # rest) st3 = Inr st2"
    unfolding parse_lines_append and_then_Inr by blast
  then obtain st4 where "http_port (fst st4) = v" "parse_lines_of rest st4 = Inr st2"
    unfolding parse_lines_of.simps port_line [OF v] and_then_Inr assert_that_Inr in_bounds_Inr noted_Inr by force
  then show ?thesis using port_kept_lines [OF rest] p by simp
qed

text \<open>
  The production and test environments of the usage text do not fit the array of four bytes: the
  program is undefined when one of them is asked for.
\<close>

lemma prod_environment_overflows:
  assumes "strcasecmp_eq v ''prod'' \<or> strcasecmp_eq v ''test''" and "strcasecmp_eq e ''-e'' \<or> strcasecmp_eq e ''--environment''"
  shows "init_properties exists fopen (prog # e # v # rest) = Inl (Out_of_bounds ''env'')"
proof -
  have len: "length v = 4" using assms(1) by (auto simp: strcasecmp_eq_def dest: arg_cong [of _ _ length])
  have e: "\<not> strcasecmp_eq e ''-p''" "\<not> strcasecmp_eq e ''--port''"
    using assms(2) by (auto simp: strcasecmp_eq_def char_simps)
  show ?thesis using assms len e by (auto simp: init_properties_def parse_arg_def noted_def with_value_def Let_def)
qed

text \<open>
  The notes of a properties file with more than 257 lines that enable HTTPS are written past
  \<open>log_buffer\<close>.
\<close>

definition https_line :: string where
  "https_line = ''enable_https=1'' @ [NEWLINE]"

lemma getlines_https: "getlines (concat (replicate n https_line)) = replicate n https_line"
proof (induction n)
  case (Suc n)
  then show ?case
    using getlines_line [of "''enable_https=1''" "concat (replicate n https_line)"] by (simp add: https_line_def)
qed simp

lemma parse_https_line: "parse_line https_line st = noted ''Enable HTTPS: 1'' ((fst st)\<lparr>enable_https := True\<rparr>, snd st)"
proof -
  have k: "line_key https_line ''session_max_size'' = False" "line_key https_line ''worker_thread_max_size'' = False"
    "line_key https_line ''listen_backlog_max_size'' = False" "line_key https_line ''http_port'' = False"
    "line_key https_line ''env'' = False" "line_key https_line ''log_file'' = False" "line_key https_line ''log_level'' = False"
    "line_key https_line ''log_type'' = False" "strncasecmp_eq (cstr (butlast https_line)) ''cert_chain_file'' 16 = False"
    "line_key https_line ''private_key_file'' = False" "line_key https_line ''enable_https'' = True"
    by (simp_all add: line_key_def https_line_def strncasecmp_eq_def cstr_def char_simps)
  have "line_value 13 https_line = ''1''" by (simp add: line_value_def https_line_def cstr_def)
  then have v: "(0 < atoi (line_value 13 https_line)) = True" by (simp add: atoi_one)
  show ?thesis unfolding parse_line_def Let_def k v by simp
qed

lemma parse_https_lines:
  "length (snd st) \<le> LOG_BUFFER_SIZE \<Longrightarrow> LOG_BUFFER_SIZE < length (snd st) + 16 * (n - 1) \<Longrightarrow>
    parse_lines_of (replicate n https_line) st = Inl (Out_of_bounds ''log_buffer'')"
proof (induction n arbitrary: st)
  case (Suc n)
  let ?st = "((fst st)\<lparr>enable_https := True\<rparr>, snd st @ ''Enable HTTPS: 1'' @ [NEWLINE])"
  have r: "parse_line https_line st = Inr ?st" using Suc.prems(1) by (simp add: parse_https_line)
  obtain m where m: "n = Suc m" using Suc.prems by (cases n) auto
  show ?case
  proof (cases "length (snd ?st) \<le> LOG_BUFFER_SIZE")
    case True
    have "LOG_BUFFER_SIZE < length (snd ?st) + 16 * (n - 1)" using Suc.prems(2) m by simp
    then have "parse_lines_of (replicate n https_line) ?st = Inl (Out_of_bounds ''log_buffer'')"
      using Suc.IH True by blast
    then show ?thesis using r by simp
  next
    case False
    then have "parse_line https_line ?st = Inl (Out_of_bounds ''log_buffer'')"
      unfolding parse_https_line noted_def by simp
    then show ?thesis using r by (simp add: m)
  qed
qed simp

lemma long_properties_overflow:
  assumes "257 < n" and "\<And>path. fopen path = Some (concat (replicate n https_line))"
  shows "init_properties exists fopen [prog] = Inl (Out_of_bounds ''log_buffer'')"
proof -
  have "parse_lines_of (replicate n https_line) (default_properties, lg) = Inl (Out_of_bounds ''log_buffer'')"
    if "length lg \<le> 100" for lg
    using that assms(1) by (intro parse_https_lines) auto
  then show ?thesis
    using assms(2) by (simp add: init_properties_def noted_def getlines_https default_properties_def)
qed

end
