(* ===== verification/Logger.thy ===== *)
theory Logger
  imports Numerals Buffer
begin

text \<open>
  \<^verbatim>\<open>src/utils/logger.c\<close>: messages of a level are formatted into a buffer of 4 MiB, which is a mapped window
  at the end of the log file or, without a file, memory of the process. With a console as destination
  the line is printed from the buffer too. When less than 1 MiB is left the window moves to the new end
  of the file. The system calls and the clock are arguments; the mutex makes a call one step.
\<close>

section \<open>Levels\<close>

datatype LOG_LEVEL = TRACE | DEBUG | INFO | WARN | ERROR
datatype LOG_DESTINATION = CONSOLE_ONLY | FILE_ONLY | CONSOLE_FILE

fun level_code :: "LOG_LEVEL \<Rightarrow> nat" where
  "level_code TRACE = 0" | "level_code DEBUG = 1" | "level_code INFO = 2" | "level_code WARN = 3" | "level_code ERROR = 4"

lemma level_code_inject: "level_code a = level_code b \<longleftrightarrow> a = b"
  by (cases a; cases b) simp_all

text \<open>The order of the enumeration constants, which the filters compare with.\<close>

instantiation LOG_LEVEL :: linorder
begin

definition less_eq_LOG_LEVEL :: "LOG_LEVEL \<Rightarrow> LOG_LEVEL \<Rightarrow> bool" where
  "a \<le> b \<longleftrightarrow> level_code a \<le> level_code b"

definition less_LOG_LEVEL :: "LOG_LEVEL \<Rightarrow> LOG_LEVEL \<Rightarrow> bool" where
  "a < b \<longleftrightarrow> level_code a < level_code b"

instance
  by standard (auto simp: less_eq_LOG_LEVEL_def less_LOG_LEVEL_def level_code_inject)

end

lemma TRACE_least [simp]: "TRACE \<le> l" and ERROR_greatest [simp]: "l \<le> ERROR"
  by (cases l; simp add: less_eq_LOG_LEVEL_def)+

definition log_level_to_string :: "LOG_LEVEL \<Rightarrow> string" where
  "log_level_to_string level = (case level of TRACE \<Rightarrow> ''TRACE'' | DEBUG \<Rightarrow> ''DEBUG'' | INFO \<Rightarrow> ''INFO''
     | WARN \<Rightarrow> ''WARN'' | ERROR \<Rightarrow> ''ERROR'')"

section \<open>The text of a line\<close>

definition esc :: "string \<Rightarrow> string" where
  "esc c = CHR 0x1B # ''['' @ c @ ''m''"

abbreviation RED :: string where "RED \<equiv> esc ''31''"
abbreviation GRN :: string where "GRN \<equiv> esc ''32''"
abbreviation YEL :: string where "YEL \<equiv> esc ''33''"
abbreviation BLU :: string where "BLU \<equiv> esc ''34''"
abbreviation MAG :: string where "MAG \<equiv> esc ''35''"
abbreviation CYN :: string where "CYN \<equiv> esc ''36''"
abbreviation RESET_COLOR :: string where "RESET_COLOR \<equiv> esc ''0''"
abbreviation LF :: char where "LF \<equiv> CHR 0x0A"

definition pad :: "nat \<Rightarrow> string \<Rightarrow> string" where
  "pad n s = s @ replicate (n - length s) CHR '' ''"

text \<open>
  One call: its level, the file and text of the message, and what the environment says at that moment.
  \<open>lc_ssl_error\<close> is the oldest error in the queue of OpenSSL, \<open>lc_symbols\<close> the back trace, when there is
  memory for its names.
\<close>

record log_call =
  lc_level :: LOG_LEVEL
  lc_file :: string
  lc_message :: string
  lc_time :: string
  lc_thread :: nat
  lc_session :: int
  lc_errno :: int
  lc_strerror :: string
  lc_ssl_error :: "string option"
  lc_symbols :: "string list option"

fun backtrace_lines :: "nat \<Rightarrow> string list \<Rightarrow> string list" where
  "backtrace_lines i [] = []"
| "backtrace_lines i (s # ss) = (MAG @ ''  '' @ show_nat i @ '': '' @ s @ [LF] @ RESET_COLOR) # backtrace_lines (i + 1) ss"

text \<open>The texts \<open>log_to_buffer\<close> prints, one per \<open>sprintf\<close>.\<close>

definition log_texts :: "string \<Rightarrow> log_call \<Rightarrow> string list" where
  "log_texts relative_file_path c =
     [YEL @ pad 17 (lc_time c) @ '' '' @ pad 30 relative_file_path @ '' ('' @ pad 5 (log_level_to_string (lc_level c)) @ '') '' @ RESET_COLOR,
      (if lc_session c \<noteq> -1
       then CYN @ ''['' @ show_nat (lc_thread c) @ ''-'' @ show_int (lc_session c) @ '']: '' @ RESET_COLOR
       else CYN @ ''['' @ show_nat (lc_thread c) @ '']: '' @ RESET_COLOR),
      lc_message c] @
     (if lc_level c = ERROR \<and> (lc_errno c \<noteq> 0 \<or> lc_ssl_error c \<noteq> None)
      then (if lc_errno c \<noteq> 0 then [RED @ '': '' @ show_int (lc_errno c) @ '' '' @ lc_strerror c @ [LF] @ RESET_COLOR] else []) @
           (case lc_ssl_error c of Some e \<Rightarrow> [RED @ '': '' @ e @ [LF] @ RESET_COLOR] | None \<Rightarrow> []) @
           (case lc_symbols c of
              Some (s # ss) \<Rightarrow> (MAG @ ''Backtrace:'' @ [LF] @ RESET_COLOR) # backtrace_lines 0 (s # ss)
            | _ \<Rightarrow> [])
      else [[LF]])"

definition relative_path :: "string \<Rightarrow> string option" where
  "relative_path f = (case strstr f ''src/'' of
       Some t \<Rightarrow> Some (drop 4 t)
     | None \<Rightarrow> (case strstr f ''test/'' of Some t \<Rightarrow> Some (drop 5 t) | None \<Rightarrow> None))"

section \<open>The buffer\<close>

definition LOG_WINDOW :: nat where
  "LOG_WINDOW = 4 * 1024 * 1024"

text \<open>
  The static variables: level, destination, whether a file is open, offset and buffer. \<open>log_base\<close> is the part
  of the file in front of the mapped window, \<open>console\<close> what has been printed.
\<close>

record logger =
  min_level :: LOG_LEVEL
  destination :: LOG_DESTINATION
  file_open :: bool
  log_offset :: nat
  log_mem :: "string option"
  log_base :: string
  console :: string

record log_sys =
  fopen_log :: bool
  fstat_log :: bool
  fseek_log :: bool
  ftruncate_log :: "int \<Rightarrow> bool"
  mmap_log :: "int \<Rightarrow> bool"
  malloc_log :: bool

definition to_file :: "logger \<Rightarrow> bool" where
  "to_file g \<longleftrightarrow> destination g = FILE_ONLY \<or> destination g = CONSOLE_FILE"

definition to_console :: "logger \<Rightarrow> bool" where
  "to_console g \<longleftrightarrow> destination g = CONSOLE_ONLY \<or> destination g = CONSOLE_FILE"

text \<open>A \<open>sprintf\<close> to \<open>log_buffer + at\<close>: nothing limits its length.\<close>

definition sprintf_log :: "nat \<Rightarrow> string \<Rightarrow> string \<Rightarrow> string result" where
  "sprintf_log at s mem =
     in_bounds ''log_buffer'' (at + length s < length mem)
       (Inr (take at mem @ s @ [NUL] @ drop (at + length s + 1) mem))"

fun log_to_buffer :: "nat \<Rightarrow> string list \<Rightarrow> string \<Rightarrow> string result" where
  "log_to_buffer at [] mem = Inr mem"
| "log_to_buffer at (s # ss) mem = and_then (sprintf_log at s mem) (log_to_buffer (at + length s) ss)"

text \<open>
  \<open>remap_log_buffer\<close>; \<open>None\<close> is the return value -1. The size of the file goes through an \<open>int\<close>.
\<close>

definition remap_log_buffer :: "log_sys \<Rightarrow> logger \<Rightarrow> logger option" where
  "remap_log_buffer K g =
     (let remapped = (if to_file g
        then if \<not> fseek_log K then None
        else let contents = log_base g @ (case log_mem g of None \<Rightarrow> [] | Some m \<Rightarrow> m);
                 size = to_int32 (int (length contents)) in
          if size < 0 then None
          else if \<not> ftruncate_log K (size + int LOG_WINDOW) then None
          else if \<not> mmap_log K size then None
          else let resized = take (nat size + LOG_WINDOW) (contents @ replicate LOG_WINDOW NUL)
               in Some (g\<lparr>log_base := take (nat size) resized, log_mem := Some (drop (nat size) resized)\<rparr>)
        else Some g)
      in map_option (\<lambda>g'. g'\<lparr>console := console g' @ ''Remapped log buffer'' @ [LF]\<rparr>) remapped)"

definition log_message :: "log_sys \<Rightarrow> log_call \<Rightarrow> logger \<Rightarrow> logger result" where
  "log_message K c g =
     (case log_mem g of
        None \<Rightarrow> Inr g
      | Some mem \<Rightarrow>
     (case relative_path (lc_file c) of
        None \<Rightarrow> Inl (Null_pointer ''relative_file_path'')
      | Some path \<Rightarrow>
          let texts = log_texts path c; written = length (concat texts) in
          and_then (log_to_buffer (log_offset g) texts mem) (\<lambda>mem'.
          let g1 = g\<lparr>log_mem := Some mem', log_offset := log_offset g + written,
                     console := (if to_console g then console g @ cstr (drop (log_offset g) mem') else console g)\<rparr> in
          if log_offset g1 > LOG_WINDOW - 1024 * 1024
          then (case remap_log_buffer K g1 of
                  None \<Rightarrow> Inl (Assert_failed ''remap_log_buffer() >= 0'')
                | Some g2 \<Rightarrow> Inr (g2\<lparr>log_offset := 0\<rparr>))
          else Inr g1)))"

text \<open>\<open>log_trace_\<close>, \<open>log_debug_\<close>, \<open>log_info_\<close>, \<open>log_warn_\<close> and \<open>log_error_\<close>, by the level of the call.\<close>

definition log_call_at :: "log_sys \<Rightarrow> log_call \<Rightarrow> logger \<Rightarrow> logger result" where
  "log_call_at K c g =
     (case lc_level c of
        TRACE \<Rightarrow> if min_level g > TRACE then Inr g else log_message K c g
      | DEBUG \<Rightarrow> if min_level g > DEBUG then Inr g else log_message K c g
      | INFO \<Rightarrow> if min_level g > INFO then Inr g else log_message K c g
      | WARN \<Rightarrow> if min_level g > WARN then Inr g else log_message K c g
      | ERROR \<Rightarrow> log_message K c g)"

section \<open>Start and end\<close>

text \<open>
  \<open>log_logo\<close>: the picture has characters a string literal cannot hold, so they are spelt otherwise: an
  exclamation mark for a backslash and a caret for a single quote.
\<close>

definition art :: "string \<Rightarrow> string" where
  "art = map (\<lambda>c. if c = CHR ''!'' then CHR 0x5C else if c = CHR ''^'' then CHR 0x27 else c)"

definition logo_texts :: "string list" where
  "logo_texts =
     [RED @ art ''__        ___           _   ____                 _             '' @ [LF],
      art ''! !      / (_)_ __   __| | | __ ) _ __ ___  __ _| | _____ _ __ '' @ [LF],
      GRN @ art '' ! ! /! / /| | ^_ ! / _` | |  _ !| ^__/ _ !/ _` | |/ / _ ! ^__|'' @ [LF],
      art ''  ! V  V / | | | | | (_| | | |_) | | |  __/ (_| |   <  __/ |   '' @ [LF],
      BLU @ art ''   !_/!_/  |_|_| |_|!__,_| |____/|_|  !___|!__,_|_|!_!___|_|   '' @ [LF] @ RESET_COLOR]"

definition log_logo :: "logger \<Rightarrow> logger result" where
  "log_logo g =
     (case log_mem g of
        None \<Rightarrow> Inl (Null_pointer ''sprintf'')
      | Some mem \<Rightarrow> and_then (log_to_buffer (log_offset g) logo_texts mem) (\<lambda>mem'.
          Inr (g\<lparr>log_mem := Some mem', console := console g @ cstr (drop (log_offset g) mem'),
                 log_offset := log_offset g + length (concat logo_texts)\<rparr>)))"

text \<open>
  \<open>init_logger\<close>: \<open>existing\<close> is what the file holds already, \<open>fresh\<close> what \<open>malloc\<close> returns, \<open>hello\<close> the call of
  \<open>log_info_\<close> at the end. The value is whether a file was returned. After a failure the process ends, so
  what is left in the variables then is not told apart.
\<close>

definition map_log_file :: "log_sys \<Rightarrow> string \<Rightarrow> logger \<Rightarrow> logger option" where
  "map_log_file K existing g =
     (if \<not> fopen_log K then None
      else if \<not> fstat_log K then None
      else if \<not> ftruncate_log K (int (length existing) + int LOG_WINDOW) then None
      else if \<not> mmap_log K (int (length existing)) then None
      else Some (g\<lparr>file_open := True, log_base := existing, log_mem := Some (replicate LOG_WINDOW NUL)\<rparr>))"

definition destination_name :: "LOG_DESTINATION \<Rightarrow> string" where
  "destination_name d = (case d of CONSOLE_ONLY \<Rightarrow> ''CONSOLE_ONLY'' | FILE_ONLY \<Rightarrow> ''FILE_ONLY'' | CONSOLE_FILE \<Rightarrow> ''CONSOLE_FILE'')"

definition init_logger :: "log_sys \<Rightarrow> string \<Rightarrow> (nat \<Rightarrow> char) \<Rightarrow> log_call \<Rightarrow>
    LOG_LEVEL \<Rightarrow> LOG_DESTINATION \<Rightarrow> logger \<Rightarrow>
    (bool \<times> logger) result" where
  "init_logger K existing fresh hello level dest g =
     (let g1 = g\<lparr>min_level := level, destination := dest\<rparr> in
      case (if to_file g1 then map_log_file K existing g1
            else Some (g1\<lparr>log_mem := (if malloc_log K then Some (map fresh [0..<LOG_WINDOW]) else None)\<rparr>)) of
        None \<Rightarrow> Inr (False, g1)
      | Some g2 \<Rightarrow>
          and_then (log_logo g2) (\<lambda>g3.
          and_then (log_call_at K (hello\<lparr>lc_level := INFO, lc_message := ''Logger initialized with level '' @
              log_level_to_string level @ '' and destination '' @ destination_name dest\<rparr>) g3) (\<lambda>g4.
          Inr (file_open g4, g4))))"

definition destroy_logger :: "logger \<Rightarrow> logger" where
  "destroy_logger g =
     g\<lparr>file_open := False, log_mem := None,
       log_base := log_base g @ (if to_file g then (case log_mem g of None \<Rightarrow> [] | Some m \<Rightarrow> m) else [])\<rparr>"

section \<open>Facts\<close>

lemma log_to_buffer_value:
  "ss \<noteq> [] \<Longrightarrow> at + length (concat ss) < length mem \<Longrightarrow>
    log_to_buffer at ss mem = Inr (take at mem @ concat ss @ [NUL] @ drop (at + length (concat ss) + 1) mem)"
proof (induction ss arbitrary: at mem)
  case (Cons s ss)
  let ?m = "take at mem @ s @ [NUL] @ drop (at + length s + 1) mem"
  have s: "sprintf_log at s mem = Inr ?m" using Cons.prems(2) by (simp add: sprintf_log_def)
  show ?case
  proof (cases "ss = []")
    case True
    then show ?thesis using s by simp
  next
    case False
    have len: "length ?m = length mem" using Cons.prems(2) by simp
    have "log_to_buffer (at + length s) ss ?m = Inr (take (at + length s) ?m @ concat ss @ [NUL] @
        drop (at + length s + length (concat ss) + 1) ?m)"
      using False Cons.prems(2) by (intro Cons.IH) (simp_all add: len)
    moreover have "take (at + length s) ?m = take at mem @ s" using Cons.prems(2) by simp
    moreover have "drop (at + length s + length (concat ss) + 1) ?m = drop (at + length s + length (concat ss) + 1) mem"
      using Cons.prems(2) by (simp add: add.commute add.left_commute)
    ultimately show ?thesis using s by (simp add: add.assoc)
  qed
qed simp

lemma log_to_buffer_overflow:
  "length mem \<le> at + length (concat ss) \<Longrightarrow> at < length mem \<Longrightarrow> log_to_buffer at ss mem = Inl (Out_of_bounds ''log_buffer'')"
proof (induction ss arbitrary: at mem)
  case (Cons s ss)
  let ?m = "take at mem @ s @ [NUL] @ drop (at + length s + 1) mem"
  show ?case
  proof (cases "at + length s < length mem")
    case True
    then have "log_to_buffer (at + length s) ss ?m = Inl (Out_of_bounds ''log_buffer'')"
      using Cons.prems(1) by (intro Cons.IH) simp_all
    then show ?thesis using True by (simp add: sprintf_log_def)
  next
    case False
    then show ?thesis by (simp add: sprintf_log_def)
  qed
qed simp

text \<open>The line of a call, and the calls the logger can print.\<close>

definition line_text :: "log_call \<Rightarrow> string" where
  "line_text c = concat (log_texts (the (relative_path (lc_file c))) c)"

definition printable :: "log_call \<Rightarrow> bool" where
  "printable c \<longleftrightarrow> relative_path (lc_file c) \<noteq> None \<and> NUL \<notin> set (line_text c) \<and> length (line_text c) < 1024 * 1024"

definition sys_ok :: "log_sys \<Rightarrow> bool" where
  "sys_ok K \<longleftrightarrow> fseek_log K \<and> (\<forall>n. ftruncate_log K n) \<and> (\<forall>n. mmap_log K n)"

definition logger_wf :: "logger \<Rightarrow> bool" where
  "logger_wf g \<longleftrightarrow> log_offset g \<le> LOG_WINDOW - 1024 * 1024 \<and>
     (\<exists>m. log_mem g = Some m \<and> length m = LOG_WINDOW \<and> (to_file g \<longrightarrow> set (drop (log_offset g) m) \<subseteq> {NUL}))"

text \<open>The characters of the log file, without the padding of its windows.\<close>

definition logged :: "logger \<Rightarrow> string" where
  "logged g = filter (\<lambda>c. c \<noteq> NUL) (log_base g @ (case log_mem g of None \<Rightarrow> [] | Some m \<Rightarrow> m))"

lemma log_texts_nonempty [simp]: "log_texts p c \<noteq> []"
  by (simp add: log_texts_def)

lemma LOG_WINDOW_pos [simp]: "0 < LOG_WINDOW"
  by (simp add: LOG_WINDOW_def)

lemma filter_NUL: "set xs \<subseteq> {NUL} \<Longrightarrow> filter (\<lambda>c. c \<noteq> NUL) xs = []"
  by (auto simp: filter_empty_conv)

lemma remap_value:
  assumes "sys_ok K" and m: "log_mem g = Some m" "length m = LOG_WINDOW"
    and room: "to_file g \<longrightarrow> length (log_base g) + LOG_WINDOW < 2 ^ 31"
  shows "\<exists>g'. remap_log_buffer K g = Some g' \<and> min_level g' = min_level g \<and> destination g' = destination g \<and>
    (\<exists>m'. log_mem g' = Some m' \<and> length m' = LOG_WINDOW \<and> (to_file g \<longrightarrow> set m' \<subseteq> {NUL})) \<and>
    (to_file g \<longrightarrow> logged g' = logged g \<and> length (log_base g') = length (log_base g) + LOG_WINDOW) \<and>
    console g' = console g @ ''Remapped log buffer'' @ [LF]"
proof (cases "to_file g")
  case True
  let ?c = "log_base g @ m"
  have len: "length ?c = length (log_base g) + LOG_WINDOW" using m(2) by simp
  have size: "to_int32 (int (length ?c)) = int (length ?c)"
    using room True len by (intro to_int32_id) auto
  have resized: "take (length ?c + LOG_WINDOW) (?c @ replicate LOG_WINDOW NUL) = ?c @ replicate LOG_WINDOW NUL" by simp
  let ?g = "g\<lparr>log_base := ?c, log_mem := Some (replicate LOG_WINDOW NUL), console := console g @ ''Remapped log buffer'' @ [LF]\<rparr>"
  have "remap_log_buffer K g = Some ?g"
    using True assms(1) m(1) size unfolding remap_log_buffer_def sys_ok_def Let_def by simp
  moreover have "logged ?g = logged g" using m(1) by (simp add: logged_def)
  ultimately show ?thesis using True len by (intro exI [of _ ?g]) auto
next
  case False
  then show ?thesis using m by (simp add: remap_log_buffer_def)
qed

lemma log_message_value:
  assumes wf: "logger_wf g" and c: "printable c" and K: "sys_ok K"
    and room: "to_file g \<longrightarrow> length (log_base g) + LOG_WINDOW < 2 ^ 31"
  shows "\<exists>g'. log_message K c g = Inr g' \<and> logger_wf g' \<and> min_level g' = min_level g \<and> destination g' = destination g \<and>
    (to_file g \<longrightarrow> logged g' = logged g @ line_text c \<and> length (log_base g') \<le> length (log_base g) + LOG_WINDOW) \<and>
    (\<exists>tail. tail \<in> {[], ''Remapped log buffer'' @ [LF]} \<and>
       console g' = console g @ (if to_console g then line_text c else []) @ tail)"
proof -
  obtain m where m: "log_mem g = Some m" "length m = LOG_WINDOW" "to_file g \<longrightarrow> set (drop (log_offset g) m) \<subseteq> {NUL}"
    and off: "log_offset g \<le> LOG_WINDOW - 1024 * 1024"
    using wf by (auto simp: logger_wf_def)
  obtain path where path: "relative_path (lc_file c) = Some path" using c by (auto simp: printable_def)
  let ?t = "line_text c" and ?off = "log_offset g"
  have t: "concat (log_texts path c) = ?t" by (simp add: line_text_def path)
  have fits: "?off + length ?t < LOG_WINDOW" using off c by (simp add: printable_def LOG_WINDOW_def)
  let ?m = "take ?off m @ ?t @ [NUL] @ drop (?off + length ?t + 1) m"
  have buf: "log_to_buffer ?off (log_texts path c) m = Inr ?m"
    using log_to_buffer_value [of "log_texts path c" ?off m] fits m(2) by (simp add: t)
  have shown: "cstr (drop ?off ?m) = ?t"
    using c fits m(2) by (simp add: cstr_def takeWhile_append printable_def)
  let ?g1 = "g\<lparr>log_mem := Some ?m, log_offset := ?off + length ?t,
      console := (if to_console g then console g @ ?t else console g)\<rparr>"
  have rest: "to_file g \<longrightarrow> set (drop (?off + length ?t) ?m) \<subseteq> {NUL}"
    using m(2,3) fits set_drop_subset_set_drop [of ?off "?off + length ?t + 1" m] by (auto simp del: drop_drop)
  have logged1: "to_file g \<longrightarrow> logged ?g1 = logged g @ ?t"
  proof
    assume f: "to_file g"
    have "set (drop (?off + length ?t + 1) m) \<subseteq> {NUL}"
      using m(3) f set_drop_subset_set_drop [of ?off "?off + length ?t + 1" m] by auto
    moreover have "filter (\<lambda>c. c \<noteq> NUL) m = filter (\<lambda>c. c \<noteq> NUL) (take ?off m)"
      using filter_NUL [OF m(3) [rule_format, OF f]] by (metis append_Nil2 append_take_drop_id filter_append)
    moreover have "filter (\<lambda>c. c \<noteq> NUL) ?t = ?t" using c by (auto simp: printable_def filter_id_conv)
    ultimately show "logged ?g1 = logged g @ ?t" using m(1) by (simp add: logged_def filter_NUL)
  qed
  have len1: "length ?m = LOG_WINDOW" using m(2) fits by simp
  have msg: "log_message K c g = (if ?off + length ?t > LOG_WINDOW - 1024 * 1024
      then (case remap_log_buffer K ?g1 of None \<Rightarrow> Inl (Assert_failed ''remap_log_buffer() >= 0'') | Some g2 \<Rightarrow> Inr (g2\<lparr>log_offset := 0\<rparr>))
      else Inr ?g1)"
    using m(1) path buf shown t by (simp add: log_message_def Let_def)
  show ?thesis
  proof (cases "?off + length ?t > LOG_WINDOW - 1024 * 1024")
    case False
    have "logger_wf ?g1" using False len1 rest by (simp add: logger_wf_def to_file_def)
    then show ?thesis using msg False logged1 by (intro exI [of _ ?g1]) auto
  next
    case True
    have f1: "to_file ?g1 = to_file g" by (simp add: to_file_def)
    have "to_file ?g1 \<longrightarrow> length (log_base ?g1) + LOG_WINDOW < 2 ^ 31" using room f1 by simp
    from remap_value [OF K _ len1 this] obtain g2 m2 where g2: "remap_log_buffer K ?g1 = Some g2"
      "min_level g2 = min_level g" "destination g2 = destination g" "log_mem g2 = Some m2" "length m2 = LOG_WINDOW"
      "to_file g \<longrightarrow> set m2 \<subseteq> {NUL}" "to_file g \<longrightarrow> logged g2 = logged ?g1"
      "to_file g \<longrightarrow> length (log_base g2) = length (log_base g) + LOG_WINDOW"
      "console g2 = console ?g1 @ ''Remapped log buffer'' @ [LF]"
      unfolding f1 by auto
    have f2: "to_file g2 = to_file g" using g2(3) by (simp add: to_file_def)
    have "logger_wf (g2\<lparr>log_offset := 0\<rparr>)" using g2(4-6) f2 by (simp add: logger_wf_def to_file_def)
    moreover have "logged (g2\<lparr>log_offset := 0\<rparr>) = logged g2" by (simp add: logged_def)
    ultimately show ?thesis using msg True g2 logged1 by (intro exI [of _ "g2\<lparr>log_offset := 0\<rparr>"]) auto
  qed
qed

section \<open>What the modules rely on\<close>

text \<open>
  The contract of a journal: as long as there is room, an entry that is wanted goes whole behind what
  is there, one that is not wanted leaves no trace.
\<close>

fun log_all :: "('c \<Rightarrow> 's \<Rightarrow> 's result) \<Rightarrow> 'c list \<Rightarrow> 's \<Rightarrow> 's result" where
  "log_all add_entry [] s = Inr s"
| "log_all add_entry (c # cs) s = and_then (add_entry c s) (log_all add_entry cs)"

locale journal =
  fixes add_entry :: "'c \<Rightarrow> 's \<Rightarrow> 's result" and room :: "nat \<Rightarrow> 's \<Rightarrow> bool" and contents :: "'s \<Rightarrow> 'e list"
    and wanted :: "'c \<Rightarrow> bool" and fits :: "'c \<Rightarrow> bool" and entry :: "'c \<Rightarrow> 'e list"
  assumes add_wanted: "room (Suc n) s \<Longrightarrow> wanted c \<Longrightarrow> fits c \<Longrightarrow>
      \<exists>s'. add_entry c s = Inr s' \<and> room n s' \<and> contents s' = contents s @ entry c"
    and add_unwanted: "room (Suc n) s \<Longrightarrow> \<not> wanted c \<Longrightarrow> add_entry c s = Inr s \<and> room n s"
begin

lemma log_all_contents:
  "room (length cs) s \<Longrightarrow> \<forall>c \<in> set cs. wanted c \<longrightarrow> fits c \<Longrightarrow>
    \<exists>s'. log_all add_entry cs s = Inr s' \<and> room 0 s' \<and> contents s' = contents s @ concat (map entry (filter wanted cs))"
proof (induction cs arbitrary: s)
  case (Cons c cs)
  show ?case
  proof (cases "wanted c")
    case True
    then obtain s1 where "add_entry c s = Inr s1" "room (length cs) s1" "contents s1 = contents s @ entry c"
      using add_wanted [of "length cs" s c] Cons.prems by auto
    then show ?thesis using Cons.IH [of s1] Cons.prems(2) True by auto
  next
    case False
    then have "add_entry c s = Inr s" "room (length cs) s" using add_unwanted [of "length cs" s c] Cons.prems by auto
    then show ?thesis using Cons.IH [of s] Cons.prems(2) False by auto
  qed
qed simp

end

definition log_run :: "log_sys \<Rightarrow> log_call list \<Rightarrow> logger \<Rightarrow> logger result" where
  "log_run K = log_all (log_call_at K)"

lemma log_call_at_filter:
  "log_call_at K c g = (if min_level g \<le> lc_level c then log_message K c g else Inr g)"
proof (cases "lc_level c")
  case ERROR
  then show ?thesis by (simp add: log_call_at_def)
qed (auto simp: log_call_at_def)

text \<open>A logger with its file has room for \<open>n\<close> more lines as long as the size of the file fits an \<open>int\<close>.\<close>

definition file_room :: "log_sys \<Rightarrow> LOG_LEVEL \<Rightarrow> nat \<Rightarrow> logger \<Rightarrow> bool" where
  "file_room K level n g \<longleftrightarrow> sys_ok K \<and> logger_wf g \<and> to_file g \<and> min_level g = level \<and>
     length (log_base g) + LOG_WINDOW * (n + 1) < 2 ^ 31"

interpretation log_journal: journal "log_call_at K" "file_room K level" logged "\<lambda>c. level \<le> lc_level c" printable line_text
  for K :: log_sys and level :: LOG_LEVEL
proof unfold_locales
  fix n g and c :: log_call
  assume g: "file_room K level (Suc n) g" and c: "level \<le> lc_level c" "printable c"
  then have "to_file g \<longrightarrow> length (log_base g) + LOG_WINDOW < 2 ^ 31" by (simp add: file_room_def)
  then obtain g1 where g1: "log_message K c g = Inr g1" "logger_wf g1" "min_level g1 = min_level g"
    "destination g1 = destination g" "logged g1 = logged g @ line_text c"
    "length (log_base g1) \<le> length (log_base g) + LOG_WINDOW"
    using log_message_value [of g c K] g c by (auto simp: file_room_def)
  then have "file_room K level n g1" using g by (simp add: file_room_def to_file_def)
  then show "\<exists>g'. log_call_at K c g = Inr g' \<and> file_room K level n g' \<and> logged g' = logged g @ line_text c"
    using g g1 c by (auto simp: log_call_at_filter file_room_def)
next
  fix n g and c :: log_call
  assume "file_room K level (Suc n) g" and "\<not> level \<le> lc_level c"
  then show "log_call_at K c g = Inr g \<and> file_room K level n g"
    by (simp add: log_call_at_filter file_room_def)
qed

section \<open>Properties\<close>

text \<open>A logger that starts is well-formed, whatever its destination.\<close>

definition hello_call :: "log_call \<Rightarrow> LOG_LEVEL \<Rightarrow> LOG_DESTINATION \<Rightarrow> log_call" where
  "hello_call hello level dest = hello\<lparr>lc_level := INFO, lc_message := ''Logger initialized with level '' @
     log_level_to_string level @ '' and destination '' @ destination_name dest\<rparr>"

lemma length_logo: "length (concat logo_texts) \<le> 400"
  by (simp add: logo_texts_def art_def esc_def)

lemma log_logo_value:
  assumes m: "log_mem g = Some m" "length m = LOG_WINDOW" "log_offset g = 0" and f: "to_file g \<longrightarrow> set m \<subseteq> {NUL}"
  shows "\<exists>g'. log_logo g = Inr g' \<and> logger_wf g' \<and> min_level g' = min_level g \<and> destination g' = destination g \<and>
    log_base g' = log_base g \<and> file_open g' = file_open g"
proof -
  let ?n = "length (concat logo_texts)"
  have n: "0 + ?n < length m" using length_logo m(2) by (simp add: LOG_WINDOW_def)
  have ne: "logo_texts \<noteq> []" by (simp add: logo_texts_def)
  let ?m = "take 0 m @ concat logo_texts @ [NUL] @ drop (0 + ?n + 1) m"
  let ?g = "g\<lparr>log_mem := Some ?m, console := console g @ cstr (drop (log_offset g) ?m), log_offset := log_offset g + ?n\<rparr>"
  have "log_logo g = Inr ?g" using log_to_buffer_value [OF ne n] m by (simp add: log_logo_def)
  moreover have "logger_wf ?g"
    using n m(2,3) f length_logo set_drop_subset [of "?n + 1" m]
    by (auto simp: logger_wf_def to_file_def LOG_WINDOW_def)
  ultimately show ?thesis by (intro exI [of _ ?g]) simp
qed

lemma init_logger_wf:
  assumes K: "sys_ok K" "fopen_log K" "fstat_log K" "malloc_log K" and off: "log_offset g = 0"
    and hello: "printable (hello_call hello level dest)" and room: "length existing + LOG_WINDOW < 2 ^ 31"
  shows "\<exists>opened g'. init_logger K existing fresh hello level dest g = Inr (opened, g') \<and> logger_wf g' \<and>
    min_level g' = level \<and> destination g' = dest"
proof -
  let ?g1 = "g\<lparr>min_level := level, destination := dest\<rparr>"
  let ?r = "if to_file ?g1 then map_log_file K existing ?g1
            else Some (?g1\<lparr>log_mem := (if malloc_log K then Some (map fresh [0..<LOG_WINDOW]) else None)\<rparr>)"
  have "\<exists>g2 m. ?r = Some g2 \<and> log_mem g2 = Some m \<and> length m = LOG_WINDOW \<and> log_offset g2 = 0 \<and> (to_file g2 \<longrightarrow> set m \<subseteq> {NUL}) \<and>
      min_level g2 = level \<and> destination g2 = dest \<and> (to_file g2 \<longrightarrow> log_base g2 = existing)"
  proof (cases "to_file ?g1")
    case True
    then show ?thesis using K off by (auto simp: map_log_file_def sys_ok_def to_file_def)
  next
    case False
    then show ?thesis using K off by (auto simp: to_file_def)
  qed
  then obtain g2 m where g2: "?r = Some g2" "log_mem g2 = Some m" "length m = LOG_WINDOW" "log_offset g2 = 0"
    "to_file g2 \<longrightarrow> set m \<subseteq> {NUL}" "min_level g2 = level" "destination g2 = dest" "to_file g2 \<longrightarrow> log_base g2 = existing"
    by blast
  from log_logo_value [OF g2(2-5)] obtain g3 where g3: "log_logo g2 = Inr g3" "logger_wf g3" "min_level g3 = level"
    "destination g3 = dest" "log_base g3 = log_base g2" using g2(6,7) by auto
  have "to_file g3 \<longrightarrow> length (log_base g3) + LOG_WINDOW < 2 ^ 31"
    using g3(4,5) g2(7,8) room by (simp add: to_file_def)
  then have "\<exists>g4. log_call_at K (hello_call hello level dest) g3 = Inr g4 \<and> logger_wf g4 \<and> min_level g4 = level \<and> destination g4 = dest"
    using log_message_value [OF g3(2) hello K(1)] g3 by (auto simp: log_call_at_filter)
  then obtain g4 where "log_call_at K (hello_call hello level dest) g3 = Inr g4" "logger_wf g4" "min_level g4 = level" "destination g4 = dest"
    by blast
  then show ?thesis
    using g2(1) g3(1) unfolding init_logger_def hello_call_def Let_def by (intro exI [of _ "file_open g4"] exI [of _ g4]) simp
qed


definition demo_call :: "LOG_LEVEL \<Rightarrow> string \<Rightarrow> log_call" where
  "demo_call l m = \<lparr>lc_level = l, lc_file = ''src/main.c'', lc_message = m, lc_time = ''20250101 00:00:00'', lc_thread = 1,
     lc_session = -1, lc_errno = 0, lc_strerror = [], lc_ssl_error = None, lc_symbols = None\<rparr>"

definition demo_logger :: "LOG_DESTINATION \<Rightarrow> nat \<Rightarrow> string \<Rightarrow> logger" where
  "demo_logger d off base = \<lparr>min_level = INFO, destination = d, file_open = True, log_offset = off,
     log_mem = Some (replicate LOG_WINDOW NUL), log_base = base, console = []\<rparr>"

abbreviation demo_sys :: log_sys where
  "demo_sys \<equiv> \<lparr>fopen_log = True, fstat_log = True, fseek_log = True, ftruncate_log = (\<lambda>_. True), mmap_log = (\<lambda>_. True), malloc_log = True\<rparr>"

lemma demo_printable: "printable (demo_call WARN ''slow'')"
proof -
  have "length (show_nat 1) \<le> Suc 0" by (rule length_show_nat) simp
  moreover have "NUL \<notin> set (show_nat 1)" using show_nat_digits [of 1] by (auto simp: is_digit_def between_def code_def)
  ultimately show ?thesis
    by (simp add: printable_def line_text_def demo_call_def log_texts_def pad_def esc_def log_level_to_string_def relative_path_def)
qed


text \<open>
  Nothing limits a line: one that reaches the end of the window is written past it. The sender logs
  whole responses.
\<close>

lemma long_line_overflows:
  assumes "logger_wf g" and "relative_path (lc_file c) \<noteq> None" and "LOG_WINDOW \<le> log_offset g + length (line_text c)"
  shows "log_message K c g = Inl (Out_of_bounds ''log_buffer'')"
proof -
  obtain m where m: "log_mem g = Some m" "length m = LOG_WINDOW" "log_offset g < LOG_WINDOW"
    using assms(1) by (auto simp: logger_wf_def LOG_WINDOW_def)
  obtain path where path: "relative_path (lc_file c) = Some path" using assms(2) by blast
  have "log_to_buffer (log_offset g) (log_texts path c) m = Inl (Out_of_bounds ''log_buffer'')"
    using assms(3) m path by (intro log_to_buffer_overflow) (simp_all add: line_text_def)
  then show ?thesis using m path by (simp add: log_message_def)
qed

lemma to_int32_neg:
  assumes "2 ^ 31 \<le> n" and "n < 2 ^ 32"
  shows "to_int32 n = n - 2 ^ 32"
proof -
  have "(n + 2 ^ 31) mod 2 ^ 32 = (n - 2 ^ 31 + 2 ^ 32) mod 2 ^ 32" by (simp add: add.commute)
  also have "\<dots> = n - 2 ^ 31" unfolding mod_add_self2 using assms by (intro mod_pos_pos_trivial) auto
  finally show ?thesis by (simp add: to_int32_def)
qed

text \<open>
  The server does not survive a log file of 2 GiB: its size goes through an \<open>int\<close> and comes out
  negative, so the next move of the window fails an assertion.
\<close>

lemma big_log_file_aborts:
  assumes wf: "logger_wf g" and f: "to_file g" and c: "printable c"
    and full: "LOG_WINDOW - 1024 * 1024 < log_offset g + length (line_text c)"
    and big: "2 ^ 31 \<le> length (log_base g) + LOG_WINDOW" "length (log_base g) + LOG_WINDOW < 2 ^ 32"
  shows "log_message K c g = Inl (Assert_failed ''remap_log_buffer() >= 0'')"
proof -
  obtain m where m: "log_mem g = Some m" "length m = LOG_WINDOW" and off: "log_offset g \<le> LOG_WINDOW - 1024 * 1024"
    using wf by (auto simp: logger_wf_def)
  obtain path where path: "relative_path (lc_file c) = Some path" using c by (auto simp: printable_def)
  have t: "concat (log_texts path c) = line_text c" by (simp add: line_text_def path)
  have fits: "log_offset g + length (line_text c) < LOG_WINDOW" using off c by (simp add: printable_def LOG_WINDOW_def)
  let ?m = "take (log_offset g) m @ line_text c @ [NUL] @ drop (log_offset g + length (line_text c) + 1) m"
  have buf: "log_to_buffer (log_offset g) (log_texts path c) m = Inr ?m"
    using log_to_buffer_value [of "log_texts path c" "log_offset g" m] fits m(2) by (simp add: t)
  have len: "length (log_base g @ ?m) = length (log_base g) + LOG_WINDOW" using m(2) fits by simp
  have "to_int32 (int (length (log_base g @ ?m))) < 0"
    unfolding len using to_int32_neg [of "int (length (log_base g) + LOG_WINDOW)"] big by simp
  then have "remap_log_buffer K (g\<lparr>log_mem := Some ?m, log_offset := x, console := y\<rparr>) = None" for x y
    using f by (simp add: remap_log_buffer_def to_file_def)
  then show ?thesis using m(1) path buf t full by (simp add: log_message_def Let_def)
qed

end
