(* ===== verification/Migration.thy ===== *)
theory Migration
  imports Numerals Buffer "HOL-Library.List_Lexorder" "HOL-Library.Char_ord"
begin

text \<open>
  \<^verbatim>\<open>src/utils/db_migration.c\<close>: at the start the server brings its database up to date. It reads the
  version the database is at, collects the files of \<^verbatim>\<open>migrations/\<close> with a higher version, and executes
  them in the order of their names inside one transaction. SQLite and the file system are arguments.
\<close>

section \<open>SQLite\<close>

text \<open>
  The calls of the SQLite library on the state of the connection and its database, in the groups the
  program uses them in: \<open>sq_versions\<close> prepares and steps \<open>SCHEMA_VERSION_SQL\<close> (on the left the
  message of a failed preparation, on the right the first column of the rows), \<open>sq_prepare\<close> and
  \<open>sq_insert\<close> are for \<open>SCHEMA_VERSION_INSERT_SQL\<close> with its two bindings.
\<close>

record 'd migration_db =
  sq_remove :: "string \<Rightarrow> 'd \<Rightarrow> int \<times> 'd"
  sq_open :: "string \<Rightarrow> 'd \<Rightarrow> int \<times> 'd"
  sq_close :: "'d \<Rightarrow> 'd"
  sq_exec :: "string \<Rightarrow> 'd \<Rightarrow> int \<times> 'd"
  sq_versions :: "'d \<Rightarrow> string option + int list"
  sq_prepare :: "'d \<Rightarrow> bool"
  sq_insert :: "int \<Rightarrow> string \<Rightarrow> 'd \<Rightarrow> bool \<times> 'd"

abbreviation DB_OK :: int where "DB_OK \<equiv> 0"
abbreviation BEGIN_SQL :: string where "BEGIN_SQL \<equiv> ''BEGIN TRANSACTION;''"
abbreviation COMMIT_SQL :: string where "COMMIT_SQL \<equiv> ''COMMIT;''"
abbreviation ROLLBACK_SQL :: string where "ROLLBACK_SQL \<equiv> ''ROLLBACK;''"
abbreviation DB_MIGRATE_DIR :: string where "DB_MIGRATE_DIR \<equiv> ''migrations/''"
abbreviation DB_MIGRATION_MAX_FILE_SIZE :: nat where "DB_MIGRATION_MAX_FILE_SIZE \<equiv> 4096"

definition DB_MIGRATE_BUFFER_SIZE :: nat where
  "DB_MIGRATE_BUFFER_SIZE = 65536"

text \<open>
  The current version, with whether the connection is still open: a preparation that fails for another
  reason than a missing table closes it.
\<close>

definition get_current_schema_version :: "'d migration_db \<Rightarrow> 'd \<Rightarrow> int \<times> bool \<times> 'd" where
  "get_current_schema_version D d =
     (case sq_versions D d of
        Inl err_msg \<Rightarrow>
          (case err_msg of
             Some m \<Rightarrow> if strstr m ''no such table'' \<noteq> None then (0, True, d) else (-1, False, sq_close D d)
           | None \<Rightarrow> (-1, False, sq_close D d))
      | Inr versions \<Rightarrow> (foldl (\<lambda>last version. if version > last then version else last) 0 versions, True, d))"

definition insert_schema_version :: "'d migration_db \<Rightarrow> int \<Rightarrow> string \<Rightarrow> 'd \<Rightarrow> int \<times> 'd" where
  "insert_schema_version D version name d =
     (if \<not> sq_prepare D d then (-1, d)
      else let (inserted, d') = sq_insert D version name d in (if inserted then 0 else -1, d'))"

definition begin_transaction :: "'d migration_db \<Rightarrow> 'd \<Rightarrow> int \<times> 'd" where
  "begin_transaction D d = sq_exec D BEGIN_SQL d"

definition commit :: "'d migration_db \<Rightarrow> 'd \<Rightarrow> int \<times> 'd" where
  "commit D d = sq_exec D COMMIT_SQL d"

definition rollback :: "'d migration_db \<Rightarrow> 'd \<Rightarrow> int \<times> 'd" where
  "rollback D d = sq_exec D ROLLBACK_SQL d"

section \<open>The files\<close>

record dir_entry =
  d_name :: string
  d_reg :: bool

text \<open>\<open>sscanf(name, "v%d_", &version) == 1\<close>: what follows the number does not count.\<close>

definition scan_version :: "string \<Rightarrow> int option" where
  "scan_version name =
     (case name of
        [] \<Rightarrow> None
      | c # r \<Rightarrow>
          if c \<noteq> CHR ''v'' then None
          else let r1 = dropWhile is_space r;
                   r2 = (case r1 of x # xs \<Rightarrow> if x = CHR ''-'' \<or> x = CHR ''+'' then xs else r1 | [] \<Rightarrow> []) in
            if takeWhile is_digit r2 = [] then None else Some (to_int32 (strtol10 r)))"

definition pending :: "int \<Rightarrow> dir_entry \<Rightarrow> bool" where
  "pending current_version e \<longleftrightarrow> d_reg e \<and>
     (case scan_version (d_name e) of None \<Rightarrow> False | Some version \<Rightarrow> \<not> version \<le> current_version)"

text \<open>
  The loop over the directory fills an array of ten names; \<open>None\<close> as a directory is one that cannot be
  opened. The names are then sorted by \<open>strcmp\<close>.
\<close>

fun collect :: "int \<Rightarrow> dir_entry list \<Rightarrow> string list \<Rightarrow> string list result" where
  "collect current_version [] files = Inr files"
| "collect current_version (e # es) files =
     (if \<not> pending current_version e then collect current_version es files
      else in_bounds ''migration_files'' (length files < 10 \<and> length (d_name e) < DB_MIGRATION_MAX_FILE_SIZE)
        (collect current_version es (files @ [d_name e])))"

definition find_migration_files :: "dir_entry list option \<Rightarrow> int \<Rightarrow> (int \<times> string list) result" where
  "find_migration_files dir current_version =
     (case dir of
        None \<Rightarrow> Inr (-1, [])
      | Some entries \<Rightarrow> and_then (collect current_version entries []) (\<lambda>files. Inr (0, sort files)))"

definition clean_db :: "'d migration_db \<Rightarrow> string \<Rightarrow> 'd \<Rightarrow> int \<times> 'd" where
  "clean_db D url d = sq_remove D url d"

section \<open>The migration\<close>

text \<open>Giving up inside the transaction.\<close>

definition give_up :: "'d migration_db \<Rightarrow> 'd \<Rightarrow> int \<times> 'd" where
  "give_up D d = (-1, sq_close D (snd (rollback D d)))"

fun run_migrations :: "'d migration_db \<Rightarrow> (string \<Rightarrow> string option) \<Rightarrow> int \<Rightarrow> string list \<Rightarrow> 'd \<Rightarrow> int \<times> 'd" where
  "run_migrations D fopen current_version [] d = (0, sq_close D (snd (commit D d)))"
| "run_migrations D fopen current_version (name # names) d =
     (if DB_MIGRATION_MAX_FILE_SIZE \<le> length (DB_MIGRATE_DIR @ name) then give_up D d
      else case fopen (DB_MIGRATE_DIR @ name) of
        None \<Rightarrow> give_up D d
      | Some contents \<Rightarrow>
          if take DB_MIGRATE_BUFFER_SIZE contents = [] then give_up D d
          else let (rc, d1) = sq_exec D (cstr (take DB_MIGRATE_BUFFER_SIZE contents)) d in
            if rc \<noteq> DB_OK then give_up D d1
            else let (ins, d2) = insert_schema_version D (current_version + 1) name d1 in
              if ins \<noteq> 0 then give_up D d2
              else run_migrations D fopen (current_version + 1) names d2)"

definition migrate_db :: "'d migration_db \<Rightarrow> (string \<Rightarrow> string option) \<Rightarrow> dir_entry list option \<Rightarrow> bool \<Rightarrow> string \<Rightarrow> 'd \<Rightarrow>
    (int \<times> 'd) result" where
  "migrate_db D fopen dir reset url d =
     (let (cleaned, d0) = (if reset then clean_db D url d else (0, d)) in
      if cleaned \<noteq> 0 then Inr (-1, d0)
      else let (opened, d1) = sq_open D url d0 in
        if opened \<noteq> DB_OK then Inr (-1, d1)
        else let (current_version, connected, d2) = get_current_schema_version D d1 in
          if current_version < 0
          then in_bounds ''db'' connected (Inr (-1, sq_close D d2))
          else and_then (find_migration_files dir current_version) (\<lambda>(found, files).
            if found \<noteq> 0 then Inr (-1, sq_close D d2)
            else let (began, d3) = begin_transaction D d2 in
              if began \<noteq> DB_OK then Inr (-1, sq_close D d3)
              else Inr (run_migrations D fopen current_version files d3)))"

section \<open>What SQLite promises\<close>

text \<open>
  The contents of a database for the migration: the scripts executed so far and the rows of
  \<open>SchemaVersion\<close>. \<open>committed\<close> is what the file holds, \<open>current\<close> what the connection sees; \<open>plain\<close> are the
  scripts without transaction control.
\<close>

type_synonym db_contents = "string list \<times> (int \<times> string) list"

definition sqlite_laws :: "'d migration_db \<Rightarrow> ('d \<Rightarrow> db_contents) \<Rightarrow> ('d \<Rightarrow> db_contents) \<Rightarrow>
    ('d \<Rightarrow> bool) \<Rightarrow> (string \<Rightarrow> bool) \<Rightarrow> bool" where
  "sqlite_laws D committed current in_transaction plain \<longleftrightarrow>
     (\<forall>url d. committed (snd (sq_open D url d)) = committed d) \<and>
     (\<forall>d. committed (sq_close D d) = committed d) \<and>
     (\<forall>d rows. sq_versions D d = Inr rows \<longrightarrow> set rows = fst ` set (snd (committed d))) \<and>
     (\<forall>d m. sq_versions D d = Inl (Some m) \<and> strstr m ''no such table'' \<noteq> None \<longrightarrow> snd (committed d) = []) \<and>
     (\<forall>d. committed (snd (sq_exec D BEGIN_SQL d)) = committed d \<and>
        (fst (sq_exec D BEGIN_SQL d) = DB_OK \<longrightarrow>
           in_transaction (snd (sq_exec D BEGIN_SQL d)) \<and> current (snd (sq_exec D BEGIN_SQL d)) = committed d)) \<and>
     (\<forall>d s. in_transaction d \<and> plain s \<longrightarrow> committed (snd (sq_exec D s d)) = committed d \<and>
        (fst (sq_exec D s d) = DB_OK \<longrightarrow>
           in_transaction (snd (sq_exec D s d)) \<and> current (snd (sq_exec D s d)) = (fst (current d) @ [s], snd (current d)))) \<and>
     (\<forall>d v n. in_transaction d \<longrightarrow> committed (snd (sq_insert D v n d)) = committed d \<and>
        (fst (sq_insert D v n d) \<longrightarrow>
           in_transaction (snd (sq_insert D v n d)) \<and> current (snd (sq_insert D v n d)) = (fst (current d), snd (current d) @ [(v, n)]))) \<and>
     (\<forall>d. in_transaction d \<longrightarrow> committed (snd (sq_exec D COMMIT_SQL d)) =
        (if fst (sq_exec D COMMIT_SQL d) = DB_OK then current d else committed d)) \<and>
     (\<forall>d. committed (snd (sq_exec D ROLLBACK_SQL d)) = committed d)"

lemma sqlite_lawsD:
  assumes "sqlite_laws D committed current in_transaction plain"
  shows "committed (snd (sq_open D url d)) = committed d" and "committed (sq_close D d) = committed d"
    and "sq_versions D d = Inr rows \<Longrightarrow> set rows = fst ` set (snd (committed d))"
    and "sq_versions D d = Inl (Some m) \<Longrightarrow> strstr m ''no such table'' \<noteq> None \<Longrightarrow> snd (committed d) = []"
    and "sq_exec D BEGIN_SQL d = (rc, d') \<Longrightarrow> committed d' = committed d \<and>
      (rc = DB_OK \<longrightarrow> in_transaction d' \<and> current d' = committed d)"
    and "in_transaction d \<Longrightarrow> plain s \<Longrightarrow> sq_exec D s d = (rc, d') \<Longrightarrow> committed d' = committed d \<and>
      (rc = DB_OK \<longrightarrow> in_transaction d' \<and> current d' = (fst (current d) @ [s], snd (current d)))"
    and "in_transaction d \<Longrightarrow> sq_insert D v n d = (ok, d') \<Longrightarrow> committed d' = committed d \<and>
      (ok \<longrightarrow> in_transaction d' \<and> current d' = (fst (current d), snd (current d) @ [(v, n)]))"
    and "in_transaction d \<Longrightarrow> sq_exec D COMMIT_SQL d = (rc, d') \<Longrightarrow> committed d' = (if rc = DB_OK then current d else committed d)"
    and "committed (snd (sq_exec D ROLLBACK_SQL d)) = committed d"
proof -
  note L = assms [unfolded sqlite_laws_def]
  show "committed (snd (sq_open D url d)) = committed d" and "committed (sq_close D d) = committed d"
    and "committed (snd (sq_exec D ROLLBACK_SQL d)) = committed d" using L by simp_all
  show "sq_versions D d = Inr rows \<Longrightarrow> set rows = fst ` set (snd (committed d))" using L by blast
  show "sq_versions D d = Inl (Some m) \<Longrightarrow> strstr m ''no such table'' \<noteq> None \<Longrightarrow> snd (committed d) = []" using L by blast
  have "committed (snd (sq_exec D BEGIN_SQL d)) = committed d \<and> (fst (sq_exec D BEGIN_SQL d) = DB_OK \<longrightarrow>
      in_transaction (snd (sq_exec D BEGIN_SQL d)) \<and> current (snd (sq_exec D BEGIN_SQL d)) = committed d)"
    using L by blast
  then show "sq_exec D BEGIN_SQL d = (rc, d') \<Longrightarrow> committed d' = committed d \<and>
      (rc = DB_OK \<longrightarrow> in_transaction d' \<and> current d' = committed d)" by simp
  have "in_transaction d \<and> plain s \<longrightarrow> committed (snd (sq_exec D s d)) = committed d \<and> (fst (sq_exec D s d) = DB_OK \<longrightarrow>
      in_transaction (snd (sq_exec D s d)) \<and> current (snd (sq_exec D s d)) = (fst (current d) @ [s], snd (current d)))"
    using L by blast
  then show "in_transaction d \<Longrightarrow> plain s \<Longrightarrow> sq_exec D s d = (rc, d') \<Longrightarrow> committed d' = committed d \<and>
      (rc = DB_OK \<longrightarrow> in_transaction d' \<and> current d' = (fst (current d) @ [s], snd (current d)))" by simp
  have "in_transaction d \<longrightarrow> committed (snd (sq_insert D v n d)) = committed d \<and> (fst (sq_insert D v n d) \<longrightarrow>
      in_transaction (snd (sq_insert D v n d)) \<and> current (snd (sq_insert D v n d)) = (fst (current d), snd (current d) @ [(v, n)]))"
    using L by blast
  then show "in_transaction d \<Longrightarrow> sq_insert D v n d = (ok, d') \<Longrightarrow> committed d' = committed d \<and>
      (ok \<longrightarrow> in_transaction d' \<and> current d' = (fst (current d), snd (current d) @ [(v, n)]))" by simp
  have "in_transaction d \<longrightarrow> committed (snd (sq_exec D COMMIT_SQL d)) =
      (if fst (sq_exec D COMMIT_SQL d) = DB_OK then current d else committed d)" using L by blast
  then show "in_transaction d \<Longrightarrow> sq_exec D COMMIT_SQL d = (rc, d') \<Longrightarrow>
      committed d' = (if rc = DB_OK then current d else committed d)" by simp
qed

section \<open>Facts\<close>

text \<open>The version of a database.\<close>

definition schema_version :: "db_contents \<Rightarrow> int" where
  "schema_version c = Max (insert 0 (fst ` set (snd c)))"

lemma foldl_later: "foldl (\<lambda>last version. if version > last then version else last) (a :: int) vs = Max (insert a (set vs))"
proof (induction vs arbitrary: a)
  case (Cons v vs)
  have "foldl (\<lambda>last version. if version > last then version else last) a (v # vs) = Max (insert (max a v) (set vs))"
    using Cons.IH [of "if v > a then v else a"] by (cases "v > a") (simp_all add: max_def)
  also have "\<dots> = Max (insert a (set (v # vs)))"
    by (cases "vs = []") (simp_all add: insert_commute max.left_commute max.commute max.assoc)
  finally show ?case .
qed simp

lemma current_version_value:
  assumes L: "sqlite_laws D committed current in_transaction plain"
    and v: "get_current_schema_version D d = (v, connected, d')"
  shows "committed d' = committed d" and "connected \<Longrightarrow> d' = d \<and> v = schema_version (committed d)" and "\<not> connected \<Longrightarrow> v = -1"
  using v sqlite_lawsD(2-4) [OF L]
  by (auto simp: get_current_schema_version_def foldl_later schema_version_def split: sum.splits option.splits if_splits)

lemma collect_value:
  "collect v es files = Inr fs \<Longrightarrow> fs = files @ map d_name (filter (pending v) es) \<and> (filter (pending v) es = [] \<or> length fs \<le> 10)"
  by (induction es arbitrary: files) (force split: if_splits)+

lemma collect_overflow:
  "10 < length files + length (filter (pending v) es) \<Longrightarrow> length files \<le> 10 \<Longrightarrow>
    collect v es files = Inl (Out_of_bounds ''migration_files'')"
proof (induction es arbitrary: files)
  case (Cons e es)
  show ?case
  proof (cases "pending v e \<and> length files < 10 \<and> length (d_name e) < DB_MIGRATION_MAX_FILE_SIZE")
    case True
    then have "collect v es (files @ [d_name e]) = Inl (Out_of_bounds ''migration_files'')"
      using Cons.prems by (intro Cons.IH) simp_all
    then show ?thesis using True by simp
  next
    case False
    then show ?thesis using Cons by (auto simp: in_bounds_def)
  qed
qed simp

lemma find_files_value:
  "find_migration_files dir v = Inr (found, files) \<Longrightarrow>
    (case dir of None \<Rightarrow> found = -1 | Some es \<Rightarrow> found = 0 \<and> files = sort (map d_name (filter (pending v) es)))"
  by (auto simp: find_migration_files_def split: option.splits dest: collect_value)

text \<open>The script of a file, and the rows its migration adds.\<close>

definition script :: "(string \<Rightarrow> string option) \<Rightarrow> string \<Rightarrow> string" where
  "script fopen name = cstr (take DB_MIGRATE_BUFFER_SIZE (the (fopen (DB_MIGRATE_DIR @ name))))"

definition migrated :: "(string \<Rightarrow> string option) \<Rightarrow> int \<Rightarrow> string list \<Rightarrow> db_contents \<Rightarrow> db_contents" where
  "migrated fopen v names c = (fst c @ map (script fopen) names, snd c @ zip [v + 1..v + int (length names)] names)"

lemma migrated_Cons:
  "migrated fopen v (n # ns) c = migrated fopen (v + 1) ns (fst c @ [script fopen n], snd c @ [(v + 1, n)])"
  by (simp add: migrated_def upto_rec1 add.assoc)

lemma give_up_keeps:
  "sqlite_laws D committed current in_transaction plain \<Longrightarrow> give_up D d = (r, d') \<Longrightarrow> r = -1 \<and> committed d' = committed d"
  using sqlite_lawsD(2) [of D committed current in_transaction plain "snd (sq_exec D ROLLBACK_SQL d)"]
    sqlite_lawsD(9) [of D committed current in_transaction plain d]
  by (auto simp: give_up_def rollback_def)

lemma run_migrations_value:
  assumes L: "sqlite_laws D committed current in_transaction plain"
    and files: "\<And>name. fopen (DB_MIGRATE_DIR @ name) \<noteq> None \<Longrightarrow> plain (script fopen name)"
  shows "in_transaction d \<Longrightarrow> run_migrations D fopen v names d = (r, d') \<Longrightarrow>
    (r = -1 \<and> committed d' = committed d) \<or>
    (r = 0 \<and> (committed d' = migrated fopen v names (current d) \<or>
       (\<exists>x. in_transaction x \<and> fst (sq_exec D COMMIT_SQL x) \<noteq> DB_OK \<and> committed d' = committed d)))"
proof (induction names arbitrary: v d)
  case Nil
  obtain rc d1 where c: "sq_exec D COMMIT_SQL d = (rc, d1)" by (cases "sq_exec D COMMIT_SQL d")
  have "migrated fopen v [] (current d) = current d" by (simp add: migrated_def)
  then show ?case
    using Nil c sqlite_lawsD(8) [OF L Nil(1) c] sqlite_lawsD(2) [OF L] by (cases "rc = DB_OK") (auto simp: commit_def)
next
  case (Cons n ns)
  show ?case
  proof (cases "give_up D d = (r, d')")
    case True
    then show ?thesis using give_up_keeps [OF L] by blast
  next
    case False
    then obtain contents where f: "fopen (DB_MIGRATE_DIR @ n) = Some contents" "take DB_MIGRATE_BUFFER_SIZE contents \<noteq> []"
      "\<not> DB_MIGRATION_MAX_FILE_SIZE \<le> length (DB_MIGRATE_DIR @ n)"
      using Cons.prems(2) by (auto split: if_splits option.splits)
    have s: "script fopen n = cstr (take DB_MIGRATE_BUFFER_SIZE contents)" "plain (script fopen n)"
      using f(1) files [of n] by (simp_all add: script_def)
    obtain rc d1 where e: "sq_exec D (script fopen n) d = (rc, d1)" by (cases "sq_exec D (script fopen n) d")
    note e1 = sqlite_lawsD(6) [OF L Cons.prems(1) s(2) e]
    obtain ins d2 where i: "insert_schema_version D (v + 1) n d1 = (ins, d2)" by (cases "insert_schema_version D (v + 1) n d1")
    have run: "(r, d') = (if rc \<noteq> DB_OK then give_up D d1 else if ins \<noteq> 0 then give_up D d2
        else run_migrations D fopen (v + 1) ns d2)"
      using Cons.prems(2) f e i s(1) by (cases "rc = DB_OK"; cases "ins = 0") simp_all
    show ?thesis
    proof (cases "rc = DB_OK")
      case False
      then show ?thesis using run give_up_keeps [OF L, of d1 r d'] e1 by auto
    next
      case True
      then have d1: "in_transaction d1" "current d1 = (fst (current d) @ [script fopen n], snd (current d))"
        "committed d1 = committed d" using e1 by auto
      have d2: "committed d2 = committed d" "ins = 0 \<longrightarrow> in_transaction d2 \<and>
          current d2 = (fst (current d) @ [script fopen n], snd (current d) @ [(v + 1, n)])"
        using i sqlite_lawsD(7) [OF L d1(1), of "v + 1" n] d1(2,3)
        by (auto simp: insert_schema_version_def split: if_splits prod.splits)
      show ?thesis
      proof (cases "ins = 0")
        case False
        then show ?thesis using run True give_up_keeps [OF L, of d2 r d'] d2(1) by auto
      next
        case ins: True
        then show ?thesis using run True Cons.IH [of d2 "v + 1"] d2 by (simp add: migrated_Cons)
      qed
    qed
  qed
qed

text \<open>What a call of \<open>migrate_db\<close> comes to, on a database that is not reset.\<close>

lemma migrate_db_value:
  assumes L: "sqlite_laws D committed current in_transaction plain"
    and files: "\<And>name. fopen (DB_MIGRATE_DIR @ name) \<noteq> None \<Longrightarrow> plain (script fopen name)"
    and run: "migrate_db D fopen dir False url d = Inr (r, d')"
  shows "(r = -1 \<and> committed d' = committed d) \<or>
    (r = 0 \<and> (\<exists>es v names. dir = Some es \<and> v = schema_version (committed d) \<and>
       names = sort (map d_name (filter (pending v) es)) \<and>
       (committed d' = migrated fopen v names (committed d) \<or>
        (\<exists>x. in_transaction x \<and> fst (sq_exec D COMMIT_SQL x) \<noteq> DB_OK \<and> committed d' = committed d))))"
proof -
  obtain opened d1 where o: "sq_open D url d = (opened, d1)" by (cases "sq_open D url d")
  have d1: "committed d1 = committed d" using sqlite_lawsD(1) [OF L, of url d] o by simp
  obtain v conn d2 where v: "get_current_schema_version D d1 = (v, conn, d2)" by (cases "get_current_schema_version D d1")
  note cv = current_version_value [OF L v]
  obtain began d3 where b: "sq_exec D BEGIN_SQL d2 = (began, d3)" by (cases "sq_exec D BEGIN_SQL d2")
  note bd = sqlite_lawsD(5) [OF L b]
  show ?thesis
  proof (cases "opened \<noteq> DB_OK \<or> v < 0")
    case True
    then show ?thesis using run o v d1 cv(1) sqlite_lawsD(2) [OF L] by (auto simp: migrate_db_def split: if_splits)
  next
    case False
    then have conn: conn using cv(3) by auto
    note sv = cv(2) [OF conn]
    obtain found names where f: "find_migration_files dir v = Inr (found, names)"
      using run o v False by (auto simp: migrate_db_def)
    have r: "(r, d') = (if found \<noteq> 0 then (-1, sq_close D d2) else if began \<noteq> DB_OK then (-1, sq_close D d3)
        else run_migrations D fopen v names d3)"
      using run o v False f b by (auto simp: migrate_db_def begin_transaction_def split: if_splits)
    show ?thesis
    proof (cases "found \<noteq> 0 \<or> began \<noteq> DB_OK")
      case True
      then show ?thesis using r d1 cv(1) bd sqlite_lawsD(2) [OF L] by (auto split: if_splits)
    next
      case ok: False
      then obtain es where es: "dir = Some es" "names = sort (map d_name (filter (pending v) es))"
        using find_files_value [OF f] by (auto split: option.splits)
      have t: "in_transaction d3" "current d3 = committed d" "committed d3 = committed d"
        using bd ok d1 sv by auto
      have "run_migrations D fopen v names d3 = (r, d')" using r ok by simp
      from run_migrations_value [OF L files t(1) this] show ?thesis
        using t es sv d1 by auto
    qed
  qed
qed

lemma schema_version_nonneg: "0 \<le> schema_version c"
  by (simp add: schema_version_def)

lemma schema_version_migrated:
  "schema_version (migrated fopen (schema_version c) names c) = schema_version c + int (length names)"
proof -
  let ?v = "schema_version c"
  have v: "?v = Max (insert 0 (fst ` set (snd c)))" by (simp add: schema_version_def)
  have "map fst (zip [?v + 1..?v + int (length names)] names) = [?v + 1..?v + int (length names)]"
    by (rule map_fst_zip) simp
  then have z: "fst ` set (zip [?v + 1..?v + int (length names)] names) = {?v + 1..?v + int (length names)}"
    by (metis set_map set_upto)
  have rows: "fst ` set (snd (migrated fopen ?v names c)) = fst ` set (snd c) \<union> {?v + 1..?v + int (length names)}"
    unfolding migrated_def by (simp add: image_Un z)
  have "Max (insert 0 (fst ` set (snd c) \<union> {?v + 1..?v + int (length names)})) = ?v + int (length names)"
  proof (rule Max_eqI)
    fix x assume "x \<in> insert 0 (fst ` set (snd c) \<union> {?v + 1..?v + int (length names)})"
    moreover have "y \<le> ?v" if "y \<in> insert 0 (fst ` set (snd c))" for y
      unfolding v using that by (intro Max_ge) auto
    ultimately have "x \<le> ?v \<or> x \<in> {?v + 1..?v + int (length names)}" by blast
    then show "x \<le> ?v + int (length names)" by auto
  next
    have "?v \<in> insert 0 (fst ` set (snd c))" unfolding v by (intro Max_in) auto
    then show "?v + int (length names) \<in> insert 0 (fst ` set (snd c) \<union> {?v + 1..?v + int (length names)})"
      by (cases names) auto
  qed simp
  then show ?thesis using rows by (simp add: schema_version_def [of "migrated fopen ?v names c"])
qed

text \<open>A database kept as a value: what is committed, and the transaction that is open.\<close>

type_synonym script_db = "db_contents \<times> db_contents option"

definition script_sqlite :: "script_db migration_db" where
  "script_sqlite = \<lparr>
     sq_remove = (\<lambda>url d. (0, (([], []), None))),
     sq_open = (\<lambda>url (c, t). (0, (c, None))),
     sq_close = (\<lambda>(c, t). (c, None)),
     sq_exec = (\<lambda>s (c, t).
       if s = BEGIN_SQL then (case t of None \<Rightarrow> (0, (c, Some c)) | Some x \<Rightarrow> (1, (c, t)))
       else if s = COMMIT_SQL then (case t of None \<Rightarrow> (1, (c, t)) | Some x \<Rightarrow> (0, (x, None)))
       else if s = ROLLBACK_SQL then (0, (c, None))
       else (case t of None \<Rightarrow> (0, ((fst c @ [s], snd c), None)) | Some x \<Rightarrow> (0, (c, Some (fst x @ [s], snd x))))),
     sq_versions = (\<lambda>(c, t). Inr (map fst (snd c))),
     sq_prepare = (\<lambda>d. True),
     sq_insert = (\<lambda>v n (c, t). case t of None \<Rightarrow> (True, ((fst c, snd c @ [(v, n)]), None))
        | Some x \<Rightarrow> (True, (c, Some (fst x, snd x @ [(v, n)]))))\<rparr>"

definition plain_script :: "string \<Rightarrow> bool" where
  "plain_script s \<longleftrightarrow> s \<notin> {BEGIN_SQL, COMMIT_SQL, ROLLBACK_SQL}"

abbreviation empty_db :: script_db where
  "empty_db \<equiv> (([], []), None)"

abbreviation script_current :: "script_db \<Rightarrow> db_contents" where
  "script_current d \<equiv> (case snd d of None \<Rightarrow> fst d | Some x \<Rightarrow> x)"

lemma script_sqlite_laws: "sqlite_laws script_sqlite fst script_current (\<lambda>d. snd d \<noteq> None) plain_script"
  unfolding sqlite_laws_def script_sqlite_def plain_script_def
  by (auto split: option.splits prod.splits)

definition two_scripts :: "string \<Rightarrow> string option" where
  "two_scripts path = (if path = ''migrations/v1_a.sql'' then Some ''CREATE A'' else if path = ''migrations/v2_b.sql'' then Some ''CREATE B'' else None)"

lemma two_scripts_plain: "two_scripts (DB_MIGRATE_DIR @ name) \<noteq> None \<Longrightarrow> plain_script (script two_scripts name)"
  by (simp add: two_scripts_def script_def plain_script_def cstr_def DB_MIGRATE_BUFFER_SIZE_def split: if_splits)

definition listing :: "string list \<Rightarrow> dir_entry list" where
  "listing names = map (\<lambda>n. \<lparr>d_name = n, d_reg = True\<rparr>) names"

lemmas scan_simps = scan_version_def strtol10_def digits_value_def is_digit_def is_space_def between_def code_def to_int32_def

section \<open>Properties\<close>

text \<open>
  C19: A migration is all or nothing: when \<open>migrate_db\<close> returns -1 the database file is as before, however
  far it came. The scripts hold no transaction control and the database is not reset.
\<close>

theorem failed_migration_keeps_database:
  assumes "sqlite_laws D committed current in_transaction plain"
    and "\<And>name. fopen (DB_MIGRATE_DIR @ name) \<noteq> None \<Longrightarrow> plain (script fopen name)"
    and "migrate_db D fopen dir False url d = Inr (r, d')" and "r \<noteq> 0"
  shows "r = -1 \<and> committed d' = committed d"
  using migrate_db_value [OF assms(1,2,3)] assms(4) by simp

theorem failed_migration_keeps_database_witness:
  "\<exists>d. migrate_db script_sqlite two_scripts (Some (listing [''v1_a.sql'', ''v3_c.sql''])) False ''data.db'' empty_db = Inr (-1, d) \<and>
    fst d = ([], [])"
proof -
  have r: "migrate_db script_sqlite two_scripts (Some (listing [''v1_a.sql'', ''v3_c.sql''])) False ''data.db'' empty_db
      = Inr (-1, empty_db)"
    by (simp add: migrate_db_def get_current_schema_version_def find_migration_files_def listing_def pending_def scan_simps
        begin_transaction_def insert_schema_version_def give_up_def rollback_def two_scripts_def script_sqlite_def cstr_def
        DB_MIGRATE_BUFFER_SIZE_def)
  have "- 1 = (- 1 :: int) \<and> fst empty_db = fst empty_db"
    by (rule failed_migration_keeps_database [OF script_sqlite_laws two_scripts_plain r]) simp_all
  then show ?thesis using r by simp
qed



text \<open>
  The version number in the name of a file is only compared, what is recorded is the count. So a file
  whose number is ahead of the count, because a number was left out, is still pending after its
  migration: the next start of the server executes it again.
\<close>

lemma skipped_version_runs_again:
  assumes "sqlite_laws D committed current in_transaction plain"
    and "\<And>name. fopen (DB_MIGRATE_DIR @ name) \<noteq> None \<Longrightarrow> plain (script fopen name)"
    and "\<And>x. in_transaction x \<Longrightarrow> fst (sq_exec D COMMIT_SQL x) = DB_OK"
    and "migrate_db D fopen (Some es) False url d = Inr (0, d')"
    and "pending (schema_version (committed d)) e" and "scan_version (d_name e) = Some k"
    and "schema_version (committed d) + int (length (filter (pending (schema_version (committed d))) es)) < k"
  shows "pending (schema_version (committed d')) e"
proof -
  let ?v = "schema_version (committed d)"
  have "committed d' = migrated fopen ?v (sort (map d_name (filter (pending ?v) es))) (committed d)"
    using migrate_db_value [OF assms(1,2,4)] assms(3) by auto
  then have "schema_version (committed d') = ?v + int (length (filter (pending ?v) es))"
    by (simp add: schema_version_migrated)
  then show ?thesis using assms(5-7) by (simp add: pending_def)
qed

text \<open>The order of the names is not that of the versions: version 10 comes before version 2.\<close>

lemma version_ten_first:
  assumes "v < 2" and "length a < 200" "length b < 200"
  shows "find_migration_files (Some (listing [''v2_'' @ a, ''v10_'' @ b])) v = Inr (0, [''v10_'' @ b, ''v2_'' @ a])"
proof -
  have "scan_version (''v2_'' @ a) = Some 2" "scan_version (''v10_'' @ b) = Some 10" by (simp_all add: scan_simps)
  then show ?thesis using assms by (simp add: find_migration_files_def listing_def pending_def)
qed

text \<open>
  There is room for ten files: when more are pending, as in the first start of a project with eleven
  migrations, the names are written past the array.
\<close>

lemma many_migrations_overflow:
  assumes "10 < length (filter (pending v) es)"
  shows "find_migration_files (Some es) v = Inl (Out_of_bounds ''migration_files'')"
  using collect_overflow [of "[]" v es] assms by (simp add: find_migration_files_def)

end
