(* ===== verification/Startup.thy ===== *)
theory Startup
  imports Serving Configuration Logger Migration
begin

text \<open>
  \<^verbatim>\<open>src/main.c\<close> with what it uses of \<^verbatim>\<open>src/utils/ssl.c\<close>, \<^verbatim>\<open>src/shutdown/\<close> and \<^verbatim>\<open>src/worker.c\<close>: the start
  of the server as a sequence of steps, each of which may stop the process, the state \<open>status\<close> that
  says how far it came, and \<open>handle_exit\<close>, which gives back what has been acquired up to there.
\<close>

section \<open>Signals and the stop flag\<close>

abbreviation SIGINT :: int where "SIGINT \<equiv> 2"
abbreviation SIGQUIT :: int where "SIGQUIT \<equiv> 3"
abbreviation SIGABRT :: int where "SIGABRT \<equiv> 6"
abbreviation SIGSEGV :: int where "SIGSEGV \<equiv> 11"
abbreviation SIGPIPE :: int where "SIGPIPE \<equiv> 13"
abbreviation SIGTERM :: int where "SIGTERM \<equiv> 15"

datatype disposition = Default_action | Ignored | Calls_handle_exit

definition handle_signals :: "int \<Rightarrow> disposition" where
  "handle_signals signum =
     (if signum = SIGINT \<or> signum = SIGTERM \<or> signum = SIGQUIT \<or> signum = SIGSEGV \<or> signum = SIGABRT
      then Calls_handle_exit
      else if signum = SIGPIPE then Ignored
      else Default_action)"

definition get_signal_description :: "int \<Rightarrow> string" where
  "get_signal_description signum =
     (if signum = SIGINT then ''Interrupt from keyboard''
      else if signum = SIGTERM then ''Termination signal''
      else if signum = SIGQUIT then ''Quit from keyboard''
      else if signum = SIGPIPE then ''Broken pipe''
      else if signum = SIGSEGV then ''Segmentation fault''
      else if signum = SIGABRT then ''Abnormal termination (probably from assertion)''
      else ''Unknown signal'')"

text \<open>\<open>_stop_server\<close>: only a call from \<^verbatim>\<open>main.c\<close> sets the flag.\<close>

definition stop_server :: "string option \<Rightarrow> bool \<Rightarrow> bool result" where
  "stop_server from_file server_stop =
     (case from_file of
        None \<Rightarrow> Inl (Assert_failed ''file != NULL'')
      | Some f \<Rightarrow> if strstr f ''main.c'' = None then Inr server_stop else Inr True)"

section \<open>TLS\<close>

record ssl_lib =
  ctx_new :: bool
  set_min_proto :: bool
  use_cert_chain :: "string \<Rightarrow> int"
  use_private_key :: "string \<Rightarrow> int"

record ssl_ctx =
  ctx_min_version :: int
  ctx_options :: int
  ctx_cert :: string
  ctx_key :: string
  ctx_cache_id :: string
  ctx_cache_size :: nat
  ctx_timeout :: nat
  ctx_verify_peer :: bool

abbreviation TLS1_2_VERSION :: int where "TLS1_2_VERSION \<equiv> 0x303"
abbreviation SSL_OP_IGNORE_UNEXPECTED_EOF :: int where "SSL_OP_IGNORE_UNEXPECTED_EOF \<equiv> 0x80"
abbreviation SSL_OP_CIPHER_SERVER_PREFERENCE :: int where "SSL_OP_CIPHER_SERVER_PREFERENCE \<equiv> 0x400000"
abbreviation SSL_OP_NO_RENEGOTIATION :: int where "SSL_OP_NO_RENEGOTIATION \<equiv> 0x40000000"

text \<open>After a failure the context is used once more although it has been freed.\<close>

definition init_ssl_ctx :: "ssl_lib \<Rightarrow> properties \<Rightarrow> ssl_ctx result" where
  "init_ssl_ctx T p =
     assert_that ''ctx != NULL'' (ctx_new T) (
     in_bounds ''ctx'' (set_min_proto T) (
     in_bounds ''ctx'' (0 < use_cert_chain T (cert_file p)) (
     in_bounds ''ctx'' (0 < use_private_key T (private_key_file p)) (
     Inr \<lparr>ctx_min_version = TLS1_2_VERSION,
          ctx_options = SSL_OP_IGNORE_UNEXPECTED_EOF OR SSL_OP_NO_RENEGOTIATION OR SSL_OP_CIPHER_SERVER_PREFERENCE,
          ctx_cert = cert_file p, ctx_key = private_key_file p, ctx_cache_id = ''wind_breaker_server'' @ [NUL],
          ctx_cache_size = session_max_size p, ctx_timeout = 1800, ctx_verify_peer = False\<rparr>))))"

section \<open>The process\<close>

text \<open>What the start uses of its surroundings.\<close>

record ('b, 'p, 'd) machine =
  m_platform :: "('b, 'p) platform"
  m_exists :: "string \<Rightarrow> bool"
  m_fopen :: "string \<Rightarrow> string option"
  m_log :: log_sys
  m_log_fresh :: "nat \<Rightarrow> char"
  m_hello :: log_call
  m_db :: "'d migration_db"
  m_dir :: "dir_entry list option"
  m_setsockopt :: "int \<Rightarrow> int"
  m_getaddrinfo :: "string \<Rightarrow> int \<times> addrinfo list"
  m_ssl :: ssl_lib
  m_create :: "nat \<Rightarrow> handler \<Rightarrow> bool"

text \<open>
  The static variables of \<^verbatim>\<open>main.c\<close> and the states of the modules. An array that is not allocated is
  \<open>None\<close>, the table of the sessions too; \<open>workers\<close> lists the threads started.
\<close>

record 'd process =
  status :: nat
  http_socket_fd :: int
  https_socket_fd :: int
  ctx :: "ssl_ctx option"
  props :: properties
  the_logger :: logger
  main_log_file :: bool
  the_db :: 'd
  marks_table :: "marked option"
  session_table :: "session_cache option"
  poll_table :: poll_array
  workers :: "(nat \<times> handler) list option"

definition level_of :: "int \<Rightarrow> LOG_LEVEL" where
  "level_of n = (if n = 0 then TRACE else if n = 1 then DEBUG else if n = 2 then INFO else if n = 3 then WARN else ERROR)"

definition destination_of :: "int \<Rightarrow> LOG_DESTINATION" where
  "destination_of n = (if n = 0 then CONSOLE_ONLY else if n = 1 then FILE_ONLY else CONSOLE_FILE)"

definition step_properties :: "('b, 'p, 'd) machine \<Rightarrow> string list \<Rightarrow> 'd process \<Rightarrow> 'd process result" where
  "step_properties M argv S =
     and_then (init_properties (m_exists M) (m_fopen M) argv) (\<lambda>(p, out). Inr (S\<lparr>props := p, status := 1\<rparr>))"

definition step_logger :: "('b, 'p, 'd) machine \<Rightarrow> 'd process \<Rightarrow> 'd process result" where
  "step_logger M S =
     and_then (init_logger (m_log M) (case m_fopen M (log_file (props S)) of None \<Rightarrow> [] | Some t \<Rightarrow> t) (m_log_fresh M) (m_hello M)
        (level_of (log_level (props S))) (destination_of (log_type (props S))) (the_logger S)) (\<lambda>(opened, g).
     Inr (S\<lparr>the_logger := g, main_log_file := opened, status := 2\<rparr>))"

definition step_log_file :: "'d process \<Rightarrow> 'd process result" where
  "step_log_file S =
     assert_that ''get_log_type() == CONSOLE_ONLY || log_file != NULL''
       (destination_of (log_type (props S)) = CONSOLE_ONLY \<or> main_log_file S) (Inr (S\<lparr>status := 3\<rparr>))"

definition step_migrate :: "('b, 'p, 'd) machine \<Rightarrow> 'd process \<Rightarrow> 'd process result" where
  "step_migrate M S =
     and_then (migrate_db (m_db M) (m_fopen M) (m_dir M) (reset_db (props S)) (db_url (props S)) (the_db S)) (\<lambda>(r, d).
     assert_that ''migrate_db() == 0'' (r = 0) (Inr (S\<lparr>the_db := d, status := 4\<rparr>)))"

definition step_http :: "('b, 'p, 'd) machine \<Rightarrow> 'd process \<Rightarrow> 'd process result" where
  "step_http M S =
     and_then (get_listener_socket (p_sockets (m_platform M)) (m_setsockopt M) (m_getaddrinfo M) (Some (http_port (props S)))
        (int (listen_backlog_max_size (props S)))) (\<lambda>fd.
     assert_that ''http_socket_fd >= 0'' (0 \<le> fd) (Inr (S\<lparr>http_socket_fd := fd, status := 5\<rparr>)))"

definition step_https :: "('b, 'p, 'd) machine \<Rightarrow> 'd process \<Rightarrow> 'd process result" where
  "step_https M S =
     (if \<not> enable_https (props S) then Inr S
      else and_then (get_listener_socket (p_sockets (m_platform M)) (m_setsockopt M) (m_getaddrinfo M) (Some (https_port (props S)))
             (int (listen_backlog_max_size (props S)))) (\<lambda>fd.
           Inr (S\<lparr>https_socket_fd := fd, status := 6\<rparr>)))"

definition step_ctx :: "('b, 'p, 'd) machine \<Rightarrow> 'd process \<Rightarrow> 'd process result" where
  "step_ctx M S =
     (if enable_https (props S) \<and> 0 \<le> https_socket_fd S
      then and_then (init_ssl_ctx (m_ssl M) (props S)) (\<lambda>c. Inr (S\<lparr>ctx := Some c\<rparr>))
      else Inr S)"

definition step_marks :: "'d process \<Rightarrow> 'd process result" where
  "step_marks S = Inr (S\<lparr>marks_table := Some (init_marked_fds (session_max_size (props S))), status := 7\<rparr>)"

definition step_cache :: "('b, 'p, 'd) machine \<Rightarrow> 'd process \<Rightarrow> 'd process result" where
  "step_cache M S =
     assert_that ''session_array == NULL'' (session_table S = None) (
     and_then (init_session_cache (p_libc (m_platform M)) (session_max_size (props S)) (ctx S \<noteq> None)) (\<lambda>sc.
     Inr (S\<lparr>session_table := Some sc, status := 8\<rparr>)))"

definition step_polls :: "('b, 'p, 'd) machine \<Rightarrow> 'd process \<Rightarrow> 'd process result" where
  "step_polls M S =
     and_then (if enable_https (props S)
               then init_poll_array_ssl (p_libc (m_platform M)) (props S) (http_socket_fd S) (https_socket_fd S) (poll_table S)
               else init_poll_array (p_libc (m_platform M)) (props S) (http_socket_fd S) (poll_table S)) (\<lambda>pa.
     Inr (S\<lparr>poll_table := pa, status := 9\<rparr>))"

definition step_workers :: "('b, 'p, 'd) machine \<Rightarrow> 'd process \<Rightarrow> 'd process result" where
  "step_workers M S =
     and_then (init_workers (m_create M) (worker_thread_max_size (props S)) (workers S \<noteq> None)) (\<lambda>ts.
     Inr (S\<lparr>workers := Some ts, status := 10\<rparr>))"

definition main_steps :: "('b, 'p, 'd) machine \<Rightarrow> string list \<Rightarrow> ('d process \<Rightarrow> 'd process result) list" where
  "main_steps M argv =
     [step_properties M argv, step_logger M, step_log_file, step_migrate M, step_http M, step_https M, step_ctx M,
      step_marks, step_cache M, step_polls M, step_workers M]"

text \<open>A run of steps: on the left why it stopped and the state of the process then.\<close>

fun run_steps :: "('a \<Rightarrow> 'a result) list \<Rightarrow> 'a \<Rightarrow> (abort \<times> 'a) + 'a" where
  "run_steps [] S = Inr S"
| "run_steps (f # fs) S = (case f S of Inl e \<Rightarrow> Inl (e, S) | Inr S' \<Rightarrow> run_steps fs S')"

definition initial_process :: "'d \<Rightarrow> 'd process" where
  "initial_process d =
     \<lparr>status = 0, http_socket_fd = -1, https_socket_fd = -1, ctx = None, props = default_properties,
      the_logger = \<lparr>min_level = TRACE, destination = CONSOLE_ONLY, file_open = False, log_offset = 0, log_mem = None,
                    log_base = [], console = []\<rparr>,
      main_log_file = False, the_db = d, marks_table = None, session_table = None,
      poll_table = \<lparr>fds = None, pa_count = 0, last_in_index = 1, max_count = 0\<rparr>, workers = None\<rparr>"

text \<open>The threads at work: each starts with its own scratch buffer; the prepared statements are \<open>NULL\<close>.\<close>

definition scratch_buffer :: "libc \<Rightarrow> handler option \<Rightarrow> buffer" where
  "scratch_buffer L h =
     (case (if h = Some handle_b then init_buffer L DEFAULT_BUFFER_SIZE else init_buffer L 0) of
        Some b \<Rightarrow> b | None \<Rightarrow> zero_buffer)"

definition started_farm :: "('b, 'p, 'd) machine \<Rightarrow> 'd process \<Rightarrow> ('b, 'p, 's) farm" where
  "started_farm M S =
     (let P = m_platform M; duties = (case workers S of None \<Rightarrow> Map.empty | Some ts \<Rightarrow> map_of ts) in
      \<lparr>srv = \<lparr>sw = \<lparr>cache = the (session_table S), marked_fds = the (marks_table S), broadcasts = []\<rparr>,
              polls = poll_table S, bio_state = p_new_bio P, ssl_state = p_new_ssl P\<rparr>,
       duty = duties, scratch = (\<lambda>t. scratch_buffer (p_libc P) (duties t)),
       prepared_stmts = (\<lambda>_. no_statements), held = (\<lambda>_. None)\<rparr>)"

section \<open>The end\<close>

datatype release = Close_http | Close_https | Close_workers | Destroy_polls | Destroy_sessions | Destroy_marks | Destroy_ctx | Destroy_logger

text \<open>\<open>handle_exit\<close>: what is given back, in order.\<close>

definition handle_exit :: "'d process \<Rightarrow> release list" where
  "handle_exit S =
     (if http_socket_fd S \<noteq> -1 \<and> 5 \<le> status S then [Close_http] else []) @
     (if https_socket_fd S \<noteq> -1 \<and> 6 \<le> status S then [Close_https] else []) @
     (if 10 \<le> status S then [Close_workers] else []) @
     (if 9 \<le> status S then [Destroy_polls] else []) @
     (if 8 \<le> status S then [Destroy_sessions] else []) @
     (if 7 \<le> status S then [Destroy_marks] else []) @
     (if ctx S \<noteq> None then [Destroy_ctx] else []) @
     (if 2 \<le> status S then [Destroy_logger] else [])"

text \<open>\<open>close_workers\<close>: the conditions are broadcast and the threads joined in the order of their indices.\<close>

fun join_threads :: "(nat \<Rightarrow> bool) \<Rightarrow> int \<Rightarrow> (nat \<times> handler) list \<Rightarrow> nat list result" where
  "join_threads join prev_index [] = Inr []"
| "join_threads join prev_index ((index, h) # rest) =
     assert_that ''index != prev_index'' (int index \<noteq> prev_index) (
     assert_that ''pthread_join(workers[index], NULL) == 0'' (join index) (
     and_then (join_threads join (int index) rest) (\<lambda>ts. Inr (index # ts))))"

definition close_workers :: "(nat \<Rightarrow> bool) \<Rightarrow> nat \<Rightarrow> (nat \<times> handler) list option \<Rightarrow> world \<Rightarrow> (nat list \<times> world) result" where
  "close_workers join worker_size started w =
     assert_that ''workers != NULL'' (started \<noteq> None) (
     and_then (join_threads join (-1) (worker_indices worker_size)) (\<lambda>ts. Inr (ts, broadcast_session w)))"

text \<open>
  The modules give back what they hold. The memory itself is not modelled, a table that is freed is
  \<open>None\<close>, except for the BIOs, which have two owners: \<open>SSL_free\<close> frees the BIO that \<open>SSL_set_bio\<close> gave
  to the TLS session, so \<open>destroy_session_cache\<close> frees that of its own array only when the session has
  none (\<open>SSL_get_rbio\<close> and \<open>SSL_get_wbio\<close> return \<open>NULL\<close>). The list holds the BIOs in the order they are
  freed; \<open>ret\<close> numbers the return values of the five \<open>pthread\<close> calls.
\<close>

definition free_bio :: "session_cache \<Rightarrow> nat \<Rightarrow> ptr" where
  "free_bio sc i =
     (case ssl_array sc of None \<Rightarrow> bio_array sc ! i
      | Some ss \<Rightarrow> (case ssl_bio sc (ss ! i) of None \<Rightarrow> bio_array sc ! i | Some b \<Rightarrow> b))"

definition destroy_session_cache :: "(nat \<Rightarrow> int) \<Rightarrow> session_cache option \<Rightarrow> (ptr list \<times> session_cache option) result" where
  "destroy_session_cache ret sc =
     assert_that ''session_array != NULL'' (sc \<noteq> None) (
     assert_that ''pthread_mutex_destroy(&session_mutex) == 0'' (ret 0 = 0) (
     assert_that ''pthread_cond_destroy(&request_read_cond) == 0'' (ret 1 = 0) (
     assert_that ''pthread_cond_destroy(&parsed_cond) == 0'' (ret 2 = 0) (
     assert_that ''pthread_cond_destroy(&data_fetched_cond) == 0'' (ret 3 = 0) (
     assert_that ''pthread_cond_destroy(&response_generated_cond) == 0'' (ret 4 = 0) (
     Inr (map (free_bio (the sc)) [0..<max_size (the sc)], None)))))))"

definition destroy_marked_fds :: "marked option \<Rightarrow> marked option" where
  "destroy_marked_fds m = None"

definition destroy_ssl_ctx :: "ssl_ctx option \<Rightarrow> ssl_ctx option result" where
  "destroy_ssl_ctx c = assert_that ''ctx != NULL'' (c \<noteq> None) (Inr None)"

text \<open>One call of \<open>handle_exit\<close>; \<open>close\<close> leaves the variable of the socket as it is.\<close>

fun release_now :: "(nat \<Rightarrow> bool) \<Rightarrow> (nat \<Rightarrow> int) \<Rightarrow> release \<Rightarrow> 'd process \<Rightarrow> 'd process result" where
  "release_now join ret Close_http S = Inr S"
| "release_now join ret Close_https S = Inr S"
| "release_now join ret Close_workers S =
     and_then (close_workers join (worker_thread_max_size (props S)) (workers S)
        \<lparr>cache = the (session_table S), marked_fds = the (marks_table S), broadcasts = []\<rparr>) (\<lambda>_. Inr (S\<lparr>workers := None\<rparr>))"
| "release_now join ret Destroy_polls S = Inr (S\<lparr>poll_table := destroy_poll_array (poll_table S)\<rparr>)"
| "release_now join ret Destroy_sessions S =
     and_then (destroy_session_cache ret (session_table S)) (\<lambda>(freed, t). Inr (S\<lparr>session_table := t\<rparr>))"
| "release_now join ret Destroy_marks S = Inr (S\<lparr>marks_table := destroy_marked_fds (marks_table S)\<rparr>)"
| "release_now join ret Destroy_ctx S = and_then (destroy_ssl_ctx (ctx S)) (\<lambda>c. Inr (S\<lparr>ctx := c\<rparr>))"
| "release_now join ret Destroy_logger S = Inr (S\<lparr>the_logger := destroy_logger (the_logger S)\<rparr>)"

fun release_all :: "(nat \<Rightarrow> bool) \<Rightarrow> (nat \<Rightarrow> int) \<Rightarrow> release list \<Rightarrow> 'd process \<Rightarrow> 'd process result" where
  "release_all join ret [] S = Inr S"
| "release_all join ret (r # rs) S = and_then (release_now join ret r S) (release_all join ret rs)"

section \<open>What has been acquired\<close>

definition acquired :: "'d process \<Rightarrow> release set" where
  "acquired S =
     (if http_socket_fd S \<noteq> -1 then {Close_http} else {}) \<union> (if https_socket_fd S \<noteq> -1 then {Close_https} else {}) \<union>
     (if workers S \<noteq> None then {Close_workers} else {}) \<union> (if fds (poll_table S) \<noteq> None then {Destroy_polls} else {}) \<union>
     (if session_table S \<noteq> None then {Destroy_sessions} else {}) \<union> (if marks_table S \<noteq> None then {Destroy_marks} else {}) \<union>
     (if ctx S \<noteq> None then {Destroy_ctx} else {}) \<union> (if log_mem (the_logger S) \<noteq> None then {Destroy_logger} else {})"

text \<open>The status tells what has been acquired.\<close>

definition status_inv :: "'d process \<Rightarrow> bool" where
  "status_inv S \<longleftrightarrow> (http_socket_fd S \<noteq> -1 \<longleftrightarrow> 5 \<le> status S) \<and> (https_socket_fd S \<noteq> -1 \<longrightarrow> 6 \<le> status S) \<and>
     (marks_table S \<noteq> None \<longleftrightarrow> 7 \<le> status S) \<and> (session_table S \<noteq> None \<longleftrightarrow> 8 \<le> status S) \<and>
     (fds (poll_table S) \<noteq> None \<longleftrightarrow> 9 \<le> status S) \<and> (workers S \<noteq> None \<longleftrightarrow> 10 \<le> status S) \<and>
     (log_mem (the_logger S) \<noteq> None \<longrightarrow> 2 \<le> status S)"

lemma status_inv_exit:
  assumes "status_inv S"
  shows "distinct (handle_exit S) \<and> acquired S \<subseteq> set (handle_exit S) \<and> set (handle_exit S) \<subseteq> insert Destroy_logger (acquired S)"
  using assms by (auto simp: status_inv_def handle_exit_def acquired_def)

lemma release_all_append: "release_all join ret (xs @ ys) S = and_then (release_all join ret xs S) (release_all join ret ys)"
proof (induction xs arbitrary: S)
  case (Cons x xs)
  then show ?case by (cases "release_now join ret x S") simp_all
qed simp

lemma release_if: "release_all join ret (if c then [r] else []) S = (if c then release_now join ret r S else Inr S)"
  by (cases "release_now join ret r S") simp_all

lemma join_threads_all:
  "\<forall>i. join i \<Longrightarrow> distinct (map fst ixs) \<Longrightarrow> prev \<notin> int ` set (map fst ixs) \<Longrightarrow>
    join_threads join prev ixs = Inr (map fst ixs)"
proof (induction join prev ixs rule: join_threads.induct)
  case (2 join prev index h rest)
  have "int index \<notin> int ` set (map fst rest)" using 2(3) by (simp add: image_iff)
  moreover have "distinct (map fst rest)" using 2(3) by simp
  moreover have ne: "int index \<noteq> prev" using 2(4) by auto
  ultimately have "join_threads join (int index) rest = Inr (map fst rest)" using 2(1) 2(2) ne by blast
  moreover have "join index" using 2(2) by blast
  ultimately show ?case using ne by simp
qed simp

lemma worker_indices_eq:
  "worker_indices n = map (\<lambda>j. (j, handle_a)) [0..<n] @ map (\<lambda>j. (n + j, handle_b)) [0..<n] @
     map (\<lambda>j. (2 * n + j, handle_c)) [0..<n] @ map (\<lambda>j. (3 * n + j, handle_d)) [0..<n]"
  by (simp add: worker_indices_def handlers_def upt_rec numeral_eq_Suc)

lemma distinct_workers: "distinct (map fst (worker_indices n))"
  by (auto simp: worker_indices_eq comp_def distinct_map inj_on_def)

lemma exit_clears:
  assumes inv: "status_inv S" and calls: "\<forall>i. join i" "\<forall>i. ret i = 0"
  shows "\<exists>S'. release_all join ret (handle_exit S) S = Inr S' \<and> workers S' = None \<and> fds (poll_table S') = None \<and>
    session_table S' = None \<and> marks_table S' = None \<and> ctx S' = None \<and> log_mem (the_logger S') = None"
proof -
  let ?S1 = "S\<lparr>workers := None\<rparr>"
  let ?S2 = "?S1\<lparr>poll_table := destroy_poll_array (poll_table S)\<rparr>"
  let ?S3 = "?S2\<lparr>session_table := None\<rparr>"
  let ?S4 = "?S3\<lparr>marks_table := None\<rparr>"
  let ?S5 = "?S4\<lparr>ctx := None\<rparr>"
  have joined: "join_threads join (-1) (worker_indices n) = Inr (map fst (worker_indices n))" for n
    by (rule join_threads_all [OF calls(1) distinct_workers]) auto
  have 1: "release_all join ret (if 10 \<le> status S then [Close_workers] else []) S = Inr ?S1"
    unfolding release_if
  proof (cases "10 \<le> status S")
    case True
    then have "workers S \<noteq> None" using inv by (simp add: status_inv_def)
    then show "(if 10 \<le> status S then release_now join ret Close_workers S else Inr S) = Inr ?S1"
      using True by (simp add: close_workers_def joined)
  next
    case False
    then have "workers S = None" using inv by (simp add: status_inv_def)
    then show "(if 10 \<le> status S then release_now join ret Close_workers S else Inr S) = Inr ?S1" using False by simp
  qed
  have 2: "release_all join ret (if 9 \<le> status S then [Destroy_polls] else []) ?S1 = Inr ?S2"
    unfolding release_if using inv by (cases "9 \<le> status S") (simp_all add: status_inv_def destroy_poll_array_def)
  have 3: "release_all join ret (if 8 \<le> status S then [Destroy_sessions] else []) ?S2 = Inr ?S3"
    unfolding release_if using inv calls(2) by (cases "8 \<le> status S") (simp_all add: status_inv_def destroy_session_cache_def)
  have 4: "release_all join ret (if 7 \<le> status S then [Destroy_marks] else []) ?S3 = Inr ?S4"
    unfolding release_if using inv by (cases "7 \<le> status S") (simp_all add: status_inv_def destroy_marked_fds_def)
  have 5: "release_all join ret (if ctx S \<noteq> None then [Destroy_ctx] else []) ?S4 = Inr ?S5"
    unfolding release_if by (cases "ctx S = None") (simp_all add: destroy_ssl_ctx_def)
  have sockets: "release_all join ret (if c then [Close_http] else []) S = Inr S" "release_all join ret (if c then [Close_https] else []) S = Inr S" for c
    by simp_all
  have "\<exists>S'. release_all join ret (if 2 \<le> status S then [Destroy_logger] else []) ?S5 = Inr S' \<and> log_mem (the_logger S') = None \<and>
      workers S' = workers ?S5 \<and> poll_table S' = poll_table ?S5 \<and> session_table S' = session_table ?S5 \<and>
      marks_table S' = marks_table ?S5 \<and> ctx S' = ctx ?S5"
    using inv by (auto simp: status_inv_def destroy_logger_def)
  then obtain S' where "release_all join ret (handle_exit S) S = Inr S'" "log_mem (the_logger S') = None"
    "workers S' = None" "poll_table S' = destroy_poll_array (poll_table S)" "session_table S' = None" "marks_table S' = None" "ctx S' = None"
    by (auto simp: handle_exit_def release_all_append sockets 1 2 3 4 5 simp del: release_all.simps not_None_eq)
  then show ?thesis by (auto simp: destroy_poll_array_def)
qed

definition keeps_status :: "nat set \<Rightarrow> ('d process \<Rightarrow> 'd process result) list \<Rightarrow> bool" where
  "keeps_status A fs \<longleftrightarrow> (\<forall>n S. status_inv S \<and> status S \<in> A \<longrightarrow>
     (case run_steps (take n fs) S of Inl (e, S') \<Rightarrow> status_inv S' | Inr S' \<Rightarrow> status_inv S'))"

lemma keeps_status_Nil: "keeps_status A []"
  by (simp add: keeps_status_def)

lemma keeps_status_Cons:
  assumes f: "\<And>S S' :: 'd process. status_inv S \<Longrightarrow> status S \<in> A \<Longrightarrow> f S = Inr S' \<Longrightarrow> status_inv S' \<and> status S' \<in> B"
    and fs: "keeps_status B fs"
  shows "keeps_status A (f # fs)"
  unfolding keeps_status_def
proof (intro allI impI)
  fix n and S :: "'d process"
  assume S: "status_inv S \<and> status S \<in> A"
  show "case run_steps (take n (f # fs)) S of Inl (e, S') \<Rightarrow> status_inv S' | Inr S' \<Rightarrow> status_inv S'"
  proof (cases n)
    case 0
    then show ?thesis using S by simp
  next
    case (Suc m)
    show ?thesis
    proof (cases "f S")
      case (Inl e)
      then show ?thesis using S Suc by simp
    next
      case (Inr S')
      then have "status_inv S' \<and> status S' \<in> B" using S f by blast
      then show ?thesis using fs Inr Suc by (simp add: keeps_status_def)
    qed
  qed
qed

named_theorems step_defs \<open>the steps of \<open>main\<close>\<close>

lemmas [step_defs] = step_properties_def step_logger_def step_log_file_def step_migrate_def step_http_def step_https_def
  step_ctx_def step_marks_def step_cache_def step_polls_def step_workers_def

lemma fds_polls: "init_poll_array L p f pa = Inr pa' \<Longrightarrow> fds pa' \<noteq> None"
    "init_poll_array_ssl L p f g pa = Inr pa' \<Longrightarrow> fds pa' \<noteq> None"
  by (auto simp: init_poll_array_def init_poll_array_ssl_def Let_def)

lemma main_keeps_status: "keeps_status {0} (main_steps M argv)"
proof -
  have workers: "keeps_status {9} [step_workers M]"
    by (rule keeps_status_Cons [where B = "{10}", OF _ keeps_status_Nil]) (auto simp: step_defs status_inv_def)
  have polls: "keeps_status {8} [step_polls M, step_workers M]"
    by (rule keeps_status_Cons [OF _ workers]) (auto simp: step_defs status_inv_def dest: fds_polls split: if_splits)
  have cache: "keeps_status {7} [step_cache M, step_polls M, step_workers M]"
    by (rule keeps_status_Cons [OF _ polls]) (auto simp: step_defs status_inv_def)
  have marks: "keeps_status {5, 6} [step_marks, step_cache M, step_polls M, step_workers M]"
    by (rule keeps_status_Cons [OF _ cache]) (simp add: step_marks_def status_inv_def, elim disjE conjE; force)
  have ctx: "keeps_status {5, 6} [step_ctx M, step_marks, step_cache M, step_polls M, step_workers M]"
    by (rule keeps_status_Cons [OF _ marks]) (auto simp: step_defs status_inv_def split: if_splits)
  have https: "keeps_status {5} [step_https M, step_ctx M, step_marks, step_cache M, step_polls M, step_workers M]"
    by (rule keeps_status_Cons [OF _ ctx]) (auto simp: step_defs status_inv_def split: if_splits)
  have http: "keeps_status {4} [step_http M, step_https M, step_ctx M, step_marks, step_cache M, step_polls M, step_workers M]"
    by (rule keeps_status_Cons [OF _ https]) (auto simp: step_defs status_inv_def)
  have migrate: "keeps_status {3} [step_migrate M, step_http M, step_https M, step_ctx M, step_marks, step_cache M, step_polls M, step_workers M]"
    by (rule keeps_status_Cons [OF _ http]) (auto simp: step_defs status_inv_def)
  have log_file: "keeps_status {2} [step_log_file, step_migrate M, step_http M, step_https M, step_ctx M, step_marks, step_cache M,
      step_polls M, step_workers M]"
    by (rule keeps_status_Cons [OF _ migrate]) (auto simp: step_defs status_inv_def)
  have log: "keeps_status {1} [step_logger M, step_log_file, step_migrate M, step_http M, step_https M, step_ctx M, step_marks, step_cache M,
      step_polls M, step_workers M]"
    by (rule keeps_status_Cons [OF _ log_file]) (auto simp: step_defs status_inv_def)
  show ?thesis unfolding main_steps_def
    by (rule keeps_status_Cons [OF _ log]) (auto simp: step_defs status_inv_def)
qed

section \<open>The state at the start of the service\<close>

lemma run_steps_Inr: "run_steps (f # fs) S = Inr T \<longleftrightarrow> (\<exists>S'. f S = Inr S' \<and> run_steps fs S' = Inr T)"
  by (auto split: sum.splits)

lemma start_threads_all: "start_threads create prev ixs = Inr ts \<Longrightarrow> ts = ixs"
  by (induction create prev ixs arbitrary: ts rule: start_threads.induct) auto

lemma worker_duty: "(t, h) \<in> set (worker_indices n) \<Longrightarrow> map_of (worker_indices n) t = Some h"
  using distinct_workers by (rule map_of_is_SomeI)

lemma props_steps:
  "step_logger M S = Inr S' \<Longrightarrow> props S' = props S"
  "step_log_file S = Inr S' \<Longrightarrow> props S' = props S"
  "step_migrate M S = Inr S' \<Longrightarrow> props S' = props S"
  "step_http M S = Inr S' \<Longrightarrow> props S' = props S"
  "step_https M S = Inr S' \<Longrightarrow> props S' = props S"
  "step_ctx M S = Inr S' \<Longrightarrow> props S' = props S"
  "step_marks S = Inr S' \<Longrightarrow> props S' = props S"
  "step_cache M S = Inr S' \<Longrightarrow> props S' = props S"
  "step_polls M S = Inr S' \<Longrightarrow> props S' = props S"
  "step_workers M S = Inr S' \<Longrightarrow> props S' = props S"
  by (auto simp: step_defs split: if_splits)

lemma polled_sockets:
  assumes "(if tls then init_poll_array_ssl L p f g pa else init_poll_array L p f pa) = Inr pa'"
  shows "map fd (take (pa_count pa') (the (fds pa'))) = (if tls then [f, g] else [f])"
proof (cases tls)
  case True
  then show ?thesis using assms
    by (auto simp: init_poll_array_ssl_def Let_def take_Suc_conv_app_nth numeral_2_eq_2)
next
  case False
  then show ?thesis using assms by (auto simp: init_poll_array_def Let_def take_Suc_conv_app_nth)
qed

lemma scratch_buffer_wf:
  assumes "\<And>m. alloc_ok L m"
  shows "buffer_wf (scratch_buffer L h) \<and> data (scratch_buffer L h) \<noteq> None \<and> capacity (scratch_buffer L h) = 1024"
  using assms by (simp add: scratch_buffer_def init_buffer_def buffer_wf_def)

lemma started_crew:
  assumes mem: "\<And>m. alloc_ok (p_libc (m_platform M)) m" and ws: "workers S = Some (worker_indices n)" and i: "i < n"
    and F: "F = started_farm M S"
  shows "crew F i (n + i) (2 * n + i) (3 * n + i)"
proof -
  have d: "duty F = map_of (worker_indices n)" by (simp add: F started_farm_def Let_def ws)
  have "(i, handle_a) \<in> set (worker_indices n)" "(n + i, handle_b) \<in> set (worker_indices n)"
    "(2 * n + i, handle_c) \<in> set (worker_indices n)" "(3 * n + i, handle_d) \<in> set (worker_indices n)"
    using i by (auto simp: worker_indices_eq)
  then have "duty F i = Some handle_a" "duty F (n + i) = Some handle_b"
    "duty F (2 * n + i) = Some handle_c" "duty F (3 * n + i) = Some handle_d"
    unfolding d by (simp_all add: worker_duty)
  moreover have "held F t = None" for t by (simp add: F started_farm_def Let_def)
  moreover have "scratch F t = scratch_buffer (p_libc (m_platform M)) (duty F t)" for t
    by (simp add: F started_farm_def Let_def)
  ultimately show ?thesis using scratch_buffer_wf [OF mem] by (simp add: crew_def)
qed

text \<open>What a start that succeeds has done.\<close>

lemma startup_facts:
  assumes run: "run_steps (main_steps M argv) (initial_process d) = Inr S" and F: "F = started_farm M S"
  shows "config_wf (props S)" and "marked_fds (sw (srv F)) = init_marked_fds (session_max_size (props S))"
    and "\<exists>tls. init_session_cache (p_libc (m_platform M)) (session_max_size (props S)) tls = Inr (the_cache F)"
    and "\<exists>pa. (if enable_https (props S)
      then init_poll_array_ssl (p_libc (m_platform M)) (props S) (http_socket_fd S) (https_socket_fd S) pa
      else init_poll_array (p_libc (m_platform M)) (props S) (http_socket_fd S) pa) = Inr (poll_table S)"
    and "workers S = Some (worker_indices (worker_thread_max_size (props S)))"
proof -
  obtain S1 S2 S3 S4 S5 S6 S7 S8 S9 S10 where steps: "step_properties M argv (initial_process d) = Inr S1"
    "step_logger M S1 = Inr S2" "step_log_file S2 = Inr S3" "step_migrate M S3 = Inr S4" "step_http M S4 = Inr S5"
    "step_https M S5 = Inr S6" "step_ctx M S6 = Inr S7" "step_marks S7 = Inr S8" "step_cache M S8 = Inr S9"
    "step_polls M S9 = Inr S10" "step_workers M S10 = Inr S"
    using run unfolding main_steps_def run_steps_Inr run_steps.simps(1) sum.inject by (elim exE conjE) (rule that, simp_all only:)
  note props = props_steps(1) [OF steps(2)] props_steps(2) [OF steps(3)] props_steps(3) [OF steps(4)] props_steps(4) [OF steps(5)]
    props_steps(5) [OF steps(6)] props_steps(6) [OF steps(7)] props_steps(7) [OF steps(8)] props_steps(8) [OF steps(9)]
    props_steps(9) [OF steps(10)] props_steps(10) [OF steps(11)]
  let ?p = "props S"
  have "\<exists>out. init_properties (m_exists M) (m_fopen M) argv = Inr (props S1, out)"
    using steps(1) by (auto simp: step_properties_def)
  then have conf: "config_wf ?p" using init_properties_value props by auto
  have marks: "marks_table S = Some (init_marked_fds (session_max_size ?p))"
    using steps(8-11) props by (auto simp: step_marks_def step_cache_def step_polls_def step_workers_def)
  obtain sc where sc: "init_session_cache (p_libc (m_platform M)) (session_max_size ?p) (ctx S8 \<noteq> None) = Inr sc" "session_table S = Some sc"
    using steps(9-11) props by (auto simp: step_cache_def step_polls_def step_workers_def)
  have polls: "(if enable_https ?p
      then init_poll_array_ssl (p_libc (m_platform M)) ?p (http_socket_fd S) (https_socket_fd S) (poll_table S9)
      else init_poll_array (p_libc (m_platform M)) ?p (http_socket_fd S) (poll_table S9)) = Inr (poll_table S)"
    using steps(10,11) props by (auto simp: step_polls_def step_workers_def split: if_splits)
  show "config_wf ?p" by (rule conf)
  show "marked_fds (sw (srv F)) = init_marked_fds (session_max_size ?p)" using marks by (simp add: F started_farm_def Let_def)
  show "\<exists>tls. init_session_cache (p_libc (m_platform M)) (session_max_size ?p) tls = Inr (the_cache F)"
    using sc by (auto simp: F started_farm_def Let_def)
  show "\<exists>pa. (if enable_https ?p
      then init_poll_array_ssl (p_libc (m_platform M)) ?p (http_socket_fd S) (https_socket_fd S) pa
      else init_poll_array (p_libc (m_platform M)) ?p (http_socket_fd S) pa) = Inr (poll_table S)"
    using polls by (rule exI)
  show "workers S = Some (worker_indices (worker_thread_max_size ?p))"
    using steps(11) props by (auto simp: step_workers_def init_workers_def dest: start_threads_all)
qed

section \<open>An example machine\<close>

definition demo_machine :: "dir_entry list option \<Rightarrow> (string \<times> string, unit, script_db) machine" where
  "demo_machine dir =
     \<lparr>m_platform = chat_platform, m_exists = (\<lambda>_. False), m_fopen = (\<lambda>_. None), m_log = demo_sys, m_log_fresh = (\<lambda>_. NUL),
      m_hello = demo_call INFO [], m_db = script_sqlite, m_dir = dir, m_setsockopt = (\<lambda>_. 0),
      m_getaddrinfo = (\<lambda>_. (0, [\<lparr>ai_family = 2, ai_socktype = 1, ai_protocol = 6, ai_addr = Some ''any'', ai_addrlen = 16\<rparr>])),
      m_ssl = \<lparr>ctx_new = True, set_min_proto = True, use_cert_chain = (\<lambda>_. 1), use_private_key = (\<lambda>_. 1)\<rparr>,
      m_create = (\<lambda>_ _. True)\<rparr>"

lemma demo_hello_printable: "printable (hello_call (demo_call INFO []) TRACE CONSOLE_ONLY)"
proof -
  have "length (show_nat 1) \<le> Suc 0" by (rule length_show_nat) simp
  moreover have "NUL \<notin> set (show_nat 1)" using show_nat_digits [of 1] by (auto simp: is_digit_def between_def code_def)
  ultimately show ?thesis
    by (simp add: printable_def line_text_def hello_call_def demo_call_def log_texts_def pad_def esc_def log_level_to_string_def
        destination_name_def relative_path_def)
qed

lemma demo_config: "\<exists>out. init_properties (\<lambda>_. False) (\<lambda>_. None) [prog] = Inr (default_properties, out)"
  by (simp add: init_properties_def noted_def default_properties_def)

lemma demo_logging:
  obtains S g opened out where "step_properties (demo_machine dir) [prog] (initial_process d) = Inr (initial_process d\<lparr>status := 1\<rparr>)"
    and "step_logger (demo_machine dir) (initial_process d\<lparr>status := 1\<rparr>) =
      Inr (initial_process d\<lparr>the_logger := g, main_log_file := opened, status := 2\<rparr>)"
    and "step_log_file (initial_process d\<lparr>the_logger := g, main_log_file := opened, status := 2\<rparr>) =
      Inr (initial_process d\<lparr>the_logger := g, main_log_file := opened, status := 3\<rparr>)"
proof -
  let ?g = "the_logger (initial_process d)"
  have "\<exists>opened g. init_logger demo_sys [] (\<lambda>_. NUL) (demo_call INFO []) TRACE CONSOLE_ONLY ?g = Inr (opened, g) \<and>
      logger_wf g \<and> min_level g = TRACE \<and> destination g = CONSOLE_ONLY"
    by (rule init_logger_wf [OF _ _ _ _ _ demo_hello_printable]) (simp_all add: sys_ok_def initial_process_def LOG_WINDOW_def)
  then obtain opened g where "init_logger demo_sys [] (\<lambda>_. NUL) (demo_call INFO []) TRACE CONSOLE_ONLY ?g = Inr (opened, g)"
    by blast
  moreover have "props (initial_process d\<lparr>status := 1\<rparr>) = default_properties" "the_logger (initial_process d\<lparr>status := 1\<rparr>) = ?g"
    by (simp_all add: initial_process_def)
  ultimately have "step_logger (demo_machine dir) (initial_process d\<lparr>status := 1\<rparr>) =
      Inr (initial_process d\<lparr>the_logger := g, main_log_file := opened, status := 2\<rparr>)"
    by (simp add: step_logger_def demo_machine_def level_of_def destination_of_def default_properties_def)
  moreover have "step_properties (demo_machine dir) [prog] (initial_process d) = Inr (initial_process d\<lparr>status := 1\<rparr>)"
    using demo_config [of prog] by (auto simp: step_properties_def demo_machine_def initial_process_def)
  moreover have "step_log_file (initial_process d\<lparr>the_logger := g, main_log_file := opened, status := 2\<rparr>) =
      Inr (initial_process d\<lparr>the_logger := g, main_log_file := opened, status := 3\<rparr>)"
    by (simp add: step_log_file_def initial_process_def destination_of_def default_properties_def)
  ultimately show ?thesis using that by blast
qed

lemma demo_listener:
  "get_listener_socket no_descriptors (\<lambda>_. 0)
     (\<lambda>_. (0, [\<lparr>ai_family = 2, ai_socktype = 1, ai_protocol = 6, ai_addr = Some ''any'', ai_addrlen = 16\<rparr>])) (Some port) 50 = Inr 3"
  by (simp add: get_listener_socket_def open_socket_def bind_socket_def listen_socket_def no_descriptors_def)

lemma demo_start:
  "\<exists>S. run_steps (main_steps (demo_machine (Some [])) [''wind_breaker'']) (initial_process empty_db) = Inr S \<and>
    props S = default_properties \<and> http_socket_fd S = 3 \<and> https_socket_fd S = -1"
proof -
  let ?M = "demo_machine (Some [])"
  obtain g opened where s: "step_properties ?M [''wind_breaker''] (initial_process empty_db) = Inr (initial_process empty_db\<lparr>status := 1\<rparr>)"
    "step_logger ?M (initial_process empty_db\<lparr>status := 1\<rparr>) =
      Inr (initial_process empty_db\<lparr>the_logger := g, main_log_file := opened, status := 2\<rparr>)"
    "step_log_file (initial_process empty_db\<lparr>the_logger := g, main_log_file := opened, status := 2\<rparr>) =
      Inr (initial_process empty_db\<lparr>the_logger := g, main_log_file := opened, status := 3\<rparr>)"
    by (rule demo_logging)
  let ?S = "initial_process empty_db\<lparr>the_logger := g, main_log_file := opened, status := 3\<rparr>"
  have m: "step_migrate ?M ?S = Inr (?S\<lparr>the_db := empty_db, status := 4\<rparr>)"
    by (simp add: step_migrate_def demo_machine_def migrate_db_def script_sqlite_def get_current_schema_version_def
        find_migration_files_def initial_process_def default_properties_def begin_transaction_def commit_def)
  let ?S1 = "?S\<lparr>the_db := empty_db, status := 4\<rparr>"
  let ?S2 = "?S1\<lparr>http_socket_fd := 3, status := 5\<rparr>"
  let ?S3 = "?S2\<lparr>marks_table := Some (init_marked_fds 64), status := 7\<rparr>"
  have http: "step_http ?M ?S1 = Inr ?S2"
    by (simp add: step_http_def demo_machine_def demo_listener initial_process_def default_properties_def chat_platform_def)
  have https: "step_https ?M ?S2 = Inr ?S2" "step_ctx ?M ?S2 = Inr ?S2"
    by (simp_all add: step_https_def step_ctx_def initial_process_def default_properties_def)
  have marks: "step_marks ?S2 = Inr ?S3"
    by (simp add: step_marks_def initial_process_def default_properties_def)
  obtain sc where sc: "init_session_cache roomy 64 False = Inr sc"
    by (simp add: init_session_cache_def init_buffer_def)
  let ?S4 = "?S3\<lparr>session_table := Some sc, status := 8\<rparr>"
  have cache: "step_cache ?M ?S3 = Inr ?S4"
    using sc by (simp add: step_cache_def demo_machine_def initial_process_def default_properties_def chat_platform_def)
  obtain pa where pa: "init_poll_array roomy default_properties 3 (poll_table (initial_process empty_db)) = Inr pa"
    by (simp add: init_poll_array_def initial_process_def default_properties_def)
  let ?S5 = "?S4\<lparr>poll_table := pa, status := 9\<rparr>"
  have polls: "step_polls ?M ?S4 = Inr ?S5"
    using pa by (simp add: step_polls_def demo_machine_def initial_process_def default_properties_def chat_platform_def)
  let ?S6 = "?S5\<lparr>workers := Some (worker_indices 1), status := 10\<rparr>"
  have ws: "step_workers ?M ?S5 = Inr ?S6"
    by (simp add: step_workers_def init_workers_def demo_machine_def initial_process_def default_properties_def worker_indices_eq)
  have run: "run_steps (main_steps ?M [''wind_breaker'']) (initial_process empty_db) = Inr ?S6"
    using s m http https marks cache polls ws by (simp add: main_steps_def)
  moreover have "props ?S6 = default_properties" "http_socket_fd ?S6 = 3" "https_socket_fd ?S6 = -1"
    by (simp_all add: initial_process_def)
  ultimately show ?thesis by blast
qed

section \<open>Properties\<close>

text \<open>
  C32: Wherever the start stops, by a failed assertion inside a step or by a signal after any of its steps,
  \<open>handle_exit\<close> gives back each thing the completed steps have acquired exactly once, and besides at most
  the logger; when the threads can be joined and the mutex and conditions destroyed, no assertion fails on
  the way and nothing is left. What a step acquires before it fails itself (a socket that cannot be bound,
  the threads started before one that cannot) is not known to \<open>status\<close> and not counted here.
\<close>

theorem exit_releases_acquired:
  assumes "run_steps (take n (main_steps M argv)) (initial_process d) \<in> {Inl (e, S), Inr S}"
    and "\<forall>i. join i" and "\<forall>i. ret i = 0"
  shows "distinct (handle_exit S) \<and> acquired S \<subseteq> set (handle_exit S) \<and> set (handle_exit S) \<subseteq> insert Destroy_logger (acquired S) \<and>
    (\<exists>S'. release_all join ret (handle_exit S) S = Inr S' \<and> workers S' = None \<and> fds (poll_table S') = None \<and>
      session_table S' = None \<and> marks_table S' = None \<and> ctx S' = None \<and> log_mem (the_logger S') = None)"
proof -
  have "status_inv (initial_process d)" "status (initial_process d) \<in> {0}"
    by (simp_all add: initial_process_def status_inv_def)
  then have "case run_steps (take n (main_steps M argv)) (initial_process d) of Inl (e, S') \<Rightarrow> status_inv S' | Inr S' \<Rightarrow> status_inv S'"
    using main_keeps_status [of M argv] unfolding keeps_status_def by blast
  then have inv: "status_inv S" using assms(1) by auto
  show ?thesis using status_inv_exit [OF inv] exit_clears [OF inv assms(2,3)] by (intro conjI) blast+
qed

theorem exit_releases_acquired_witness:
  "\<exists>e S. run_steps (take 11 (main_steps (demo_machine None) [''wind_breaker''])) (initial_process empty_db) = Inl (e, S) \<and>
    distinct (handle_exit S) \<and> set (handle_exit S) \<subseteq> insert Destroy_logger (acquired S) \<and>
    (\<exists>S'. release_all (\<lambda>_. True) (\<lambda>_. 0) (handle_exit S) S = Inr S' \<and> log_mem (the_logger S') = None)"
proof -
  obtain g opened where s: "step_properties (demo_machine None) [''wind_breaker''] (initial_process empty_db) = Inr (initial_process empty_db\<lparr>status := 1\<rparr>)"
    "step_logger (demo_machine None) (initial_process empty_db\<lparr>status := 1\<rparr>) =
      Inr (initial_process empty_db\<lparr>the_logger := g, main_log_file := opened, status := 2\<rparr>)"
    "step_log_file (initial_process empty_db\<lparr>the_logger := g, main_log_file := opened, status := 2\<rparr>) =
      Inr (initial_process empty_db\<lparr>the_logger := g, main_log_file := opened, status := 3\<rparr>)"
    by (rule demo_logging)
  let ?S = "initial_process empty_db\<lparr>the_logger := g, main_log_file := opened, status := 3\<rparr>"
  have "step_migrate (demo_machine None) ?S = Inl (Assert_failed ''migrate_db() == 0'')"
    by (simp add: step_migrate_def demo_machine_def migrate_db_def script_sqlite_def get_current_schema_version_def
        find_migration_files_def initial_process_def default_properties_def)
  then have r: "run_steps (take 11 (main_steps (demo_machine None) [''wind_breaker''])) (initial_process empty_db)
      = Inl (Assert_failed ''migrate_db() == 0'', ?S)"
    using s by (simp add: main_steps_def)
  then have "run_steps (take 11 (main_steps (demo_machine None) [''wind_breaker''])) (initial_process empty_db)
      \<in> {Inl (Assert_failed ''migrate_db() == 0'', ?S), Inr ?S}" by simp
  from exit_releases_acquired [OF this, of "\<lambda>_. True" "\<lambda>_. 0"] r show ?thesis by simp blast
qed

text \<open>
  C18: A start that succeeds leaves the server ready: the configuration is in range, the session table is
  well-formed and empty, there is a mark for twice as many descriptors as sessions, the listening sockets
  are polled, and the worker threads are there, the configured number of each kind, with their buffers.
\<close>

theorem startup_ready:
  assumes mem: "\<And>m. alloc_ok (p_libc (m_platform M)) m"
    and run: "run_steps (main_steps M argv) (initial_process d) = Inr S" and n: "n = worker_thread_max_size (props S)"
    and F: "F = started_farm M S"
  shows "config_wf (props S) \<and> cache_wf (the_cache F) \<and> session_count (the_cache F) = 0 \<and>
    length (marked_fds (sw (srv F))) = 2 * session_max_size (props S) \<and>
    map fd (take (pa_count (poll_table S)) (the (fds (poll_table S)))) =
      (if enable_https (props S) then [http_socket_fd S, https_socket_fd S] else [http_socket_fd S]) \<and>
    (\<forall>i < n. crew F i (n + i) (2 * n + i) (3 * n + i))"
proof -
  note facts = startup_facts [OF run F]
  have sizes: "session_max_size (props S) < 2 ^ 31" using facts(1) by (simp add: config_wf_def)
  obtain tls where sc: "init_session_cache (p_libc (m_platform M)) (session_max_size (props S)) tls = Inr (the_cache F)"
    using facts(3) by blast
  note wf = init_session_cache_wf [OF sc sizes]
  have "map fd (take (pa_count (poll_table S)) (the (fds (poll_table S)))) =
      (if enable_https (props S) then [http_socket_fd S, https_socket_fd S] else [http_socket_fd S])"
    using facts(4) by (elim exE) (rule polled_sockets)
  moreover have "\<forall>i < n. crew F i (n + i) (2 * n + i) (3 * n + i)"
    using started_crew [OF mem _ _ F] facts(5) n by simp
  moreover have "session_count (the_cache F) = 0" using wf length_conn_table [of "the_cache F"] by simp
  ultimately show ?thesis using facts(1,2) wf by (simp add: init_marked_fds_def)
qed

theorem startup_ready_witness:
  "\<exists>S F. run_steps (main_steps (demo_machine (Some [])) [''wind_breaker'']) (initial_process empty_db) = Inr S \<and>
    F = started_farm (demo_machine (Some [])) S \<and> crew F 0 1 2 3"
proof -
  let ?M = "demo_machine (Some [])"
  obtain S where run: "run_steps (main_steps ?M [''wind_breaker'']) (initial_process empty_db) = Inr S" and p: "props S = default_properties"
    using demo_start by blast
  have mem: "alloc_ok (p_libc (m_platform ?M)) k" for k by (simp add: demo_machine_def chat_platform_def)
  have n: "1 = worker_thread_max_size (props S)" by (simp add: p default_properties_def)
  note startup_ready [OF mem run n refl]
  then have "crew (started_farm ?M S) 0 (1 + 0) (2 * 1 + 0) (3 * 1 + 0)" by blast
  then have "crew (started_farm ?M S) 0 1 2 3" by (simp add: numeral_2_eq_2 numeral_3_eq_3)
  with run show ?thesis by blast
qed

end
