(* ===== verification/Reachable.thy ===== *)
theory Reachable
  imports Startup
begin

text \<open>
  What holds in every state that the listener and the workers can reach, in whatever order their steps
  come and whatever the clients and the libraries do.
\<close>

section \<open>Buffers\<close>

lemma write_bytes_shape:
  assumes "write_bytes off xs b = Inr b'"
  shows "\<exists>d d'. data b = Some d \<and> off + length xs \<le> length d \<and> length d' = length d \<and> b' = b\<lparr>data := Some d'\<rparr>"
proof -
  from assms obtain d where d: "data b = Some d" "off + length xs \<le> length d" "b' = b\<lparr>data := Some (take off d @ xs @ drop (off + length xs) d)\<rparr>"
    by (auto simp: write_bytes_def split: option.splits)
  then show ?thesis by (intro exI [of _ d] exI [of _ "take off d @ xs @ drop (off + length xs) d"]) simp
qed

lemma write_bytes_keeps: "buffer_wf b \<Longrightarrow> write_bytes off xs b = Inr b' \<Longrightarrow> buffer_wf b'"
  by (rule write_bytes_Inr(1))

lemma assert_capacity_keeps: "buffer_wf b \<Longrightarrow> assert_capacity L b n = Inr b' \<Longrightarrow> buffer_wf b'"
  by (rule assert_capacity_Inr(1))

lemma snprintf_at_keeps: "buffer_wf b \<Longrightarrow> snprintf_at off xs b = Inr b' \<Longrightarrow> buffer_wf b'"
  by (auto simp: snprintf_at_def Let_def dest: write_bytes_keeps split: if_splits)

lemma snprintf_at_capacity: "buffer_wf b \<Longrightarrow> snprintf_at off xs b = Inr b' \<Longrightarrow> capacity b' = capacity b"
  by (auto simp: snprintf_at_def Let_def dest: write_bytes_Inr(2) split: if_splits)

lemma buffer_wf_count: "buffer_wf b \<Longrightarrow> n \<le> capacity b \<Longrightarrow> buffer_wf (b\<lparr>count := n\<rparr>)"
  by (cases "data b") (simp_all add: buffer_wf_def)

text \<open>A count that leaves room for the NUL written at it.\<close>

lemma counted_write:
  assumes "buffer_wf b" and "write_bytes n xs (b\<lparr>count := n\<rparr>) = Inr b'"
  shows "buffer_wf b'"
  using write_bytes_shape [OF assms(2)] assms(1) by (auto simp: buffer_wf_def)

lemma replace_hit_keeps:
  assumes wf: "buffer_wf t" and r: "replace_hit L k x off t = Inr t'"
  shows "buffer_wf t'"
proof -
  let ?d = "to_int32 (to_uint32 (int (length x) - int k))"
  from r obtain t1 tail t2 t3 where
    t1: "(if 0 \<le> ?d then assert_capacity L t (nat (to_uint64 (int (count t) + ?d + 1))) else Inr t) = Inr t1"
    and t2: "write_bytes (nat (int (off + k) + ?d)) tail t1 = Inr t2" and t3: "write_bytes off x t2 = Inr t3"
    and t4: "write_bytes (nat (to_uint64 (int (count t3) + ?d))) [NUL] (t3\<lparr>count := nat (to_uint64 (int (count t3) + ?d))\<rparr>) = Inr t'"
    unfolding replace_hit_def Let_def and_then_Inr by blast
  have "buffer_wf t1" using t1 wf by (auto dest: assert_capacity_keeps split: if_splits)
  from write_bytes_keeps [OF write_bytes_keeps [OF this t2] t3] show ?thesis using t4 by (rule counted_write)
qed

lemma replace_loop_keeps: "buffer_wf t \<Longrightarrow> replace_loop L x y n first off t = Inr t' \<Longrightarrow> buffer_wf t'"
proof (induction n arbitrary: first off t)
  case (Suc n)
  from Suc.prems(2) obtain s where
    s: "(case strstr s x of None \<Rightarrow> assert_that ''hit != NULL || occurrences > 0'' (\<not> first) (Inr t)
      | Some hit \<Rightarrow> and_then (replace_hit L (length x) y (off + (length s - length hit)) t)
          (replace_loop L x y n False (off + (off + (length s - length hit) + length y)))) = Inr t'"
    unfolding replace_loop.simps Let_def and_then_Inr by blast
  show ?case
  proof (cases "strstr s x")
    case None
    then show ?thesis using s Suc.prems(1) by simp
  next
    case (Some hit)
    then obtain t1 where "replace_hit L (length x) y (off + (length s - length hit)) t = Inr t1"
      "replace_loop L x y n False (off + (off + (length s - length hit) + length y)) t1 = Inr t'"
      using s by auto
    then show ?thesis using Suc.IH replace_hit_keeps [OF Suc.prems(1)] by blast
  qed
qed simp

lemma str_replace_keeps: "buffer_wf t \<Longrightarrow> str_replace L t x y = Inr t' \<Longrightarrow> buffer_wf t'"
  by (auto simp: str_replace_def dest: replace_loop_keeps split: option.splits)

section \<open>The loader\<close>

lemma read_static_file_keeps:
  assumes wf: "buffer_wf b" and r: "read_static_file L F p b = Inr (n, b')"
  shows "buffer_wf b'"
proof -
  from r obtain f b1 b2 b3 where b1: "assert_capacity L b (length f + 1) = Inr b1"
    and b2: "write_bytes 0 (take (capacity b1) f) b1 = Inr b2"
    and b3: "write_bytes (length (take (capacity b1) f)) [NUL] b2 = Inr b3"
    and b': "b' = b3\<lparr>count := length (take (capacity b1) f)\<rparr>"
    by (auto simp: read_static_file_def Let_def split: option.splits)
  have w2: "buffer_wf b2" by (rule write_bytes_keeps [OF assert_capacity_keeps [OF wf b1] b2])
  have "buffer_wf b3" by (rule write_bytes_keeps [OF w2 b3])
  moreover have "length (take (capacity b1) f) \<le> capacity b3"
    using write_bytes_shape [OF b3] w2 by (auto simp: buffer_wf_def)
  ultimately show ?thesis unfolding b' by (rule buffer_wf_count)
qed

text \<open>What holds of every value a computation returns.\<close>

definition returned :: "('a \<Rightarrow> bool) \<Rightarrow> 'a result \<Rightarrow> bool" where
  "returned P m \<longleftrightarrow> (\<forall>x. m = Inr x \<longrightarrow> P x)"

lemma returned_simps [simp]: "returned P (Inr x) \<longleftrightarrow> P x" "returned P (Inl e)"
  by (simp_all add: returned_def)

lemma returned_bind: "returned Q m \<Longrightarrow> (\<And>x. Q x \<Longrightarrow> returned P (f x)) \<Longrightarrow> returned P (and_then m f)"
  by (auto simp: returned_def)

lemma returned_skip: "(\<And>x. returned P (f x)) \<Longrightarrow> returned P (and_then m f)"
  by (auto simp: returned_def)

lemma returned_replace:
  "buffer_wf b \<Longrightarrow> (\<And>b'. buffer_wf b' \<Longrightarrow> returned P (f b')) \<Longrightarrow> returned P (and_then (str_replace L b x y) f)"
  by (rule returned_bind [where Q = buffer_wf]) (auto simp: returned_def dest: str_replace_keeps)

lemma replace_link_returned: "buffer_wf b \<Longrightarrow> returned (\<lambda>(tmp', b'). buffer_wf b') (replace_link L x l u tmp b)"
  unfolding replace_link_def
  by (cases u) (simp, (rule returned_replace returned_skip | simp)+)

lemma returned_link:
  "buffer_wf b \<Longrightarrow> (\<And>t b'. buffer_wf b' \<Longrightarrow> returned P (f (t, b'))) \<Longrightarrow> returned P (and_then (replace_link L x l u tmp b) f)"
  by (rule returned_bind [OF replace_link_returned]) auto

lemma returned_split: "(\<And>a b. p = (a, b) \<Longrightarrow> returned P (f a b)) \<Longrightarrow> returned P (case p of (a, b) \<Rightarrow> f a b)"
  by (cases p) simp

lemma returned_if: "(c \<Longrightarrow> returned P m) \<Longrightarrow> (\<not> c \<Longrightarrow> returned P m') \<Longrightarrow> returned P (if c then m else m')"
  by simp

lemma returned_option:
  "(x = None \<Longrightarrow> returned P m) \<Longrightarrow> (\<And>a. x = Some a \<Longrightarrow> returned P (f a)) \<Longrightarrow>
    returned P (case x of None \<Rightarrow> m | Some a \<Rightarrow> f a)"
  by (cases x) simp_all

text \<open>The rules follow the text of a definition, with the session's buffer as what is kept.\<close>

lemmas returned_rules = replace_link_returned returned_replace returned_link returned_skip returned_split returned_if returned_option

abbreviation page_kept :: "int \<times> 's statements \<times> buffer \<times> buffer \<Rightarrow> bool" where
  "page_kept \<equiv> \<lambda>(rc, S', tmp', b'). buffer_wf b'"

lemma load_index_keeps:
  assumes "buffer_wf b"
  shows "returned page_kept (load_index L Q S tmp b)"
  unfolding load_index_def Let_def
  apply (rule returned_option, simp add: assms)
  apply (rule returned_option, simp add: assms)
  apply (rule returned_skip, rule returned_skip, rule returned_split, rule returned_split)
  apply (rule returned_bind [where Q = "\<lambda>(po, t, b'). buffer_wf b'"])
  apply (rule returned_rules assms | assumption | simp add: assms split: prod.splits)+
  done

lemma load_post_keeps:
  assumes "buffer_wf b"
  shows "returned page_kept (load_post L F Q S tmp b a)"
  unfolding load_post_def Let_def
  apply (rule returned_option, simp add: assms)
  apply (rule returned_split)
  apply (rule returned_bind [where Q = "\<lambda>(t, b'). buffer_wf b'"])
  apply (rule returned_rules assms | assumption | simp add: assms)+
  done

lemma load_project_keeps:
  assumes "buffer_wf b"
  shows "returned page_kept (load_project L Q S tmp b a)"
  unfolding load_project_def Let_def
  apply (rule returned_option, simp add: assms)
  apply (rule returned_split)
  apply (rule returned_bind [where Q = "\<lambda>(t, b'). buffer_wf b'"])
  apply (rule returned_rules assms | assumption | simp add: assms)+
  done

lemma load_keeps: "buffer_wf b \<Longrightarrow> load L F Q S n tmp b a = Inr (rc, S', tmp', b') \<Longrightarrow> buffer_wf b'"
  using load_index_keeps [of b L Q S tmp] load_post_keeps [of b L F Q S tmp a] load_project_keeps [of b L Q S tmp a]
  by (auto simp: load_def returned_def split: if_splits)

text \<open>The status codes the program stores have three digits at most.\<close>

definition status_ok :: "int \<Rightarrow> bool" where
  "status_ok n \<longleftrightarrow> 0 \<le> n \<and> n < 1000"

lemma gen_error_body_keeps:
  assumes wf: "buffer_wf b" and st: "status_ok s" and r: "gen_error_body L s b = Inr (n, b')"
  shows "buffer_wf (b'\<lparr>count := n\<rparr>)"
proof -
  let ?s = "''<html><body><h1>'' @ show_int s @ '' '' @ http_status_code_to_str s @ ''</h1></body></html>''"
  from r obtain b1 where b1: "assert_capacity L b 512 = Inr b1" and b2: "snprintf_at 0 ?s b1 = Inr b'" and n: "n = length ?s"
    by (auto simp: gen_error_body_def Let_def)
  note w1 = assert_capacity_Inr [OF wf b1]
  have "length (show_nat (nat s)) \<le> Suc 2" using st by (intro length_show_nat) (simp add: status_ok_def nat_less_iff)
  then have "n \<le> 512" using length_status_str [of s] st by (simp add: n show_int_def status_ok_def)
  then have "n \<le> capacity b'" using w1(2) snprintf_at_capacity [OF w1(1) b2] by simp
  with snprintf_at_keeps [OF w1(1) b2] show ?thesis by (rule buffer_wf_count)
qed

lemma error_response_keeps:
  assumes "buffer_wf b" and "status_ok s" and "error_response L s r b = Inr (r', b')"
  shows "buffer_wf b' \<and> status_ok (status_code r')"
  using assms by (auto simp: error_response_def dest: gen_error_body_keeps)

lemma loader_work_keeps:
  assumes wf: "buffer_wf b" and st: "status_ok (status_code r)" and w: "loader_work L F Q S tmp q r b = Inr (r', b', tmp', S')"
  shows "buffer_wf b' \<and> status_ok (status_code r')"
proof -
  from w obtain b0 where b0: "write_bytes 0 (replicate (count b) NUL) b = Inr b0" by (auto simp: loader_work_def)
  have w0: "buffer_wf b0" by (rule write_bytes_keeps [OF wf b0])
  show ?thesis
  proof (cases "status_code r = HTTP_OK")
    case True
    then obtain f n b1 rc S1 tmp1 b2 where f: "read_static_file L F f b0 = Inr (n, b1)"
      and l: "load L F Q S f tmp b1 (uri q ! 1) = Inr (rc, S1, tmp1, b2)"
      and e: "(if rc = -1 then error_response L HTTP_INTERNAL_SERVER_ERROR r b2
         else if rc = -2 then error_response L HTTP_NOT_FOUND r b2 else Inr (r, b2)) = Inr (r', b')"
      using w b0 by (auto simp: loader_work_def split: option.splits)
    have w2: "buffer_wf b2" by (rule load_keeps [OF read_static_file_keeps [OF w0 f] l])
    have codes: "status_ok HTTP_INTERNAL_SERVER_ERROR" "status_ok HTTP_NOT_FOUND" by (simp_all add: status_ok_def)
    show ?thesis using e w2 st by (auto dest: error_response_keeps [OF w2 codes(1)] error_response_keeps [OF w2 codes(2)] split: if_splits)
  next
    case False
    then show ?thesis using w b0 st by (auto simp: loader_work_def dest: error_response_keeps [OF w0])
  qed
qed

section \<open>The builder and the sender\<close>

lemma print_blocks_keeps: "buffer_wf d \<Longrightarrow> print_blocks L bs off d = Inr (n, d') \<Longrightarrow> buffer_wf d'"
  by (induction bs arbitrary: off d) (auto, blast dest: assert_capacity_keeps snprintf_at_keeps)

text \<open>Only what \<open>assert_capacity\<close> has granted is counted, also where the sums wrap.\<close>

lemma to_uint32_le_64: "nat (to_uint32 x) \<le> nat (to_uint64 x)"
proof -
  have "x mod 2 ^ 32 = (x mod 2 ^ 64) mod 2 ^ 32" by (rule mod_mod_cancel [symmetric]) (simp add: le_imp_power_dvd)
  also have "\<dots> \<le> x mod 2 ^ 64" by (rule zmod_le_nonneg_dividend) simp
  finally show ?thesis unfolding to_uint32_def to_uint64_def by (rule nat_mono)
qed

lemma to_string_keeps:
  assumes wf: "buffer_wf d" and cl: "0 \<le> content_length r" and s: "to_string L r body d = Inr (n, d')"
  shows "buffer_wf (d'\<lparr>count := nat n\<rparr>)"
proof -
  from s obtain off d0 d1 d2 where p: "print_blocks L (header_blocks r) 0 d = Inr (off, d0)"
    and d1: "assert_capacity L d0 (nat (to_uint64 (int off + content_length r + 2))) = Inr d1"
    and d2: "snprintf_at off CRLF d1 = Inr d2"
    and fin: "(if content_length r > 0
       then (case body of
               None \<Rightarrow> Inl (Null_pointer ''body'')
             | Some b \<Rightarrow> and_then (read_bytes (nat (content_length r)) b) (\<lambda>bs.
                 and_then (write_bytes (off + 2) bs d2) (\<lambda>d3.
                   Inr (to_uint32 (int (off + 2) + content_length r), d3))))
       else Inr (to_uint32 (int (off + 2)), d2)) = Inr (n, d')"
    unfolding to_string_def by (simp only: and_then_Inr split_paired_Ex split_conv) blast
  have w1: "buffer_wf d1" and room: "nat (to_uint64 (int off + content_length r + 2)) \<le> capacity d1"
    using assert_capacity_Inr(1,2) [OF print_blocks_keeps [OF wf p] d1] by simp_all
  have w2: "buffer_wf d2" "capacity d2 = capacity d1"
    using snprintf_at_keeps [OF w1 d2] snprintf_at_capacity [OF w1 d2] by simp_all
  have "buffer_wf d' \<and> capacity d' = capacity d2 \<and> n = to_uint32 (int off + content_length r + 2)"
    using fin cl w2(1) by (auto dest: write_bytes_Inr(1,2) simp: algebra_simps split: if_splits option.splits)
  moreover have "nat (to_uint32 (int off + content_length r + 2)) \<le> capacity d1"
    using to_uint32_le_64 room by (rule order_trans)
  ultimately show ?thesis using w2(2) by (simp add: buffer_wf_count)
qed

abbreviation head_ok :: "http_response_t \<Rightarrow> bool" where
  "head_ok r \<equiv> 0 \<le> content_length r \<and> status_ok (status_code r)"

lemma set_content_type_head: "head_ok r \<Longrightarrow> returned head_ok (set_content_type u r)"
  unfolding set_content_type_def by (rule returned_if returned_option | simp)+

lemma set_last_modified_head: "head_ok r \<Longrightarrow> returned head_ok (set_last_modified F u r)"
  unfolding set_last_modified_def by (rule returned_if returned_option returned_skip | simp)+

lemma set_etag_head: "head_ok r \<Longrightarrow> returned head_ok (set_etag sha tmp r)"
  unfolding set_etag_def by (rule returned_if returned_skip returned_split | simp)+

lemma handle_if_none_match_head: "head_ok r \<Longrightarrow> returned (\<lambda>(r', t). head_ok r') (handle_if_none_match inm r tmp)"
  unfolding handle_if_none_match_def by (rule returned_if returned_skip | simp add: status_ok_def)+

lemma set_compression_head: "head_ok r \<Longrightarrow> returned (\<lambda>(n, r', t). status_ok (status_code r')) (set_compression Z enc body r tmp)"
  by (auto simp: set_compression_def returned_def Let_def split: if_splits prod.splits)

lemma construct_response_keeps:
  assumes wf: "buffer_wf b" and st: "status_ok (status_code r)"
  shows "returned (\<lambda>(n, r', b', tmp'). buffer_wf b' \<and> status_ok (status_code r')) (construct_response L F now sha Z r u enc inm b tmp)"
proof -
  have start: "head_ok (set_content_length (int (count b)) (r\<lparr>content_language := ''en-US''\<rparr>))"
    using st by (simp add: set_content_length_def to_uint32_def)
  have last: "returned (\<lambda>(n, r', b', tmp'). buffer_wf b' \<and> status_ok (status_code r'))
      (and_then (to_string L r6 (Some tmp4) b) (\<lambda>(n, body'). Inr (n, r6, body'\<lparr>count := nat n\<rparr>, tmp4)))"
    if "head_ok r6" for r6 tmp4
    using that to_string_keeps [OF wf] by (auto simp: returned_def)
  show ?thesis
    unfolding construct_response_def
    apply (rule returned_skip, rule returned_split)
    apply (simp only: assert_that_def, rule returned_if, rule returned_bind [OF set_content_type_head [OF start]])
     apply (rule returned_bind [OF set_last_modified_head], assumption)
     apply (rule returned_bind [OF set_etag_head], simp add: set_date_def)
     apply (rule returned_bind [OF handle_if_none_match_head], assumption, rule returned_split)
     apply (rule returned_bind [where Q = "\<lambda>(r', t). head_ok r'"])
      apply (rule returned_if)
       apply (rule returned_bind [OF set_compression_head], simp)
       apply (auto simp: set_content_length_def to_uint32_def intro: last)
    done
qed

lemma upgrade_keeps:
  assumes wf: "buffer_wf b"
  shows "returned (\<lambda>(n, b'). buffer_wf b') (construct_upgrade_to_https_response L now stack u h b)"
  by (auto simp: construct_upgrade_to_https_response_def set_content_length_def to_uint32_def returned_def Let_def
      dest!: to_string_keeps [OF wf, rotated])

lemma builder_work_keeps:
  assumes "buffer_wf b" and "status_ok (status_code s)" and "builder_work L F now sha Z stack q s b tmp = Inr (s', b', tmp')"
  shows "buffer_wf b' \<and> status_ok (status_code s')"
  using assms upgrade_keeps [OF assms(1), of L now stack "uri q" "host q"]
    construct_response_keeps [OF assms(1,2), of L F now sha Z "uri q" "accept_encoding q" "if_none_match q" tmp]
  by (auto simp: builder_work_def returned_def split: if_splits)

lemma after_send_keeps:
  assumes "buffer_wf b" and "after_send tls e n q k b = Inr (st, b')"
  shows "buffer_wf b'"
proof -
  have "buffer_wf (c\<lparr>count := count b - nat k\<rparr>)" if "write_bytes 0 rest b = Inr c" for rest c
    using write_bytes_Inr [OF assms(1) that] assms(1) by (intro buffer_wf_count) (auto simp: buffer_wf_def)
  then show ?thesis using assms by (auto simp: after_send_def Let_def split: if_splits)
qed

lemma sender_work_keeps: "buffer_wf b \<Longrightarrow> sender_work B T q b tls bs ps = Inr (st, b', bs', ps') \<Longrightarrow> buffer_wf b'"
  by (auto simp: sender_work_def dest: after_send_keeps split: if_splits)

lemma validated_status: "status_ok (validate_request_headers F q)"
  by (simp add: validate_request_headers_def Let_def status_ok_def split: option.split)

lemma parser_work_status: "parser_work L F b q s = Inr (q', s') \<Longrightarrow> status_ok (status_code s')"
  using validated_status [of F q'] by (auto simp: parser_work_def status_ok_def)

section \<open>The objects of the table\<close>

text \<open>
  A TLS session holds no BIO or the BIO of its own slot: the two arrays move in lockstep, and
  \<open>SSL_set_bio\<close> is only called with the two objects of one index.
\<close>

definition paired :: "session_cache \<Rightarrow> bool" where
  "paired sc \<longleftrightarrow> ssl_array sc \<in> {None, Some (bio_array sc)} \<and> (\<forall>s b. ssl_bio sc s = Some b \<longrightarrow> b = s)"

lemma paired_fields [simp]:
  "paired (sc\<lparr>session_count := n\<rparr>) = paired sc" "paired (sc\<lparr>session_last_index := n\<rparr>) = paired sc"
  "paired (sc\<lparr>sessions := ss\<rparr>) = paired sc" "paired (sc\<lparr>statuses := st\<rparr>) = paired sc"
  "paired (sc\<lparr>bios := bs\<rparr>) = paired sc" "paired (sc\<lparr>requests := rs\<rparr>) = paired sc"
  "paired (sc\<lparr>buffers := bf\<rparr>) = paired sc" "paired (sc\<lparr>responses := rp\<rparr>) = paired sc"
  by (simp_all add: paired_def)

lemma paired_set_bio:
  "paired sc \<Longrightarrow> ssl_array sc = Some ss \<Longrightarrow> paired (sc\<lparr>ssl_bio := (ssl_bio sc)(ss ! i := Some (bio_array sc ! i))\<rparr>)"
  by (auto simp: paired_def)

lemma paired_reset_session: "paired sc \<Longrightarrow> reset_session_at_index E i sc = Inr sc' \<Longrightarrow> paired sc'"
  by (auto simp: reset_session_at_index_def paired_def Let_def split: option.splits if_splits)

lemma paired_init_connection: "paired sc \<Longrightarrow> init_session_connection E i sc = Inr (r, sc') \<Longrightarrow> paired sc'"
  by (auto simp: init_session_connection_def Let_def intro: paired_set_bio split: option.splits if_splits)

lemma paired_del_loop:
  "paired sc \<Longrightarrow> ssl_array sc = None \<or> s_ssl s = s_bio s \<Longrightarrow> del_loop s i n sc = Inr sc' \<Longrightarrow> paired sc'"
  by (induction s i n sc rule: del_loop.induct) (auto simp: paired_def)

lemma paired_del:
  assumes ok: "paired sc" and d: "del_from_session E i sc = Inr sc'"
  shows "paired sc'"
proof -
  let ?s = "\<lparr>s_session = session_array sc ! i, s_status = status_array sc ! i, s_buffer = buffer_array sc ! i,
      s_request = request_array sc ! i, s_response = response_array sc ! i, s_bio = bio_array sc ! i,
      s_ssl = (case ssl_array sc of None \<Rightarrow> 0 | Some ss \<Rightarrow> ss ! i)\<rparr>"
  from d obtain n sc1 sc2 where r: "reset_session_at_index E i sc = Inr sc1" "del_loop ?s i n sc1 = Inr sc2"
    and sc': "paired sc' = paired sc2"
    unfolding del_from_session_def Let_def and_then_Inr by force
  have "paired sc1" using ok r(1) by (rule paired_reset_session)
  moreover have "ssl_array sc1 = ssl_array sc"
    using r(1) by (auto simp: reset_session_at_index_def Let_def split: option.splits)
  ultimately show ?thesis
    unfolding sc' using ok by (intro paired_del_loop [OF _ _ r(2)]) (auto simp: paired_def)
qed

text \<open>Every buffer and every response of the store, also those that only a stale pointer still reaches.\<close>

definition objects_ok :: "session_cache \<Rightarrow> bool" where
  "objects_ok sc \<longleftrightarrow> (\<forall>p. buffer_wf (buffers sc p)) \<and> (\<forall>p. status_ok (status_code (responses sc p))) \<and> paired sc"

lemma zero_response_status: "status_ok (status_code zero_response)"
  by (simp add: status_ok_def zero_response_def)

lemma objects_set_status [simp]: "objects_ok (set_status i g sc) = objects_ok sc"
  by (simp add: objects_ok_def set_status_def)

lemma objects_fields [simp]:
  "objects_ok (sc\<lparr>session_count := n\<rparr>) = objects_ok sc" "objects_ok (sc\<lparr>session_last_index := n\<rparr>) = objects_ok sc"
  "objects_ok (sc\<lparr>sessions := ss\<rparr>) = objects_ok sc" "objects_ok (sc\<lparr>statuses := st\<rparr>) = objects_ok sc"
  "objects_ok (sc\<lparr>bios := bs\<rparr>) = objects_ok sc"
  "objects_ok (sc\<lparr>requests := rs\<rparr>) = objects_ok sc"
  by (simp_all add: objects_ok_def)

lemma objects_reset_session: "objects_ok sc \<Longrightarrow> reset_session_at_index E i sc = Inr sc' \<Longrightarrow> objects_ok sc'"
  using paired_reset_session [of sc E i sc']
  by (auto simp: reset_session_at_index_def objects_ok_def buffer_wf_blank zero_response_status Let_def split: option.splits)

lemma objects_reset_request: "objects_ok sc \<Longrightarrow> objects_ok (reset_request_at_index i sc)"
  by (simp add: reset_request_at_index_def objects_ok_def buffer_wf_def Let_def)

lemma objects_del_loop:
  "del_loop s i n sc = Inr sc' \<Longrightarrow> buffers sc' = buffers sc \<and> responses sc' = responses sc"
  by (induction s i n sc rule: del_loop.induct) auto

lemma objects_del:
  assumes ok: "objects_ok sc" and d: "del_from_session E i sc = Inr sc'"
  shows "objects_ok sc'"
proof -
  from d obtain s n sc1 sc2 where r: "reset_session_at_index E i sc = Inr sc1" "del_loop s i n sc1 = Inr sc2"
    and sc': "buffers sc' = buffers sc2" "responses sc' = responses sc2"
    unfolding del_from_session_def Let_def and_then_Inr by force
  have "objects_ok sc1" using ok r(1) by (rule objects_reset_session)
  moreover have "paired sc'" using ok paired_del [OF _ d] by (simp add: objects_ok_def)
  ultimately show ?thesis using objects_del_loop [OF r(2)] by (simp add: sc' objects_ok_def)
qed

lemma objects_add:
  assumes ok: "objects_ok sc" and a: "add_to_session E f sc = Inr (i, sc')"
  shows "objects_ok sc'"
proof -
  from a obtain k sc1 where r: "reset_session_at_index E k sc = Inr sc1" and sc': "objects_ok sc' = objects_ok sc1"
    by (auto simp: add_to_session_def Let_def)
  show ?thesis using objects_reset_session [OF ok r] by (simp add: sc')
qed

lemma objects_init_connection: "objects_ok sc \<Longrightarrow> init_session_connection E i sc = Inr (r, sc') \<Longrightarrow> objects_ok sc'"
  using paired_init_connection [of sc E i r sc'] init_session_connection_frame [of E i sc r sc']
  by (auto simp: objects_ok_def with_ssl_bio_def)

lemma objects_push_found: "objects_ok (cache w) \<Longrightarrow> push_found E i f st w = Inr w' \<Longrightarrow> objects_ok (cache w')"
  by (cases st) (auto simp: push_found_def objects_reset_request intro: objects_del [rotated])

lemma objects_push_scan: "objects_ok (cache w) \<Longrightarrow> push_scan E f st i found w = Inr (r, w') \<Longrightarrow> objects_ok (cache w')"
proof (induction E f st i found w rule: push_scan.induct)
  case (1 E f st i found w)
  show ?case
  proof (cases "i < session_count (cache w)")
    case lt: True
    show ?thesis
    proof (cases "fd_at i (cache w) = f")
      case True
      then obtain w1 where w1: "push_found E i f st w = Inr w1" "push_scan E f st (i + 1) True w1 = Inr (r, w')"
        using 1(4) lt by (subst (asm) push_scan.simps) auto
      show ?thesis by (rule 1(1) [OF lt True w1(1) _ w1(2)]) (rule objects_push_found [OF 1(3) w1(1)])
    next
      case False
      then have "push_scan E f st (i + 1) found w = Inr (r, w')"
        using 1(4) lt by (subst (asm) push_scan.simps) auto
      then show ?thesis using 1(2) [OF lt False 1(3)] by blast
    qed
  next
    case False
    then show ?thesis using 1(3,4) by (subst (asm) push_scan.simps) auto
  qed
qed

lemma objects_push:
  assumes ok: "objects_ok (cache w)" and p: "push_request E f st w = Inr w'"
  shows "objects_ok (cache w')"
proof -
  from p obtain found w1 where s: "push_scan E f st 0 False w = Inr (found, w1)"
    by (auto simp: push_request_def)
  have ok1: "objects_ok (cache w1)" by (rule objects_push_scan [OF ok s])
  show ?thesis
  proof (cases "\<not> found \<and> (st = WORK_STATUS_INITIAL \<or> st = WORK_STATUS_INITIAL_SSL)")
    case False
    then show ?thesis using p s ok1 by (auto simp: push_request_def)
  next
    case True
    then obtain i sc where a: "add_to_session E f (cache w1) = Inr (i, sc)" using p s by (auto simp: push_request_def)
    have ok2: "objects_ok sc" by (rule objects_add [OF ok1 a])
    show ?thesis
    proof (cases "st = WORK_STATUS_INITIAL_SSL")
      case False
      then show ?thesis using p s True a ok2 by (auto simp: push_request_def)
    next
      case tls: True
      then obtain ret sc1 where c: "init_session_connection E i sc = Inr (ret, sc1)"
        using p s True a by (auto simp: push_request_def)
      have ok3: "objects_ok sc1" by (rule objects_init_connection [OF ok2 c])
      show ?thesis
        using p s True a tls c ok3 by (auto simp: push_request_def split: if_splits intro: objects_del [rotated])
    qed
  qed
qed

lemma store_taken [simp]: "objects_ok (taken k sc) = objects_ok sc"
  by (simp add: taken_def)

lemma objects_set [simp]: "objects_ok (set_thread p t sc) = objects_ok sc" "objects_ok (set_request p q sc) = objects_ok sc"
  by (simp_all add: objects_ok_def set_thread_def set_request_def)

lemma objects_set_buffer: "objects_ok sc \<Longrightarrow> buffer_wf b \<Longrightarrow> objects_ok (set_buffer p b sc)"
  by (simp add: objects_ok_def set_buffer_def)

lemma objects_set_response: "objects_ok sc \<Longrightarrow> status_ok (status_code s) \<Longrightarrow> objects_ok (set_response p s sc)"
  by (simp add: objects_ok_def set_response_def)

lemma cache_wf_thread_any:
  assumes "cache_wf sc" and "p \<in> set (slots sc) \<or> t = 0"
  shows "cache_wf (set_thread p t sc)"
proof -
  have spare: "spare (set_thread p t sc) q" if "spare sc q" "q \<notin> set (slots sc)" for q
    using that assms(2) by (auto simp: spare_def set_thread_def zero_session_def)
  have "q \<notin> set (slots sc)" if "q \<in> set (drop (session_count sc) (session_array sc))" for q
    using assms(1) that by (auto simp: cache_wf_def slots_def dest: set_take_disj_set_drop_if_distinct [of _ "session_count sc" "session_count sc"])
  moreover have "conn_table (set_thread p t sc) = conn_table sc" by (simp add: conn_table_def)
  moreover have "related_fd (sessions (set_thread p t sc) q) = related_fd (sessions sc q)" for q by (simp add: set_thread_def)
  ultimately show ?thesis
    using spare assms(1) by (auto simp: cache_wf_def lockstep_def) (auto simp: set_thread_def split: option.splits)
qed

section \<open>Every step\<close>

definition fds_wf :: "poll_array \<Rightarrow> bool" where
  "fds_wf pa \<longleftrightarrow> (\<exists>xs. fds pa = Some xs \<and> length xs = max_count pa) \<and> pa_count pa \<le> max_count pa"

definition server_ok :: "('b, 'p) server \<Rightarrow> bool" where
  "server_ok W \<longleftrightarrow> cache_wf (cache (sw W)) \<and> objects_ok (cache (sw W)) \<and> fds_wf (polls W)"

lemma push_ok: "server_ok W \<Longrightarrow> push P f st W = Inr W' \<Longrightarrow> server_ok W'"
  by (auto simp: push_def server_ok_def dest: push_request_wf objects_push)

lemma after_read_ok: "server_ok W \<Longrightarrow> after_read P f n retry W = Inr (r, W') \<Longrightarrow> server_ok W'"
  by (auto simp: after_read_def dest: push_ok split: if_splits)

lemma server_ok_buffer:
  "server_ok W \<Longrightarrow> buffer_wf b \<Longrightarrow> cache (sw W) = sc \<Longrightarrow>
    server_ok (W\<lparr>sw := (sw W)\<lparr>cache := set_buffer p b sc\<rparr>, bio_state := x\<rparr>) \<and>
    server_ok (W\<lparr>sw := (sw W)\<lparr>cache := set_buffer p b sc\<rparr>, ssl_state := y\<rparr>)"
  by (auto simp: server_ok_def cache_wf_set_buffer objects_set_buffer)

lemma store_buffer: "server_ok W \<Longrightarrow> buffer_wf (buffers (cache (sw W)) p)"
  by (simp add: server_ok_def objects_ok_def)

lemma read_plain_ok:
  assumes B: "bio_bounded (p_bio P)" and ok: "server_ok W" and r: "read_plain P f s W = Inr (n, W')"
  shows "server_ok W'"
  using r server_ok_buffer [OF ok recv_bio_wf [OF B store_buffer [OF ok]] refl]
  by (auto simp: read_plain_def Let_def dest: after_read_ok [rotated])

lemma read_ssl_ok:
  assumes T: "ssl_bounded (p_ssl P)" and ok: "server_ok W" and r: "read_ssl P f s W = Inr (n, W')"
  shows "server_ok W'"
  using r server_ok_buffer [OF ok recv_ssl_wf [OF T store_buffer [OF ok]] refl]
  by (auto simp: read_ssl_def Let_def dest: after_read_ok [rotated])

lemma handle_request_ok:
  assumes B: "bio_bounded (p_bio P)" "ssl_bounded (p_ssl P)" and ok: "server_ok W"
    and r: "handle_request_async P f W = Inr (n, W')"
  shows "server_ok W'"
proof -
  from r obtain ret sc where p: "pop_request_by_fd f (cache (sw W)) = Inr (ret, sc)"
    by (auto simp: handle_request_async_def)
  have "objects_ok sc" using pop_by_fd_cases [OF p] ok by (auto simp: server_ok_def)
  then have ok1: "server_ok (W\<lparr>sw := (sw W)\<lparr>cache := sc\<rparr>\<rparr>)"
    using ok pop_by_fd_wf [OF _ p] by (simp add: server_ok_def)
  show ?thesis
    using r p ok1
    by (auto simp: handle_request_async_def Let_def split: option.splits if_splits
        dest: read_plain_ok [OF B(1) ok1] read_ssl_ok [OF B(2) ok1])
qed

lemma remove_entry_ok: "server_ok W \<Longrightarrow> remove_entry i W = Inr (i', W') \<Longrightarrow> server_ok W'"
  by (auto simp: remove_entry_def server_ok_def fds_wf_def remove_poll_fd_by_index_sync_def Let_def split: option.splits if_splits)

lemma reject_entry_ok: "server_ok W \<Longrightarrow> reject_entry P f i W = Inr (i', W') \<Longrightarrow> server_ok W'"
  by (auto simp: reject_entry_def dest: push_ok remove_entry_ok)

lemma add_poll_fd_ok:
  assumes wf: "fds_wf pa" and a: "add_poll_fd_sync p f pa = Inr (i, pa')"
  shows "fds_wf pa'"
proof -
  from a obtain n pa1 where pk: "peek_next_poll pa = Inr (n, pa1)" by (auto simp: add_poll_fd_sync_def)
  have "max_count pa1 = max_count pa \<and> pa_count pa1 = pa_count pa"
    using pk by (auto simp: peek_next_poll_def split: option.splits if_splits)
  moreover have "map_option length (fds pa') = map_option length (fds pa)" by (rule add_poll_fd_length [OF a])
  moreover have "max_count pa' = max_count pa1 \<and> pa_count pa' \<le> max_count pa'"
    using a pk by (auto simp: add_poll_fd_sync_def Let_def split: option.splits if_splits)
  ultimately show ?thesis using wf by (auto simp: fds_wf_def)
qed

lemma accept_client_ok:
  assumes ok: "server_ok W" and a: "accept_client P l f W = Inr W'"
  shows "server_ok W'"
proof -
  from a obtain client where c: "accept_socket (p_sockets P) f True = Inr client" by (auto simp: accept_client_def)
  let ?W1 = "W\<lparr>bio_state := (bio_state W)(client := p_new_bio P client), ssl_state := (ssl_state W)(client := p_new_ssl P client)\<rparr>"
  have ok1: "server_ok ?W1" using ok by (simp add: server_ok_def)
  show ?thesis
  proof (cases "client < 0")
    case True
    then show ?thesis using a c ok by (simp add: accept_client_def)
  next
    case False
    then obtain W2 i pa where "push P client (if f = l then WORK_STATUS_INITIAL else WORK_STATUS_INITIAL_SSL) ?W1 = Inr W2"
      "add_poll_fd_sync (p_props P) client (polls W2) = Inr (i, pa)" "W' = W2\<lparr>polls := pa\<rparr>"
      using a c by (auto simp: accept_client_def Let_def)
    with push_ok [OF ok1] show ?thesis by (auto simp: server_ok_def dest: add_poll_fd_ok [rotated])
  qed
qed

lemma listen_entry_ok:
  assumes B: "bio_bounded (p_bio P)" "ssl_bounded (p_ssl P)" and ok: "server_ok W"
    and e: "listen_entry P l ls i W = Inr (i', W')"
  shows "server_ok W'"
  using e ok
  by (auto simp: listen_entry_def Let_def split: option.splits if_splits
      dest: remove_entry_ok reject_entry_ok push_ok accept_client_ok handle_request_ok [OF B ok])

lemma server_ok_put:
  assumes "server_ok (srv S)" and "cache_wf sc" and "objects_ok sc"
  shows "server_ok (srv (put_cache sc S))"
  using assms by (simp add: server_ok_def put_cache_def)

lemma take_session_ok:
  assumes ok: "server_ok (srv S)" and t: "take_session t h S = Inr (Some S')"
  shows "server_ok (srv S')"
proof -
  from t obtain tmp a sc where p0: "pop_request (work_stage h) False (the_cache S) = Inr (a, sc)"
    and c: "(case a of Pops (Some r) \<Rightarrow>
         Inr (Some ((put_cache (set_thread (r_session r) (t + 1) sc) S)\<lparr>scratch := (scratch S)(t := tmp), held := (held S)(t := Some r)\<rparr>))
     | _ \<Rightarrow> Inr None) = (Inr (Some S') :: _ result)"
    unfolding take_session_def and_then_Inr by force
  from c obtain r where a: "a = Pops (Some r)" by (cases a rule: pop.exhaust; cases "case a of Pops x \<Rightarrow> x | _ \<Rightarrow> None") auto
  have p: "pop_request (work_stage h) False (the_cache S) = Inr (Pops (Some r), sc)" using p0 a by simp
  have S': "srv S' = srv (put_cache (set_thread (r_session r) (t + 1) sc) S)" using c a by auto
  from pop_request_cases [OF p] obtain k where k: "peek_next (work_stage h) (the_cache S) = Some k"
    "r = full_return k (the_cache S)" "sc = taken k (the_cache S)" by auto
  have wf: "cache_wf (the_cache S)" and obj: "objects_ok (the_cache S)" using ok by (simp_all add: server_ok_def)
  have lt: "k < session_count (the_cache S)" using wf k(1) by (simp add: peek_next_Some)
  have "r_session r \<in> set (slots sc)"
    using job_in_slots [OF wf lt] by (simp add: k(2,3) full_return_def taken_def set_status_def slots_def)
  then have "cache_wf (set_thread (r_session r) (t + 1) sc)"
    using cache_wf_thread_any [OF pop_request_wf [OF wf p]] by blast
  then show ?thesis unfolding S' by (rule server_ok_put [OF ok]) (simp add: k(3) obj)
qed

lemma give_session_ok:
  assumes ok: "server_ok (srv S)" and g: "give_session P t r st S = Inr S'"
  shows "server_ok (srv S')"
proof -
  let ?sc = "set_thread (r_session r) 0 (the_cache S)"
  from g obtain W where p: "push P (related_fd (sessions ?sc (r_session r))) st (srv (put_cache ?sc S)) = Inr W"
    and S': "srv S' = W" by (auto simp: give_session_def Let_def)
  have "server_ok (srv (put_cache ?sc S))"
    using ok by (intro server_ok_put) (simp_all add: server_ok_def cache_wf_thread_any)
  then show ?thesis unfolding S' by (rule push_ok [OF _ p])
qed

lemma set_same [simp]:
  "set_buffer p (buffers sc p) sc = sc" "set_request p (requests sc p) sc = sc" "set_response p (responses sc p) sc = sc"
  by (simp_all add: set_object_defs)

text \<open>The stores of a worker: the objects it has pointers to.\<close>

definition stores :: "session_full_return \<Rightarrow> session_cache \<Rightarrow> session_cache \<Rightarrow> bool" where
  "stores r sc sc' \<longleftrightarrow> (\<exists>b q s. sc' = set_response (r_response r) s (set_request (r_request r) q (set_buffer (r_buffer r) b sc)))"

lemma storesI:
  "stores r sc (set_response (r_response r) s (set_request (r_request r) q sc))"
  "stores r sc (set_response (r_response r) s (set_buffer (r_buffer r) b sc))"
  "stores r sc (set_buffer (r_buffer r) b sc)"
  unfolding stores_def by (metis set_same)+

lemma sender_not_processing: "sender_work B T q b x bs ps = Inr (st, r) \<Longrightarrow> st \<noteq> WORK_STATUS_PROCESSING"
  by (auto simp: sender_work_def after_send_def Let_def split: if_splits)

lemma finish_gives:
  fixes S S' :: "('b, 'p, 's) farm"
  assumes ok: "server_ok (srv S)" and f: "finish_session P X t h r S = Inr S'"
  obtains S1 S2 :: "('b, 'p, 's) farm" and st where "server_ok (srv S1)" and "stores r (the_cache S) (the_cache S1)" and "held S1 = held S"
    and "st \<noteq> WORK_STATUS_PROCESSING" and "give_session P t r st S1 = Inr S2" and "srv S' = srv S2" and "held S' = held S2"
proof -
  let ?sc = "the_cache S"
  have wf: "cache_wf ?sc" and obj: "objects_ok ?sc" using ok by (simp_all add: server_ok_def)
  have b: "buffer_wf (buffers ?sc (r_buffer r))" and s: "status_ok (status_code (responses ?sc (r_response r)))"
    using obj by (simp_all add: objects_ok_def)
  note sets = cache_wf_set_buffer cache_wf_set_request cache_wf_set_response objects_set_buffer objects_set_response
  show ?thesis
  proof (cases h)
    case handle_a
    then obtain q' s' where w: "parser_work (p_libc P) (s_files X) (buffers ?sc (r_buffer r)) (requests ?sc (r_request r))
        (responses ?sc (r_response r)) = Inr (q', s')"
      and g: "give_session P t r WORK_STATUS_PARSED
        (put_cache (set_response (r_response r) s' (set_request (r_request r) q' ?sc)) S) = Inr S'"
      using f by (auto simp: finish_session_def Let_def)
    have "server_ok (srv (put_cache (set_response (r_response r) s' (set_request (r_request r) q' ?sc)) S))"
      by (rule server_ok_put [OF ok]) (simp_all add: sets wf obj parser_work_status [OF w])
    then show ?thesis by (intro that [OF _ _ _ _ g]) (simp_all add: storesI)
  next
    case handle_b
    then obtain s' b' tmp st S1 where w: "loader_work (p_libc P) (s_files X) (s_sql X) (prepared_stmts S t) (scratch S t)
        (requests ?sc (r_request r)) (responses ?sc (r_response r)) (buffers ?sc (r_buffer r)) = Inr (s', b', tmp, st)"
      and g: "give_session P t r WORK_STATUS_DATA_FETCHED
        (put_cache (set_response (r_response r) s' (set_buffer (r_buffer r) b' ?sc)) S) = Inr S1"
      and S': "srv S' = srv S1" "held S' = held S1"
      using f by (auto simp: finish_session_def Let_def)
    have "server_ok (srv (put_cache (set_response (r_response r) s' (set_buffer (r_buffer r) b' ?sc)) S))"
      by (rule server_ok_put [OF ok]) (simp_all add: sets wf obj loader_work_keeps [OF b s w])
    then show ?thesis by (intro that [OF _ _ _ _ g S']) (simp_all add: storesI)
  next
    case handle_c
    then obtain s' b' tmp where w: "builder_work (p_libc P) (s_files X) (s_now X) (s_sha X) (s_zlib X) (s_stack X)
        (requests ?sc (r_request r)) (responses ?sc (r_response r)) (buffers ?sc (r_buffer r)) (scratch S t) = Inr (s', b', tmp)"
      and g: "give_session P t r WORK_STATUS_READY_TO_SEND
        ((put_cache (set_response (r_response r) s' (set_buffer (r_buffer r) b' ?sc)) S)\<lparr>scratch := (scratch S)(t := tmp)\<rparr>) = Inr S'"
      using f by (auto simp: finish_session_def Let_def)
    have "server_ok (srv (put_cache (set_response (r_response r) s' (set_buffer (r_buffer r) b' ?sc)) S))"
      by (rule server_ok_put [OF ok]) (simp_all add: sets wf obj builder_work_keeps [OF b s w])
    then show ?thesis by (intro that [OF _ _ _ _ g]) (simp_all add: storesI)
  next
    case handle_d
    let ?sock = "bio_fd (bios ?sc (r_bio r))"
    obtain st b' bs ps where w: "sender_work (p_bio P) (p_ssl P) (requests ?sc (r_request r)) (buffers ?sc (r_buffer r)) (r_ssl r \<noteq> None)
        (bio_state (srv S) ?sock) (ssl_state (srv S) ?sock) = Inr (st, b', bs, ps)"
      and g: "give_session P t r st ((put_cache (set_buffer (r_buffer r) b' ?sc) S)\<lparr>srv := (srv (put_cache (set_buffer (r_buffer r) b' ?sc) S))
        \<lparr>bio_state := (bio_state (srv S))(?sock := bs), ssl_state := (ssl_state (srv S))(?sock := ps)\<rparr>\<rparr>) = Inr S'"
      using f handle_d by (auto simp: finish_session_def Let_def)
    have "server_ok (srv (put_cache (set_buffer (r_buffer r) b' ?sc) S))"
      by (rule server_ok_put [OF ok]) (simp_all add: sets wf obj sender_work_keeps [OF b w])
    then show ?thesis
      by (intro that [OF _ _ _ sender_not_processing [OF w] g]) (simp_all add: server_ok_def storesI)
  qed
qed


lemma finish_session_ok:
  fixes S S' :: "('b, 'p, 's) farm"
  assumes ok: "server_ok (srv S)" and f: "finish_session P X t h r S = Inr S'"
  shows "server_ok (srv S')"
proof -
  from ok f obtain S1 S2 :: "('b, 'p, 's) farm" and st where S1: "server_ok (srv S1)" "give_session P t r st S1 = Inr S2" "srv S' = srv S2"
    by (rule finish_gives)
  then show ?thesis using give_session_ok [OF S1(1,2)] by simp
qed

lemma step_ok:
  assumes "bio_bounded (p_bio P)" and "ssl_bounded (p_ssl P)"
  shows "step P X l ls S S' \<Longrightarrow> server_ok (srv S) \<Longrightarrow> server_ok (srv S')"
  by (erule stepE) (auto intro: take_session_ok finish_session_ok listen_entry_ok [OF assms])

lemma steps_ok:
  assumes "bio_bounded (p_bio P)" and "ssl_bounded (p_ssl P)" and "(step P X l ls)\<^sup>*\<^sup>* S S'" and "server_ok (srv S)"
  shows "server_ok (srv S')"
  using assms(3,4) by (induction rule: rtranclp_induct) (auto dest: step_ok [OF assms(1,2)])

section \<open>Every run\<close>

text \<open>
  The server and what surrounds it: a step of a thread, with any answers of the system and the libraries
  and any files, an event reported by \<open>ppoll\<close>, or anything that happens on the connections.
\<close>

inductive evolves :: "int \<Rightarrow> int \<Rightarrow> ('b, 'p, 's) farm \<Rightarrow> ('b, 'p, 's) farm \<Rightarrow> bool" for l ls where
  a_thread: "bio_bounded (p_bio P) \<Longrightarrow> ssl_bounded (p_ssl P) \<Longrightarrow> step P X l ls S S' \<Longrightarrow> evolves l ls S S'"
| an_event: "evolves l ls S (S\<lparr>srv := (srv S)\<lparr>polls := set_revents evs (polls (srv S))\<rparr>\<rparr>)"
| a_client: "evolves l ls S (S\<lparr>srv := (srv S)\<lparr>bio_state := bs, ssl_state := ps\<rparr>\<rparr>)"

inductive_cases evolvesE: "evolves l ls S S'"

lemma fds_wf_revents: "fds_wf (set_revents evs pa) = fds_wf pa"
  by (cases "fds pa") (simp_all add: fds_wf_def set_revents_def)

lemma evolves_ok: "evolves l ls S S' \<Longrightarrow> server_ok (srv S) \<Longrightarrow> server_ok (srv S')"
  by (erule evolvesE) (auto dest: step_ok, simp_all add: server_ok_def fds_wf_revents)

lemma runs_ok:
  assumes "(evolves l ls)\<^sup>*\<^sup>* S S'" and "server_ok (srv S)"
  shows "server_ok (srv S')"
  using assms by (induction rule: rtranclp_induct) (auto dest: evolves_ok)

lemma init_fds_wf:
  "init_poll_array L p f pa = Inr pa' \<Longrightarrow> fds_wf pa'" "init_poll_array_ssl L p f g pa = Inr pa' \<Longrightarrow> fds_wf pa'"
  by (auto simp: init_poll_array_def init_poll_array_ssl_def fds_wf_def Let_def)

lemma objects_init: "init_session_cache L n tls = Inr sc \<Longrightarrow> objects_ok sc"
  by (auto simp: init_session_cache_def objects_ok_def buffer_wf_zero zero_response_status paired_def)

lemma started_ok:
  assumes run: "run_steps (main_steps M argv) (initial_process d) = Inr S"
  shows "server_ok (srv (started_farm M S :: ('b, 'p, 's) farm))"
proof -
  let ?F = "started_farm M S :: ('b, 'p, 's) farm"
  note facts = startup_facts [OF run, of ?F, OF refl]
  have sizes: "session_max_size (props S) < 2 ^ 31" "0 < session_max_size (props S)"
    using facts(1) by (simp_all add: config_wf_def)
  obtain tls where sc: "init_session_cache (p_libc (m_platform M)) (session_max_size (props S)) tls = Inr (the_cache ?F)"
    using facts(3) by blast
  have "fds_wf (poll_table S)"
    using facts(4) by (auto dest: init_fds_wf split: if_splits)
  moreover have "polls (srv ?F) = poll_table S" by (simp add: started_farm_def Let_def)
  ultimately show ?thesis
    using init_session_cache_wf [OF sc sizes(1)] objects_init [OF sc] by (simp add: server_ok_def)
qed

text \<open>
  C2: Whatever the clients send, in whatever order the listener and the workers take their steps and
  whatever the system answers, a started server keeps its shared data in shape for as long as it runs:
  the arrays of the session table stay in lockstep and without duplicates, every connection has one slot
  with its descriptor bound to it, free slots are blank, every buffer has the memory its capacity says and
  counts no more, and the poll array holds what its counters say.
\<close>

theorem table_always_wf:
  assumes "run_steps (main_steps M argv) (initial_process d) = Inr S"
    and "(evolves (http_socket_fd S) (https_socket_fd S))\<^sup>*\<^sup>* (started_farm M S) F"
  shows "cache_wf (the_cache F) \<and> (\<forall>p. buffer_wf (buffers (the_cache F) p)) \<and> fds_wf (polls (srv F))"
  using runs_ok [OF assms(2) started_ok [OF assms(1)]] by (simp add: server_ok_def objects_ok_def)

text \<open>A client connects to the server just started.\<close>

definition one_client :: "(string \<times> string, unit) platform" where
  "one_client = chat_platform\<lparr>p_sockets := no_descriptors\<lparr>os_accept := \<lambda>_. 4\<rparr>\<rparr>"

declare marks_of_0 [simp]

lemma blank_buffer: "zero_buffer\<lparr>data := map_option (\<lambda>_. replicate (capacity zero_buffer) NUL) (data zero_buffer), count := 0\<rparr> = zero_buffer"
  unfolding zero_buffer_def buffer.select_convs buffer.update_convs option.map ..

lemma zero_buffer_room: "count zero_buffer = 0" "capacity zero_buffer = 1024"
  unfolding zero_buffer_def by (rule buffer.select_convs)+

lemma one_client_joins:
  assumes sc: "init_session_cache roomy 64 tls = Inr (the_cache F)"
    and m: "marked_fds (sw (srv F)) = init_marked_fds 64"
    and pa: "init_poll_array roomy default_properties 3 pa0 = Inr pa" "polls (srv F) = set_revents (\<lambda>_. POLLIN) pa"
  shows "\<exists>F' j. step one_client X 3 (-1) F F' \<and> session_count (the_cache F') = 1 \<and> alone 0 j (the_cache F') \<and> idle_job j \<and>
    j_fd j = 4 \<and> marked_fds (sw (srv F')) = init_marked_fds 64 \<and>
    (\<exists>xs. fds (polls (srv F')) = Some xs \<and> 1 < length xs \<and> fd (xs ! 1) = 4 \<and> 1 < pa_count (polls (srv F'))) \<and>
    held F' = held F \<and> duty F' = duty F \<and> scratch F' = scratch F"
proof -
  have wf: "cache_wf (the_cache F)" "conn_table (the_cache F) = []" "max_size (the_cache F) = 64"
    using init_session_cache_wf [OF sc] by simp_all
  then have zero: "session_count (the_cache F) = 0" using length_conn_table [of "the_cache F"] by simp
  have absent: "4 \<notin> conn_fds (the_cache F)" using wf(2) by (simp add: conn_fds_def)
  obtain w where w: "push_request demo_env 4 WORK_STATUS_INITIAL (sw (srv F)) = Inr w"
    using push_request_joins [of "sw (srv F)" 4 demo_env] wf zero absent resets_ok_demo by auto
  obtain sb where w': "w = (sw (srv F))\<lparr>cache := added demo_env 0 4 sb (the_cache F)\<rparr>"
    using push_request_join [OF wf(1) absent w] zero wf(3) by auto
  have wf': "cache_wf (cache w)" by (rule push_request_wf [OF wf(1) w])
  have one: "session_count (cache w) = 1" using zero wf(3) by (simp add: w')
  let ?j = "jobs (cache w) ! 0"
  have alone: "alone 0 ?j (cache w)" using wf' one by (simp add: alone_def)
  have bufs: "buffers (the_cache F) = (\<lambda>_. zero_buffer)"
    using sc unfolding init_session_cache_def assert_that_Inr sum.inject by (elim conjE) (erule subst, rule session_cache.select_convs)
  have j': "?j = \<lparr>j_slot = session_array (the_cache F) ! 0, j_fd = 4, j_marks = {}, j_buffer = zero_buffer,
      j_request = zero_request, j_response = zero_response\<rparr>"
    using nth_jobs [OF wf', of 0] one by (simp add: job_at_def w' added_def Let_def blank_slot_def bufs blank_buffer)
  have j: "j_fd ?j = 4" "idle_job ?j"
    unfolding j' by (simp_all add: idle_job_def zero_request_def zero_response_def zero_buffer_room)
  let ?xs = "(replicate 64 zero_pollfd)[0 := \<lparr>fd = 3, events = POLLIN, revents = 0\<rparr>]"
  have pa': "pa = \<lparr>fds = Some ?xs, pa_count = 1, last_in_index = 1, max_count = 64\<rparr>"
    using pa(1) by (auto simp: init_poll_array_def default_properties_def Let_def split: if_splits)
  obtain ys where ys: "fds (polls (srv F)) = Some ys" "length ys = 64" "fd (ys ! 0) = 3" "revents (ys ! 0) = POLLIN"
    "pa_count (polls (srv F)) = 1" "max_count (polls (srv F)) = 64" "last_in_index (polls (srv F)) = 1"
    by (simp add: pa(2) pa' set_revents_def)
  obtain pa2 where add: "add_poll_fd_sync default_properties 4 (polls (srv F)) = Inr (1, pa2)"
    "fds pa2 = Some (ys[1 := \<lparr>fd = 4, events = POLLIN, revents = 0\<rparr>])" "pa_count pa2 = 2"
    using ys by (simp add: add_poll_fd_sync_def peek_next_poll_def Let_def)
  have mk: "is_marked 3 (marked_fds (sw (srv F))) = Inr False" by (simp add: m is_marked_def init_marked_fds_def marks_at_def)
  let ?W1 = "(srv F)\<lparr>bio_state := (bio_state (srv F))(4 := p_new_bio one_client 4), ssl_state := (ssl_state (srv F))(4 := p_new_ssl one_client 4)\<rparr>"
  let ?F' = "F\<lparr>srv := ?W1\<lparr>sw := w, polls := pa2\<rparr>\<rparr>"
  have "accept_client one_client 3 3 (srv F) = Inr (?W1\<lparr>sw := w, polls := pa2\<rparr>)"
    using w add(1)
    by (simp add: accept_client_def one_client_def accept_socket_def disable_socket_blocking_def no_descriptors_def chat_platform_def
        push_def Let_def)
  then have "listen_entry one_client 3 (-1) 0 (srv F) = Inr (0, ?W1\<lparr>sw := w, polls := pa2\<rparr>)"
    using ys mk by (simp add: listen_entry_def Let_def check_for_socket_error_def one_client_def chat_platform_def)
  then have "step one_client X 3 (-1) F ?F'" by (rule step_listen)
  moreover have "marked_fds (sw (srv ?F')) = init_marked_fds 64" by (simp add: w' m)
  ultimately show ?thesis
    using one alone j add(2,3) ys(2) by (intro exI [of _ ?F'] exI [of _ ?j]) simp
qed

theorem table_always_wf_witness:
  "\<exists>S F. run_steps (main_steps (demo_machine (Some [])) [''wind_breaker'']) (initial_process empty_db) = Inr S \<and>
    (evolves 3 (-1))\<^sup>*\<^sup>* (started_farm (demo_machine (Some [])) S :: (string \<times> string, unit, (string \<times> string) list) farm) F \<and>
    session_count (the_cache F) = 1 \<and> cache_wf (the_cache F)"
proof -
  let ?M = "demo_machine (Some [])"
  obtain S where S: "run_steps (main_steps ?M [''wind_breaker'']) (initial_process empty_db) = Inr S" "props S = default_properties"
    "http_socket_fd S = 3" "https_socket_fd S = -1" using demo_start by blast
  let ?F0 = "started_farm ?M S :: (string \<times> string, unit, (string \<times> string) list) farm"
  let ?F1 = "?F0\<lparr>srv := (srv ?F0)\<lparr>polls := set_revents (\<lambda>_. POLLIN) (polls (srv ?F0))\<rparr>\<rparr>"
  note facts = startup_facts [OF S(1), of ?F0, OF refl, unfolded S(2)]
  have L: "p_libc (m_platform ?M) = roomy" by (simp add: demo_machine_def chat_platform_def)
  have size: "session_max_size default_properties = 64" "enable_https default_properties = False" by (simp_all add: default_properties_def)
  obtain tls where sc: "init_session_cache roomy 64 tls = Inr (the_cache ?F0)" using facts(3) unfolding L size by blast
  obtain pa0 where pa: "init_poll_array roomy default_properties 3 pa0 = Inr (poll_table S)"
    using facts(4) unfolding L size S(3) by auto
  obtain F' where F': "step one_client chat_site 3 (-1) ?F1 F'" "session_count (the_cache F') = 1"
    using one_client_joins [of tls ?F1 pa0 "poll_table S"] sc facts(2) pa by (auto simp: size started_farm_def Let_def)
  have B: "bio_bounded (p_bio one_client)" "ssl_bounded (p_ssl one_client)"
    by (auto simp: one_client_def chat_platform_def bio_bounded_def chat_bio_def ssl_bounded_def fresh_ssl_def min_def)
  have run: "(evolves 3 (-1))\<^sup>*\<^sup>* ?F0 F'"
    using an_event [of 3 "-1" ?F0 "\<lambda>_. POLLIN"] a_thread [OF B F'(1)]
    by (meson converse_rtranclp_into_rtranclp r_into_rtranclp)
  have "cache_wf (the_cache F')" using table_always_wf [OF S(1), unfolded S(3,4), OF run] by blast
  then show ?thesis using S(1) run F'(2) by blast
qed

text \<open>
  C33: Whenever the server is stopped, \<open>destroy_session_cache\<close> frees the BIO of every slot exactly once:
  a BIO that has gone to its TLS session is freed by \<open>SSL_free\<close> alone, any other one directly.
\<close>

theorem bios_freed_once:
  assumes "run_steps (main_steps M argv) (initial_process d) = Inr S"
    and "(evolves (http_socket_fd S) (https_socket_fd S))\<^sup>*\<^sup>* (started_farm M S) F"
    and "destroy_session_cache ret (Some (the_cache F)) = Inr (freed, t)"
  shows "freed = bio_array (the_cache F) \<and> distinct freed \<and> length freed = max_size (the_cache F) \<and> t = None"
proof -
  let ?sc = "the_cache F"
  have "server_ok (srv F)" by (rule runs_ok [OF assms(2) started_ok [OF assms(1)]])
  then have wf: "cache_wf ?sc" and pair: "paired ?sc" by (simp_all add: server_ok_def objects_ok_def)
  then have arr: "bio_array ?sc = session_array ?sc" "distinct (bio_array ?sc)" "length (bio_array ?sc) = max_size ?sc"
    by (simp_all add: cache_wf_def lockstep_def)
  have "free_bio ?sc i = bio_array ?sc ! i" for i
    using pair by (auto simp: free_bio_def paired_def split: option.split)
  then have "map (free_bio ?sc) [0..<max_size ?sc] = bio_array ?sc" by (intro nth_equalityI) (simp_all add: arr(3))
  then show ?thesis using assms(3) arr by (simp add: destroy_session_cache_def)
qed

theorem bios_freed_once_witness:
  "\<exists>S freed. run_steps (main_steps (demo_machine (Some [])) [''wind_breaker'']) (initial_process empty_db) = Inr S \<and>
    destroy_session_cache (\<lambda>_. 0) (Some (the_cache (started_farm (demo_machine (Some [])) S :: (string \<times> string, unit, (string \<times> string) list) farm)))
      = Inr (freed, None) \<and> distinct freed"
proof -
  let ?M = "demo_machine (Some [])"
  obtain S where S: "run_steps (main_steps ?M [''wind_breaker'']) (initial_process empty_db) = Inr S"
    using demo_start by blast
  let ?F0 = "started_farm ?M S :: (string \<times> string, unit, (string \<times> string) list) farm"
  obtain freed where d: "destroy_session_cache (\<lambda>_. 0) (Some (the_cache ?F0)) = Inr (freed, None)"
    by (simp add: destroy_session_cache_def)
  have "distinct freed" using bios_freed_once [OF S _ d] by blast
  then show ?thesis using S d by blast
qed

end
