(* ===== verification/Ownership.thy ===== *)
theory Ownership
  imports Reachable
begin

text \<open>
  Who may touch a session. Between \<open>pop_request\<close> and \<open>push_request\<close> a worker reads and writes the buffer,
  the request and the response of its session without holding a mutex (\<^verbatim>\<open>src/handlers/\<close>). This theory
  shows for the whole server that nobody else does so meanwhile, as long as the listener keeps its
  \<open>hands_off\<close> the sessions that workers hold, which \<^verbatim>\<open>src/listener.c\<close> itself does not check.
\<close>

section \<open>Operations on one slot\<close>

definition busy :: "session_cache \<Rightarrow> ptr set" where
  "busy sc = {p \<in> set (slots sc). WORK_STATUS_PROCESSING \<in> marks_of (statuses sc p)}"

text \<open>Nothing changes for the sessions in other slots than \<open>q\<close>.\<close>

definition apart :: "ptr \<Rightarrow> session_cache \<Rightarrow> session_cache \<Rightarrow> bool" where
  "apart q sc sc' \<longleftrightarrow> (ssl_array sc' = None \<longleftrightarrow> ssl_array sc = None) \<and>
     (\<forall>p \<in> set (slots sc) - {q}. p \<in> set (slots sc') \<and> job_at sc' p = job_at sc p \<and> bios sc' p = bios sc p)"

lemma apart_refl [simp]: "apart q sc sc"
  by (simp add: apart_def)

lemma apart_trans [trans]: "apart q sc sc1 \<Longrightarrow> apart q sc1 sc2 \<Longrightarrow> apart q sc sc2"
  by (auto simp: apart_def)

lemma slot_index:
  assumes "cache_wf sc" and "p \<in> set (slots sc)"
  obtains k where "k < session_count sc" and "session_array sc ! k = p"
  using assms by (auto simp: slots_def cache_wf_def in_set_conv_nth)

lemma slot_fd: "cache_wf sc \<Longrightarrow> p \<in> set (slots sc) \<Longrightarrow> related_fd (sessions sc p) \<in> conn_fds sc"
  by (force simp: conn_fds_def conn_table_def conn_at_def)

lemma slot_of_fd:
  assumes "f \<in> conn_fds sc"
  obtains p where "p \<in> set (slots sc)" and "related_fd (sessions sc p) = f"
  using assms by (auto simp: conn_fds_def conn_table_def conn_at_def)

lemma slot_unique:
  assumes wf: "cache_wf sc" and p: "p \<in> set (slots sc)" "q \<in> set (slots sc)"
    and f: "related_fd (sessions sc p) = related_fd (sessions sc q)"
  shows "p = q"
proof -
  from wf p(1) obtain i where i: "i < session_count sc" "session_array sc ! i = p" by (rule slot_index)
  from wf p(2) obtain j where j: "j < session_count sc" "session_array sc ! j = q" by (rule slot_index)
  show ?thesis using fd_at_unique [OF wf i(1) j(1)] i j f by (simp add: fd_at_def)
qed

lemma busy_slots: "busy sc \<subseteq> set (slots sc)"
  by (auto simp: busy_def)

text \<open>The status byte.\<close>

lemma apart_set_status: "lockstep sc \<Longrightarrow> apart (session_array sc ! k) sc (set_status k g sc)"
  by (simp add: apart_def job_at_def statuses_set_status)

lemma busy_set_status:
  "cache_wf sc \<Longrightarrow> k < session_count sc \<Longrightarrow> busy (set_status k g sc) =
    (if WORK_STATUS_PROCESSING \<in> marks_of (g (statuses sc (session_array sc ! k)))
     then insert (session_array sc ! k) (busy sc) else busy sc - {session_array sc ! k})"
  using job_in_slots [of sc k] by (auto simp: busy_def statuses_set_status cache_wf_def)

lemma take_slot:
  assumes "cache_wf sc" and "k < session_count sc"
  shows "apart (session_array sc ! k) sc (taken k sc)"
    and "busy (taken k sc) = insert (session_array sc ! k) (busy sc)"
  using assms apart_set_status [of sc k take_status] busy_set_status [of sc k take_status]
  by (simp_all add: taken_def marks_take take_status_def [symmetric] cache_wf_def)

lemma apart_reset_request:
  "request_array sc ! k = q \<Longrightarrow> buffer_array sc ! k = q \<Longrightarrow> apart q sc (reset_request_at_index k sc)"
  by (auto simp: apart_def reset_request_at_index_def job_at_def slots_def Let_def)

lemma busy_reset_request [simp]: "busy (reset_request_at_index k sc) = busy sc"
  by (simp add: busy_def reset_request_at_index_def slots_def Let_def)

lemma given_not_processing: "st \<noteq> WORK_STATUS_PROCESSING \<Longrightarrow> WORK_STATUS_PROCESSING \<notin> given st M"
  by (cases st) auto

lemma give_slot:
  assumes wf: "cache_wf sc" and k: "k < session_count sc" and st: "st \<noteq> WORK_STATUS_PROCESSING"
  shows "apart (session_array sc ! k) sc (given_cache k st sc)"
    and "busy (given_cache k st sc) = busy sc - {session_array sc ! k}"
proof -
  let ?sc = "set_status k (given_status st) sc"
  have lock: "lockstep sc" using wf by (simp add: cache_wf_def)
  have a: "apart (session_array sc ! k) sc ?sc" by (rule apart_set_status [OF lock])
  have "lockstep ?sc" using lock by simp
  then have "apart (session_array sc ! k) ?sc (reset_request_at_index k ?sc)"
    by (intro apart_reset_request) (simp_all add: lockstep_arrays)
  then show "apart (session_array sc ! k) sc (given_cache k st sc)"
    using a by (auto simp: given_cache_def intro: apart_trans)
  have "busy ?sc = busy sc - {session_array sc ! k}"
    using busy_set_status [OF wf k, of "given_status st"] st by (simp add: marks_given given_not_processing)
  then show "busy (given_cache k st sc) = busy sc - {session_array sc ! k}"
    by (cases "st = WORK_STATUS_SENT") (simp_all add: given_cache_def)
qed

text \<open>Removal, and a new connection.\<close>

lemma delete_slot:
  assumes wf: "cache_wf sc" and k: "k < session_count sc"
  shows "apart (session_array sc ! k) sc (deleted k sb sc)"
    and "busy (deleted k sb sc) = busy sc - {session_array sc ! k}"
proof -
  have "p \<noteq> session_array sc ! k \<Longrightarrow> job_at (deleted k sb sc) p = job_at sc p" for p
    by (simp add: job_at_def deleted_def Let_def blank_slot_def)
  moreover have "ssl_array (deleted k sb sc) = None \<longleftrightarrow> ssl_array sc = None" by (simp add: deleted_def Let_def)
  ultimately show "apart (session_array sc ! k) sc (deleted k sb sc)"
    using slots_deleted_mem(1) [OF wf k, of sb] by (simp add: apart_def)
  show "busy (deleted k sb sc) = busy sc - {session_array sc ! k}"
    using slots_deleted_mem(1) [OF wf k, of sb] by (auto simp: busy_def)
qed

definition next_slot :: "session_cache \<Rightarrow> nat" where
  "next_slot sc = (if session_count sc < max_size sc then session_count sc else session_last_index sc)"

lemma slots_added:
  assumes wf: "cache_wf sc" and n: "n = next_slot sc" "n < max_size sc"
  shows "set (slots (added E n f sb sc)) = insert (session_array sc ! n) (set (slots sc))"
proof (cases "session_count sc < max_size sc")
  case True
  then show ?thesis using wf n by (simp add: slots_def cache_wf_def next_slot_def take_Suc_conv_app_nth)
next
  case False
  then have "n < session_count sc" using wf n by (auto simp: cache_wf_def)
  then show ?thesis using False job_in_slots [OF wf] by (auto simp: slots_def)
qed

lemma join_slot:
  assumes "cache_wf sc" and "n = next_slot sc" and "n < max_size sc"
  shows "apart (session_array sc ! n) sc (added E n f sb sc)"
    and "busy (added E n f sb sc) = busy sc - {session_array sc ! n}"
proof -
  have "p \<noteq> session_array sc ! n \<Longrightarrow> job_at (added E n f sb sc) p = job_at sc p" for p
    by (simp add: job_at_def added_def Let_def blank_slot_def)
  moreover have "ssl_array (added E n f sb sc) = ssl_array sc" by (simp add: added_def Let_def)
  ultimately show "apart (session_array sc ! n) sc (added E n f sb sc)"
    using slots_added [OF assms] by (simp add: apart_def)
  show "busy (added E n f sb sc) = busy sc - {session_array sc ! n}"
    using slots_added [OF assms] by (auto simp: busy_def)
qed

lemma handshake_slot:
  "apart q sc (with_ssl_bio sb sc)" "busy (with_ssl_bio sb sc) = busy sc"
  "request_array sc ! n = q \<Longrightarrow> apart q sc (flag_ssl n sc)" "busy (flag_ssl n sc) = busy sc"
  by (simp_all add: apart_def busy_def with_ssl_bio_def flag_ssl_def job_at_def slots_def)

section \<open>Pushing\<close>

text \<open>For a session in the table: it was busy, and only its slot changes.\<close>

lemma push_present:
  assumes wf: "cache_wf (cache w)" and p: "p \<in> set (slots (cache w))" "related_fd (sessions (cache w) p) = f"
    and st: "st \<noteq> WORK_STATUS_PROCESSING" and r: "push_request E f st w = Inr w'"
  shows "p \<in> busy (cache w)" and "apart p (cache w) (cache w')" and "busy (cache w') = busy (cache w) - {p}"
proof -
  let ?sc = "cache w"
  obtain k where k: "k < session_count ?sc" "session_array ?sc ! k = p" using wf p(1) by (rule slot_index)
  have f: "fd_at k ?sc = f" using k(2) p(2) by (simp add: fd_at_def)
  have proc: "has_status (status_at k ?sc) WORK_STATUS_PROCESSING"
    using push_request_unowned [OF wf k(1) f, of E st] r by auto
  have lock: "lockstep ?sc" using wf by (simp add: cache_wf_def)
  show "p \<in> busy ?sc"
    using proc p(1) k(2) lock by (simp add: busy_def has_status_marks status_at_def lockstep_arrays)
  have "apart p ?sc (cache w') \<and> busy (cache w') = busy ?sc - {p}"
  proof (cases "st = WORK_STATUS_REJECTED")
    case True
    let ?sc1 = "set_status k (given_status WORK_STATUS_REJECTED) ?sc"
    obtain sb m where w': "w' = w\<lparr>cache := deleted k sb ?sc1, marked_fds := m\<rparr>"
      using push_request_rejected [OF wf k(1) f] r True by blast
    have wf1: "cache_wf ?sc1" using wf k(1) by (rule cache_wf_set_status)
    have a: "apart p ?sc ?sc1" using apart_set_status [OF lock, of k] k(2) by simp
    have "busy ?sc1 - {p} = busy ?sc - {p}"
      using busy_set_status [OF wf k(1), of "given_status WORK_STATUS_REJECTED"] k(2) by auto
    then show ?thesis
      using delete_slot [OF wf1, of k sb] k apart_trans [OF a] by (simp add: w')
  next
    case False
    then have "w' = w\<lparr>cache := given_cache k st ?sc, broadcasts := broadcasts w @ woken st\<rparr>"
      using push_request_present [OF wf k(1) f False proc] r by simp
    then show ?thesis using give_slot [OF wf k(1) st] k(2) by simp
  qed
  then show "apart p ?sc (cache w')" and "busy (cache w') = busy ?sc - {p}" by blast+
qed

text \<open>For an unknown descriptor: a new session, in a slot of its own unless the table is full.\<close>

lemma push_absent:
  assumes wf: "cache_wf (cache w)" and f: "f \<notin> conn_fds (cache w)" and r: "push_request E f st w = Inr w'"
    and q: "q = session_array (cache w) ! next_slot (cache w)"
    and free: "st \<in> {WORK_STATUS_INITIAL, WORK_STATUS_INITIAL_SSL} \<Longrightarrow> q \<notin> busy (cache w)"
  shows "apart q (cache w) (cache w') \<and> busy (cache w') = busy (cache w)"
proof -
  let ?sc = "cache w"
  have range: "0 < f" "f < 16384" using r by (auto simp: push_request_def)
  consider (plain) "st = WORK_STATUS_INITIAL" | (tls) "st = WORK_STATUS_INITIAL_SSL"
    | (late) "st \<noteq> WORK_STATUS_INITIAL" "st \<noteq> WORK_STATUS_INITIAL_SSL" by blast
  then show ?thesis
  proof cases
    case plain
    then obtain n sb where n: "n = next_slot ?sc" "n < max_size ?sc" and w': "w' = w\<lparr>cache := added E n f sb ?sc\<rparr>"
      using push_request_join [OF wf f, folded next_slot_def] r by blast
    then show ?thesis using join_slot [OF wf n] free plain q by simp
  next
    case tls
    have r': "push_request E f WORK_STATUS_INITIAL_SSL w = Inr w'" using r tls by simp
    obtain n sb sb' sc where n: "n = next_slot ?sc" "n < max_size ?sc"
      and sc: "sc = with_ssl_bio sb' (added E n f sb ?sc)"
      and w': "w' = w\<lparr>cache := flag_ssl n sc\<rparr> \<or> (\<exists>sb2 m. mark f (marked_fds w) = Inr m \<and> w' = w\<lparr>cache := deleted n sb2 sc, marked_fds := m\<rparr>)"
      using push_request_join_ssl [OF wf f r', folded next_slot_def] by blast
    have wf': "cache_wf sc" unfolding sc with_ssl_bio_simps
      by (rule cache_wf_added [OF wf f range, folded next_slot_def, OF n])
    have arr: "session_array sc = session_array ?sc" "n < session_count sc"
      using wf n by (simp_all add: sc next_slot_def cache_wf_def split: if_splits)
    have q': "session_array ?sc ! n = q" using q n by simp
    note j = join_slot [OF wf n, of E f sb, unfolded q']
    have "apart q ?sc sc" unfolding sc by (rule apart_trans [OF j(1) handshake_slot(1)])
    moreover have "busy sc = busy ?sc" using j(2) free tls by (simp add: sc handshake_slot(2))
    moreover have "apart q sc (flag_ssl n sc)"
      by (rule handshake_slot(3)) (use wf' n q arr in \<open>simp add: cache_wf_def lockstep_arrays\<close>)
    moreover have "busy (flag_ssl n sc) = busy sc" by (rule handshake_slot(4))
    moreover have "apart q sc (deleted n sb2 sc)" "busy (deleted n sb2 sc) = busy sc - {q}" for sb2
      using delete_slot [OF wf' arr(2), of sb2] n q arr by simp_all
    ultimately show ?thesis using w' free tls apart_trans [of q ?sc sc] by auto
  next
    case late
    then show ?thesis using push_request_late [OF wf f range] r by simp
  qed
qed


section \<open>Steps of the listener\<close>

lemma push_unheld:
  assumes wf: "cache_wf (cache (sw W))" and f: "\<forall>p \<in> busy (cache (sw W)). related_fd (sessions (cache (sw W)) p) \<noteq> f"
    and st: "st \<noteq> WORK_STATUS_PROCESSING" "st \<notin> {WORK_STATUS_INITIAL, WORK_STATUS_INITIAL_SSL}" and r: "push P f st W = Inr W'"
  shows "cache (sw W') = cache (sw W)"
proof -
  from r obtain w' where w': "push_request (p_env P) f st (sw W) = Inr w'" "sw W' = w'" by (auto simp: push_def)
  have "f \<notin> conn_fds (cache (sw W))"
  proof
    assume "f \<in> conn_fds (cache (sw W))"
    then obtain p where p: "p \<in> set (slots (cache (sw W)))" "related_fd (sessions (cache (sw W)) p) = f"
      by (rule slot_of_fd)
    then show False using push_present(1) [OF wf p st(1) w'(1)] f by blast
  qed
  moreover have "0 < f" "f < 16384" using w'(1) by (auto simp: push_request_def)
  ultimately have "w' = sw W" using push_request_late [OF wf, of f st "p_env P"] st(2) w'(1) by simp
  then show ?thesis using w'(2) by simp
qed

lemma remove_entry_cache: "remove_entry i W = Inr (i', W') \<Longrightarrow> cache (sw W') = cache (sw W)"
  by (auto simp: remove_entry_def)

lemma reject_unheld:
  assumes "cache_wf (cache (sw W))" and "\<forall>p \<in> busy (cache (sw W)). related_fd (sessions (cache (sw W)) p) \<noteq> f"
    and "reject_entry P f i W = Inr (i', W')"
  shows "cache (sw W') = cache (sw W)"
  using assms(3) push_unheld [OF assms(1,2), of WORK_STATUS_REJECTED P] by (auto simp: reject_entry_def dest: remove_entry_cache)

lemma push_slot:
  assumes "cache_wf (cache (sw W))" and "p \<in> set (slots (cache (sw W)))" and "related_fd (sessions (cache (sw W)) p) = f"
    and "st \<noteq> WORK_STATUS_PROCESSING" and "push P f st W = Inr W'"
  shows "apart p (cache (sw W)) (cache (sw W'))" and "busy (cache (sw W')) = busy (cache (sw W)) - {p}"
  using assms(5) push_present(2,3) [OF assms(1-4), of "p_env P"] by (auto simp: push_def)

lemma after_read_slot:
  assumes "cache_wf (cache (sw W))" and "p \<in> set (slots (cache (sw W)))" and "related_fd (sessions (cache (sw W)) p) = f"
    and r: "after_read P f n retry W = Inr (x, W')"
  shows "x = -1 \<and> W' = W \<or> x = 0 \<and> apart p (cache (sw W)) (cache (sw W')) \<and> busy (cache (sw W')) = busy (cache (sw W)) - {p}"
  using r push_slot [OF assms(1-3), of WORK_STATUS_REQUEST_READ P] push_slot [OF assms(1-3), of WORK_STATUS_INITIAL P]
  by (auto simp: after_read_def split: if_splits)

lemma store_slot:
  "apart p sc (set_buffer p b sc)" "busy (set_buffer p b sc) = busy sc"
  "apart p sc (set_request p q sc)" "busy (set_request p q sc) = busy sc"
  "apart p sc (set_response p s sc)" "busy (set_response p s sc) = busy sc"
  "apart p sc (set_thread p t sc)" "busy (set_thread p t sc) = busy sc"
  by (simp_all add: apart_def busy_def job_at_def set_object_defs slots_def)

text \<open>The listener reads for the session in slot \<open>p\<close>, which it has popped.\<close>

lemma read_slot:
  assumes B: "bio_bounded (p_bio P)" "ssl_bounded (p_ssl P)" and ok: "server_ok W"
    and p: "p \<in> set (slots (cache (sw W)))" "related_fd (sessions (cache (sw W)) p) = f" "r_buffer r = p"
    and rd: "read_plain P f r W = Inr (x, W') \<or> read_ssl P f r W = Inr (x, W')"
  shows "apart p (cache (sw W)) (cache (sw W'))"
    and "x = -1 \<and> busy (cache (sw W')) = busy (cache (sw W)) \<and> p \<in> set (slots (cache (sw W'))) \<and> related_fd (sessions (cache (sw W')) p) = f \<or>
      x = 0 \<and> busy (cache (sw W')) = busy (cache (sw W)) - {p}"
proof -
  let ?sc = "cache (sw W)"
  from rd have "\<exists>W1 b n retry. server_ok W1 \<and> cache (sw W1) = set_buffer p b ?sc \<and> after_read P f n retry W1 = Inr (x, W')"
  proof (elim disjE)
    assume "read_plain P f r W = Inr (x, W')"
    then obtain n s b where rc: "recv_bio (p_libc P) (p_bio P) (bio_state W (bio_fd (bios ?sc (r_bio r)))) (buffers ?sc p) = Inr (n, s, b)"
      and a: "after_read P f n (BIO_should_retry (p_bio P) s \<noteq> 0) (W\<lparr>sw := (sw W)\<lparr>cache := set_buffer p b ?sc\<rparr>,
        bio_state := (bio_state W)(bio_fd (bios ?sc (r_bio r)) := s)\<rparr>) = Inr (x, W')"
      using p(3) by (auto simp: read_plain_def Let_def)
    note w = server_ok_buffer [OF ok recv_bio_wf [OF B(1) store_buffer [OF ok] rc] refl, THEN conjunct1]
    show ?thesis by (intro exI conjI) (rule w, simp, rule a)
  next
    assume "read_ssl P f r W = Inr (x, W')"
    then obtain n s b where rc: "recv_ssl (p_libc P) (p_ssl P) (ssl_state W (bio_fd (bios ?sc (r_bio r)))) (buffers ?sc p) = Inr (n, s, b)"
      and a: "after_read P f n (SSL_get_error (p_ssl P) s n = SSL_ERROR_WANT_READ) (W\<lparr>sw := (sw W)\<lparr>cache := set_buffer p b ?sc\<rparr>,
        ssl_state := (ssl_state W)(bio_fd (bios ?sc (r_bio r)) := s)\<rparr>) = Inr (x, W')"
      using p(3) by (auto simp: read_ssl_def Let_def)
    note w = server_ok_buffer [OF ok recv_ssl_wf [OF B(2) store_buffer [OF ok] rc] refl, THEN conjunct2]
    show ?thesis by (intro exI conjI) (rule w, simp, rule a)
  qed
  then obtain W1 b n retry where W1: "server_ok W1" "cache (sw W1) = set_buffer p b ?sc" "after_read P f n retry W1 = Inr (x, W')"
    by blast
  have wf: "cache_wf (cache (sw W1))" using W1(1) by (simp add: server_ok_def)
  have p1: "p \<in> set (slots (cache (sw W1)))" "related_fd (sessions (cache (sw W1)) p) = f"
    using p by (simp_all add: W1(2)) (simp add: set_buffer_def)
  note a = after_read_slot [OF wf p1 W1(3)]
  have s: "apart p ?sc (cache (sw W1))" "busy (cache (sw W1)) = busy ?sc" by (simp_all add: W1(2) store_slot)
  show "apart p ?sc (cache (sw W'))" using a apart_trans [OF s(1)] s(1) by auto
  show "x = -1 \<and> busy (cache (sw W')) = busy ?sc \<and> p \<in> set (slots (cache (sw W'))) \<and> related_fd (sessions (cache (sw W')) p) = f \<or>
      x = 0 \<and> busy (cache (sw W')) = busy ?sc - {p}"
    using a s(2) p1 by auto
qed


definition busy_fds :: "session_cache \<Rightarrow> int set" where
  "busy_fds sc = (\<lambda>p. related_fd (sessions sc p)) ` busy sc"

text \<open>A change that leaves the busy sessions alone.\<close>

definition beside :: "session_cache \<Rightarrow> session_cache \<Rightarrow> bool" where
  "beside sc sc' \<longleftrightarrow> sc' = sc \<or> (\<exists>q. q \<notin> busy sc \<and> apart q sc sc' \<and> busy sc' = busy sc)"

lemma request_slot:
  assumes B: "bio_bounded (p_bio P)" "ssl_bounded (p_ssl P)" and ok: "server_ok W" and f: "f \<notin> busy_fds (cache (sw W))"
    and r: "handle_request_async P f W = Inr (ret, W')"
  shows "cache (sw W') = cache (sw W) \<or> (\<exists>p. p \<notin> busy (cache (sw W)) \<and> apart p (cache (sw W)) (cache (sw W')) \<and>
    (ret \<noteq> -1 \<and> busy (cache (sw W')) = busy (cache (sw W)) \<or>
     ret = -1 \<and> busy (cache (sw W')) = insert p (busy (cache (sw W))) \<and> p \<in> set (slots (cache (sw W'))) \<and>
       related_fd (sessions (cache (sw W')) p) = f))"
proof -
  let ?sc = "cache (sw W)"
  have wf: "cache_wf ?sc" using ok by (simp add: server_ok_def)
  from r obtain ret0 sc where pop: "pop_request_by_fd f ?sc = Inr (ret0, sc)"
    by (auto simp: handle_request_async_def)
  show ?thesis
  proof (cases ret0)
    case None
    then show ?thesis using pop_by_fd_cases [OF pop] r pop by (auto simp: handle_request_async_def)
  next
    case (Some y)
    then obtain k where k: "k < session_count ?sc" "fd_at k ?sc = f" "y = full_return k ?sc" "sc = taken k ?sc"
      using pop_by_fd_cases [OF pop] by auto
    let ?p = "session_array ?sc ! k"
    have y: "r_buffer y = ?p" using k(3) return_job [OF wf k(1) refl] by (simp add: j_slot_nth [OF wf k(1)])
    let ?W1 = "W\<lparr>sw := (sw W)\<lparr>cache := sc\<rparr>\<rparr>"
    have ok1: "server_ok ?W1"
      using ok pop_by_fd_wf [OF wf pop] by (simp add: server_ok_def k(4))
    have p: "?p \<in> set (slots (cache (sw ?W1)))" "related_fd (sessions (cache (sw ?W1)) ?p) = f"
      using job_in_slots [OF wf k(1)] k(2) by (simp_all add: k(4) fd_at_def slots_def)
    have free: "?p \<notin> busy ?sc" using f k(2) by (auto simp: busy_fds_def fd_at_def)
    have rd: "read_plain P f y ?W1 = Inr (ret, W') \<or> read_ssl P f y ?W1 = Inr (ret, W')"
      using r pop Some by (auto simp: handle_request_async_def Let_def split: if_splits)
    note a = read_slot [OF B ok1 p y rd]
    note t = take_slot [OF wf k(1)]
    have "apart ?p ?sc (cache (sw W'))" using apart_trans [OF t(1)] a(1) by (simp add: k(4))
    moreover have "ret \<noteq> -1 \<and> busy (cache (sw W')) = busy ?sc \<or> ret = -1 \<and> busy (cache (sw W')) = insert ?p (busy ?sc) \<and>
        ?p \<in> set (slots (cache (sw W'))) \<and> related_fd (sessions (cache (sw W')) ?p) = f"
      using a(2) t(2) free by (auto simp: k(4))
    ultimately show ?thesis using free by blast
  qed
qed

lemma request_rejected:
  assumes B: "bio_bounded (p_bio P)" "ssl_bounded (p_ssl P)" and ok: "server_ok W" and f: "f \<notin> busy_fds (cache (sw W))"
    and r: "handle_request_async P f W = Inr (ret, W1)" and e: "ret = -1" "reject_entry P f i W1 = Inr (i', W')"
  shows "beside (cache (sw W)) (cache (sw W'))"
proof -
  let ?sc = "cache (sw W)"
  have wf1: "cache_wf (cache (sw W1))" using handle_request_ok [OF B ok r] by (simp add: server_ok_def)
  from request_slot [OF B ok f r] show ?thesis
  proof (elim disjE exE conjE)
    assume same: "cache (sw W1) = ?sc"
    then have "cache (sw W') = cache (sw W1)"
      using reject_unheld [OF wf1 _ e(2)] f by (auto simp: busy_fds_def)
    then show ?thesis using same by (simp add: beside_def)
  next
    fix p
    assume p: "p \<notin> busy ?sc" "apart p ?sc (cache (sw W1))" "busy (cache (sw W1)) = insert p (busy ?sc)"
      "p \<in> set (slots (cache (sw W1)))" "related_fd (sessions (cache (sw W1)) p) = f"
    obtain W2 where W2: "push P f WORK_STATUS_REJECTED W1 = Inr W2" "cache (sw W') = cache (sw W2)"
      using e(2) by (auto simp: reject_entry_def dest: remove_entry_cache)
    note q = push_slot [OF wf1 p(4,5) _ W2(1)]
    have "apart p ?sc (cache (sw W'))" using apart_trans [OF p(2) q(1)] W2(2) by simp
    moreover have "busy (cache (sw W')) = busy ?sc" using q(2) p(1,3) W2(2) by simp
    ultimately show ?thesis using p(1) by (auto simp: beside_def)
  qed (use e(1) in simp)
qed

lemma accept_beside:
  assumes ok: "server_ok W" and a: "accept_client P l f W = Inr W'"
    and c: "\<forall>c. accept_socket (p_sockets P) f True = Inr c \<longrightarrow> c \<notin> busy_fds (cache (sw W))"
    and room: "session_array (cache (sw W)) ! next_slot (cache (sw W)) \<notin> busy (cache (sw W))"
  shows "beside (cache (sw W)) (cache (sw W'))"
proof -
  let ?sc = "cache (sw W)"
  have wf: "cache_wf ?sc" using ok by (simp add: server_ok_def)
  from a obtain client where s: "accept_socket (p_sockets P) f True = Inr client" by (auto simp: accept_client_def)
  let ?st = "if f = l then WORK_STATUS_INITIAL else WORK_STATUS_INITIAL_SSL"
  consider "cache (sw W') = ?sc" | w where "push_request (p_env P) client ?st (sw W) = Inr w" "cache (sw W') = cache w"
    using a s by (auto simp: accept_client_def push_def Let_def split: if_splits)
  then show ?thesis
  proof cases
    case 1
    then show ?thesis by (simp add: beside_def)
  next
    case (2 w)
    have "client \<notin> conn_fds ?sc"
    proof
      assume "client \<in> conn_fds ?sc"
      then obtain p where p: "p \<in> set (slots ?sc)" "related_fd (sessions ?sc p) = client" by (rule slot_of_fd)
      have "p \<in> busy ?sc" by (rule push_present(1) [OF wf p _ 2(1)]) simp
      then show False using c s p(2) by (auto simp: busy_fds_def)
    qed
    from push_absent [OF wf this 2(1) refl] room show ?thesis using 2(2) by (auto simp: beside_def)
  qed
qed


text \<open>
  The listener keeps its hands off: for the entry at index \<open>i\<close>, nothing is reported when the session of
  its descriptor is held, a descriptor that \<open>accept\<close> returns is not that of a held session (it is not
  open yet), and the table has room or the session it evicts is not held.
\<close>

definition held_fds :: "('b, 'p, 's) farm \<Rightarrow> int set" where
  "held_fds S = (\<lambda>r. related_fd (sessions (the_cache S) (r_session r))) ` ran (held S)"

definition held_slots :: "('b, 'p, 's) farm \<Rightarrow> ptr set" where
  "held_slots S = r_session ` ran (held S)"

definition hands_off :: "('b, 'p) platform \<Rightarrow> int \<Rightarrow> int \<Rightarrow> nat \<Rightarrow> ('b, 'p, 's) farm \<Rightarrow> bool" where
  "hands_off P l ls i S \<longleftrightarrow>
     (case fds (polls (srv S)) of None \<Rightarrow> True
      | Some xs \<Rightarrow> let f = fd (xs ! i); sc = the_cache S in
          (f \<in> held_fds S \<longrightarrow> revents (xs ! i) = 0 \<and> check_for_socket_error P 0 f \<noteq> -1) \<and>
          (f \<in> {l, ls} \<longrightarrow> (\<forall>c. accept_socket (p_sockets P) f True = Inr c \<longrightarrow> c \<notin> held_fds S) \<and>
             (session_count sc < max_size sc \<or> session_array sc ! session_last_index sc \<notin> held_slots S)))"

lemma listen_beside:
  assumes B: "bio_bounded (p_bio P)" "ssl_bounded (p_ssl P)" and ok: "server_ok W"
    and e: "listen_entry P l ls i W = Inr (i', W')" and xs: "fds (polls W) = Some xs" and f: "f = fd (xs ! i)"
    and quiet: "f \<in> busy_fds (cache (sw W)) \<Longrightarrow> revents (xs ! i) = 0 \<and> check_for_socket_error P 0 f \<noteq> -1"
    and fresh: "f \<in> {l, ls} \<Longrightarrow> (\<forall>c. accept_socket (p_sockets P) f True = Inr c \<longrightarrow> c \<notin> busy_fds (cache (sw W))) \<and>
      session_array (cache (sw W)) ! next_slot (cache (sw W)) \<notin> busy (cache (sw W))"
  shows "beside (cache (sw W)) (cache (sw W'))"
proof (cases "f \<in> busy_fds (cache (sw W))")
  case True
  then have "remove_entry i W = Inr (i', W') \<or> W' = W"
    using e quiet unfolding listen_entry_def Let_def xs option.case f [symmetric] by (auto split: if_splits)
  then show ?thesis by (auto simp: beside_def dest: remove_entry_cache)
next
  case False
  have wf: "cache_wf (cache (sw W))" using ok by (simp add: server_ok_def)
  have unheld: "\<forall>p \<in> busy (cache (sw W)). related_fd (sessions (cache (sw W)) p) \<noteq> f"
    using False by (auto simp: busy_fds_def)
  from e have "remove_entry i W = Inr (i', W') \<or> reject_entry P f i W = Inr (i', W') \<or> push P f WORK_STATUS_READY_TO_SEND W = Inr W' \<or>
      f \<in> {l, ls} \<and> accept_client P l f W = Inr W' \<or>
      (\<exists>ret W1. handle_request_async P f W = Inr (ret, W1) \<and> (ret = -1 \<and> reject_entry P f i W1 = Inr (i', W') \<or> ret \<noteq> -1 \<and> W' = W1)) \<or> W' = W"
    unfolding listen_entry_def Let_def xs option.case f [symmetric] by (simp split: if_splits) blast+
  then show ?thesis
  proof (elim disjE exE conjE)
    fix ret W1
    assume h: "handle_request_async P f W = Inr (ret, W1)" and "ret \<noteq> -1" "W' = W1"
    then show ?thesis using request_slot [OF B ok False h] by (auto simp: beside_def)
  next
    fix ret W1
    assume "handle_request_async P f W = Inr (ret, W1)" "ret = -1" "reject_entry P f i W1 = Inr (i', W')"
    then show ?thesis by (rule request_rejected [OF B ok False])
  next
    assume "f \<in> {l, ls}" and a: "accept_client P l f W = Inr W'"
    then show ?thesis using fresh by (intro accept_beside [OF ok a]) blast+
  next
    assume "push P f WORK_STATUS_READY_TO_SEND W = Inr W'"
    then have "cache (sw W') = cache (sw W)" by (rule push_unheld [OF wf unheld, rotated 2]) simp_all
    then show ?thesis by (simp add: beside_def)
  qed (auto simp: beside_def dest: remove_entry_cache reject_unheld [OF wf unheld])
qed


section \<open>Every step\<close>

text \<open>What \<open>full_return\<close> hands out: all the pointers of one slot.\<close>

definition slot_return :: "ptr \<Rightarrow> session_cache \<Rightarrow> session_full_return" where
  "slot_return p sc = \<lparr>r_session = p, r_bio = p, r_ssl = map_option (\<lambda>_. p) (ssl_array sc),
     r_buffer = p, r_request = p, r_response = p\<rparr>"

text \<open>The busy sessions are those that are held, each by one thread with the pointers of its slot.\<close>

definition owned :: "('b, 'p, 's) farm \<Rightarrow> bool" where
  "owned S \<longleftrightarrow> busy (the_cache S) = held_slots S \<and>
     (\<forall>r \<in> ran (held S). r = slot_return (r_session r) (the_cache S)) \<and>
     (\<forall>t u r r'. held S t = Some r \<and> held S u = Some r' \<and> r_session r = r_session r' \<longrightarrow> t = u)"

lemma slot_return_apart: "apart q sc sc' \<Longrightarrow> slot_return p sc' = slot_return p sc"
  by (cases "ssl_array sc"; cases "ssl_array sc'") (auto simp: slot_return_def apart_def)

lemma held_fds_owned: "owned S \<Longrightarrow> held_fds S = busy_fds (the_cache S)"
  by (simp add: owned_def held_fds_def busy_fds_def held_slots_def image_image)

text \<open>The part of the state a thread works on through its pointers.\<close>

definition part :: "('b, 'p, 's) farm \<Rightarrow> session_full_return \<Rightarrow> job \<times> bio" where
  "part S r = (job_at (the_cache S) (r_session r), bios (the_cache S) (r_session r))"

lemma held_slots_mem: "q \<in> held_slots S \<longleftrightarrow> (\<exists>u r. held S u = Some r \<and> r_session r = q)"
  by (auto simp: held_slots_def ran_def)

lemma owned_held: "owned S \<Longrightarrow> held S t = Some r \<Longrightarrow> r_session r \<in> busy (the_cache S)"
  by (auto simp: owned_def held_slots_def ran_def)

lemma part_apart:
  "apart q (the_cache S) (the_cache S') \<Longrightarrow> r_session r \<in> busy (the_cache S) \<Longrightarrow> r_session r \<noteq> q \<Longrightarrow> part S' r = part S r"
  using busy_slots by (auto simp: part_def apart_def)

lemma beside_owned:
  assumes own: "owned S" and b: "beside (the_cache S) (the_cache S')" and h: "held S' = held S"
  shows "owned S' \<and> (\<forall>t r. held S t = Some r \<longrightarrow> part S' r = part S r)"
  using b unfolding beside_def
proof (elim disjE exE conjE)
  assume "the_cache S' = the_cache S"
  then show ?thesis using own h by (simp add: owned_def held_slots_def part_def)
next
  fix q
  assume q: "q \<notin> busy (the_cache S)" "apart q (the_cache S) (the_cache S')" "busy (the_cache S') = busy (the_cache S)"
  have "owned S'" using own h q(3) slot_return_apart [OF q(2)] by (simp add: owned_def held_slots_def)
  moreover have "part S' r = part S r" if "held S t = Some r" for t r
    using owned_held [OF own that] q(1) by (intro part_apart [OF q(2)]) auto
  ultimately show ?thesis by blast
qed

lemma take_owned:
  assumes wf: "cache_wf (the_cache S)" and own: "owned S" and h: "held S t = None" and k: "take_session t h S = Inr (Some S')"
  shows "owned S' \<and> (\<forall>u r. held S u = Some r \<longrightarrow> held S' u = Some r \<and> part S' r = part S r)"
proof -
  from k obtain tmp a sc where p0: "pop_request (work_stage h) False (the_cache S) = Inr (a, sc)"
    and c: "(case a of Pops (Some r) \<Rightarrow>
         Inr (Some ((put_cache (set_thread (r_session r) (t + 1) sc) S)\<lparr>scratch := (scratch S)(t := tmp), held := (held S)(t := Some r)\<rparr>))
     | _ \<Rightarrow> Inr None) = (Inr (Some S') :: _ result)"
    unfolding take_session_def and_then_Inr by force
  from pop_request_cases [OF p0] c obtain k where k: "peek_next (work_stage h) (the_cache S) = Some k"
    "a = Pops (Some (full_return k (the_cache S)))" "sc = taken k (the_cache S)" by (auto split: pop.splits)
  let ?sc = "the_cache S" and ?r = "full_return k (the_cache S)"
  have lt: "k < session_count ?sc" and due: "due (work_stage h) (jobs ?sc ! k)"
    using k(1) ready_due [OF wf] by (auto simp: peek_next_Some)
  let ?p = "session_array ?sc ! k"
  have r: "?r = slot_return ?p ?sc" using return_job [OF wf lt refl] by (simp add: slot_return_def j_slot_nth [OF wf lt])
  have free: "?p \<notin> busy ?sc"
    using due by (auto simp: due_def busy_def nth_jobs [OF wf lt] job_at_def)
  have S': "the_cache S' = set_thread ?p (t + 1) (taken k ?sc)" "held S' = (held S)(t \<mapsto> ?r)"
    using c k r by (auto simp: slot_return_def put_cache_def)
  note tk = take_slot [OF wf lt]
  have a: "apart ?p ?sc (the_cache S')" unfolding S'(1) by (rule apart_trans [OF tk(1) store_slot(7)])
  have b: "busy (the_cache S') = insert ?p (busy ?sc)" by (simp add: S'(1) store_slot(8) tk(2))
  have ran: "ran (held S') = insert ?r (ran (held S))" using h by (simp add: S'(2))
  have p: "r_session ?r = ?p" by (simp add: r slot_return_def)
  have other: "r_session r' \<noteq> ?p" if "held S u = Some r'" for u r' using owned_held [OF own that] free by auto
  have "owned S'"
    unfolding owned_def
  proof (intro conjI allI impI ballI)
    show "busy (the_cache S') = held_slots S'" using own by (simp add: b held_slots_def ran p owned_def)
    show "r' = slot_return (r_session r') (the_cache S')" if "r' \<in> ran (held S')" for r'
      using that own p r slot_return_apart [OF a] by (auto simp: ran owned_def)
    show "u = v" if "held S' u = Some r1 \<and> held S' v = Some r2 \<and> r_session r1 = r_session r2" for u v r1 r2
      using that own other p by (auto simp: S'(2) owned_def split: if_splits)
  qed
  moreover have "held S' u = Some r' \<and> part S' r' = part S r'" if "held S u = Some r'" for u r'
    using that h owned_held [OF own that] other [OF that] part_apart [OF a, of r'] by (auto simp: S'(2))
  ultimately show ?thesis by blast
qed


lemma stores_slot:
  assumes "stores r sc sc'" and "r = slot_return p sc0"
  shows "apart p sc sc'" and "busy sc' = busy sc" and "slots sc' = slots sc" and "sessions sc' = sessions sc"
proof -
  from assms obtain b q s where sc': "sc' = set_response p s (set_request p q (set_buffer p b sc))"
    by (auto simp: stores_def slot_return_def)
  have "apart p sc (set_request p q (set_buffer p b sc))" by (rule apart_trans [OF store_slot(1) store_slot(3)])
  then show "apart p sc sc'" unfolding sc' by (rule apart_trans [OF _ store_slot(5)])
  show "busy sc' = busy sc" "slots sc' = slots sc" "sessions sc' = sessions sc"
    by (simp_all add: sc' store_slot) (simp add: set_object_defs)
qed

lemma finish_owned:
  fixes S S' :: "('b, 'p, 's) farm"
  assumes ok: "server_ok (srv S)" and own: "owned S" and h: "held S t = Some r" and f: "finish_session P X t d r S = Inr S'"
  shows "owned S' \<and> (\<forall>u r'. u \<noteq> t \<longrightarrow> held S u = Some r' \<longrightarrow> held S' u = Some r' \<and> part S' r' = part S r')"
proof -
  let ?p = "r_session r" and ?sc = "the_cache S"
  from ok f obtain S1 S2 :: "('b, 'p, 's) farm" and st where S1: "server_ok (srv S1)" "stores r ?sc (the_cache S1)" "held S1 = held S"
    "st \<noteq> WORK_STATUS_PROCESSING" "give_session P t r st S1 = Inr S2" "srv S' = srv S2" "held S' = held S2"
    by (rule finish_gives)
  have r: "r = slot_return ?p ?sc" using own h by (auto simp: owned_def ran_def)
  note st = stores_slot [OF S1(2) r]
  let ?sc1 = "set_thread ?p 0 (the_cache S1)"
  let ?f = "related_fd (sessions ?sc1 ?p)"
  obtain W where W: "push P ?f st (srv (put_cache ?sc1 S1)) = Inr W" "srv S' = W" "held S' = (held S)(t := None)"
    using S1(3,5,6,7) by (auto simp: give_session_def Let_def)
  have pin: "?p \<in> busy ?sc" by (rule owned_held [OF own h])
  have "cache_wf (the_cache S1)" using S1(1) by (simp add: server_ok_def)
  then have wf1: "cache_wf (cache (sw (srv (put_cache ?sc1 S1))))" using cache_wf_thread_any by simp
  have p1: "?p \<in> set (slots (cache (sw (srv (put_cache ?sc1 S1)))))" using pin busy_slots st(3) by auto
  note q = push_slot [OF wf1 p1 _ S1(4) W(1), simplified]
  have a: "apart ?p ?sc (the_cache S')"
    unfolding W(2) by (rule apart_trans [OF apart_trans [OF st(1) store_slot(7)] q(1)])
  have b: "busy (the_cache S') = busy ?sc - {?p}" using q(2) st(2) by (simp add: W(2) store_slot(8))
  have other: "r_session r' \<noteq> ?p" if "held S u = Some r'" "u \<noteq> t" for u r'
    using own h that by (auto simp: owned_def)
  have "owned S'"
    unfolding owned_def
  proof (intro conjI allI impI ballI)
    have "held_slots S' = held_slots S - {?p}"
    proof (rule set_eqI)
      fix q
      have "(\<exists>u r'. ((held S)(t := None)) u = Some r' \<and> r_session r' = q) \<longleftrightarrow> (\<exists>u r'. u \<noteq> t \<and> held S u = Some r' \<and> r_session r' = q)"
        by auto
      also have "\<dots> \<longleftrightarrow> (\<exists>u r'. held S u = Some r' \<and> r_session r' = q) \<and> q \<noteq> ?p"
        using h other by (metis option.inject)
      finally show "q \<in> held_slots S' \<longleftrightarrow> q \<in> held_slots S - {?p}" by (simp add: held_slots_mem W(3))
    qed
    then show "busy (the_cache S') = held_slots S'" using own by (simp add: b owned_def)
    show "r' = slot_return (r_session r') (the_cache S')" if "r' \<in> ran (held S')" for r'
      using that own slot_return_apart [OF a] by (auto simp: owned_def W(3) ran_def split: if_splits)
    show "u = v" if "held S' u = Some r1 \<and> held S' v = Some r2 \<and> r_session r1 = r_session r2" for u v r1 r2
      using that own by (auto simp: W(3) owned_def split: if_splits)
  qed
  moreover have "held S' u = Some r' \<and> part S' r' = part S r'" if "held S u = Some r'" "u \<noteq> t" for u r'
    using that owned_held [OF own that(1)] other [OF that] part_apart [OF a, of r'] by (simp add: W(3))
  ultimately show ?thesis by blast
qed

text \<open>A thread that holds a session can give it back: the assertion of \<open>push_request\<close> holds.\<close>

lemma give_returns:
  assumes wf: "cache_wf (the_cache S)" and own: "owned S" and h: "held S t = Some r" and st: "st \<noteq> WORK_STATUS_REJECTED"
  shows "returns (give_session P t r st S)"
proof -
  let ?p = "r_session r" and ?sc = "set_thread (r_session r) 0 (the_cache S)"
  have pin: "?p \<in> busy (the_cache S)" by (rule owned_held [OF own h])
  have wf1: "cache_wf ?sc" using wf cache_wf_thread_any by simp
  have "?p \<in> set (slots ?sc)" using pin busy_slots by auto
  with wf1 obtain k where k: "k < session_count ?sc" "session_array ?sc ! k = ?p" by (rule slot_index)
  have "WORK_STATUS_PROCESSING \<in> marks_of (statuses (the_cache S) ?p)" using pin by (simp add: busy_def)
  then have "has_status (status_at k ?sc) WORK_STATUS_PROCESSING"
    using k(2) wf1 by (simp add: has_status_marks status_at_def cache_wf_def lockstep_arrays) (simp add: set_thread_def)
  then have "returns (push_request (p_env P) (related_fd (sessions ?sc ?p)) st ((sw (srv S))\<lparr>cache := ?sc\<rparr>))"
    using push_request_present [of "(sw (srv S))\<lparr>cache := ?sc\<rparr>" k] k wf1 st by (simp add: fd_at_def returns_iff)
  then show ?thesis by (auto simp: give_session_def push_def put_cache_def returns_iff Let_def)
qed

section \<open>Every run\<close>

text \<open>Who takes a step: a worker, the listener, or the world outside (the events and the clients).\<close>

datatype actor = Worker nat | Listening | Outside

inductive acts :: "int \<Rightarrow> int \<Rightarrow> actor \<Rightarrow> ('b, 'p, 's) farm \<Rightarrow> ('b, 'p, 's) farm \<Rightarrow> bool" for l ls where
  takes: "duty S t = Some h \<Longrightarrow> held S t = None \<Longrightarrow> take_session t h S = Inr (Some S') \<Longrightarrow> acts l ls (Worker t) S S'"
| finishes: "bio_bounded (p_bio P) \<Longrightarrow> ssl_bounded (p_ssl P) \<Longrightarrow> duty S t = Some h \<Longrightarrow> held S t = Some r \<Longrightarrow>
    finish_session P X t h r S = Inr S' \<Longrightarrow> acts l ls (Worker t) S S'"
| listens: "bio_bounded (p_bio P) \<Longrightarrow> ssl_bounded (p_ssl P) \<Longrightarrow> hands_off P l ls i S \<Longrightarrow>
    listen_entry P l ls i (srv S) = Inr (i', W) \<Longrightarrow> acts l ls Listening S (S\<lparr>srv := W\<rparr>)"
| events: "acts l ls Outside S (S\<lparr>srv := (srv S)\<lparr>polls := set_revents evs (polls (srv S))\<rparr>\<rparr>)"
| clients: "acts l ls Outside S (S\<lparr>srv := (srv S)\<lparr>bio_state := bs, ssl_state := ps\<rparr>\<rparr>)"

inductive_cases actsE: "acts l ls a S S'"


lemma next_slot_free:
  assumes "cache_wf sc" and "session_count sc < max_size sc \<or> session_array sc ! session_last_index sc \<notin> busy sc"
  shows "session_array sc ! next_slot sc \<notin> busy sc"
proof (cases "session_count sc < max_size sc")
  case True
  then have "session_array sc ! session_count sc \<notin> set (slots sc)"
    using assms(1) by (auto simp: slots_def cache_wf_def in_set_conv_nth nth_eq_iff_index_eq)
  then show ?thesis using True busy_slots by (auto simp: next_slot_def)
next
  case False
  then show ?thesis using assms(2) by (simp add: next_slot_def)
qed

lemma listen_owned:
  assumes B: "bio_bounded (p_bio P)" "ssl_bounded (p_ssl P)" and ok: "server_ok (srv S)" and own: "owned S"
    and off: "hands_off P l ls i S" and e: "listen_entry P l ls i (srv S) = Inr (i', W)"
  shows "owned (S\<lparr>srv := W\<rparr>) \<and> (\<forall>t r. held S t = Some r \<longrightarrow> part (S\<lparr>srv := W\<rparr>) r = part S r)"
proof -
  obtain xs where xs: "fds (polls (srv S)) = Some xs" using e by (auto simp: listen_entry_def split: option.splits)
  have wf: "cache_wf (the_cache S)" using ok by (simp add: server_ok_def)
  have held: "held_fds S = busy_fds (the_cache S)" "held_slots S = busy (the_cache S)"
    using own held_fds_owned [OF own] by (simp_all add: owned_def)
  note off = off [unfolded hands_off_def xs option.case Let_def held]
  have "beside (the_cache S) (cache (sw W))"
  proof (rule listen_beside [OF B ok e xs refl])
    assume "fd (xs ! i) \<in> busy_fds (the_cache S)"
    then show "revents (xs ! i) = 0 \<and> check_for_socket_error P 0 (fd (xs ! i)) \<noteq> -1" using off by blast
  next
    assume "fd (xs ! i) \<in> {l, ls}"
    then show "(\<forall>c. accept_socket (p_sockets P) (fd (xs ! i)) True = Inr c \<longrightarrow> c \<notin> busy_fds (the_cache S)) \<and>
        session_array (the_cache S) ! next_slot (the_cache S) \<notin> busy (the_cache S)"
      using off next_slot_free [OF wf] by blast
  qed
  then show ?thesis using beside_owned [OF own, of "S\<lparr>srv := W\<rparr>"] by simp
qed

definition sound :: "('b, 'p, 's) farm \<Rightarrow> bool" where
  "sound S \<longleftrightarrow> server_ok (srv S) \<and> owned S"

definition own_by :: "('b, 'p, 's) farm \<Rightarrow> actor \<Rightarrow> session_full_return option" where
  "own_by S a = (case a of Worker t \<Rightarrow> held S t | _ \<Rightarrow> None)"

lemma acts_sound: "acts l ls a S S' \<Longrightarrow> sound S \<Longrightarrow> sound S'"
proof (erule actsE)
  fix t h assume "a = Worker t" "held S t = None" and k: "take_session t h S = Inr (Some S')" and S: "sound S"
  then show "sound S'"
    using take_session_ok [OF _ k] take_owned [OF _ _ _ k] by (simp add: sound_def server_ok_def)
next
  fix P t h r X assume "held S t = Some r" and f: "finish_session P X t h r S = Inr S'" and "sound S"
  then show "sound S'" using finish_session_ok [OF _ f] finish_owned [OF _ _ _ f] by (simp add: sound_def)
next
  fix P i i' W assume B: "bio_bounded (p_bio P)" "ssl_bounded (p_ssl P)" and off: "hands_off P l ls i S"
    and e: "listen_entry P l ls i (srv S) = Inr (i', W)" and S': "S' = S\<lparr>srv := W\<rparr>" and S: "sound S"
  then show "sound S'"
    using listen_entry_ok [OF B _ e] listen_owned [OF B _ _ off e] by (simp add: sound_def)
qed (simp_all add: sound_def server_ok_def fds_wf_revents owned_def held_slots_def)

lemma acts_others:
  assumes "sound S" and "acts l ls a S S'" and "b \<noteq> a" and "own_by S b = Some r"
  shows "own_by S' b = Some r \<and> part S' r = part S r"
proof -
  from assms(4) obtain u where u: "b = Worker u" "held S u = Some r" by (auto simp: own_by_def split: actor.splits)
  have "held S' u = Some r \<and> part S' r = part S r"
    using assms(2)
  proof (rule actsE)
    fix t h assume "a = Worker t" "held S t = None" and k: "take_session t h S = Inr (Some S')"
    then show ?thesis using take_owned [OF _ _ _ k] assms(1) u(2) by (simp add: sound_def server_ok_def)
  next
    fix P t h r0 X assume "a = Worker t" "held S t = Some r0" and f: "finish_session P X t h r0 S = Inr S'"
    then show ?thesis using finish_owned [OF _ _ _ f] assms(1,3) u by (simp add: sound_def)
  next
    fix P i i' W assume B: "bio_bounded (p_bio P)" "ssl_bounded (p_ssl P)" and off: "hands_off P l ls i S"
      and e: "listen_entry P l ls i (srv S) = Inr (i', W)" and S': "S' = S\<lparr>srv := W\<rparr>"
    then show ?thesis using listen_owned [OF B _ _ off e] assms(1) u(2) by (simp add: sound_def)
  qed (use u(2) in \<open>simp_all add: part_def\<close>)
  then show ?thesis using u(1) by (simp add: own_by_def)
qed

text \<open>
  The contract between an owner and everybody else, as a rely condition: a step of one actor keeps what
  the others own and the state of it. What holds of steps holds of runs.
\<close>

locale ownership =
  fixes moves :: "'a \<Rightarrow> 's \<Rightarrow> 's \<Rightarrow> bool" and inv :: "'s \<Rightarrow> bool"
    and owns :: "'s \<Rightarrow> 'a \<Rightarrow> 'r option" and content :: "'s \<Rightarrow> 'r \<Rightarrow> 'v"
  assumes inv_move: "inv s \<Longrightarrow> moves a s s' \<Longrightarrow> inv s'"
    and others_keep: "inv s \<Longrightarrow> moves a s s' \<Longrightarrow> b \<noteq> a \<Longrightarrow> owns s b = Some r \<Longrightarrow> owns s' b = Some r \<and> content s' r = content s r"
begin

lemma run_inv: "(\<lambda>s s'. \<exists>a. moves a s s')\<^sup>*\<^sup>* s s' \<Longrightarrow> inv s \<Longrightarrow> inv s'"
  by (induction rule: rtranclp_induct) (auto intro: inv_move)

lemma run_others:
  assumes "(\<lambda>s s'. \<exists>a. a \<noteq> b \<and> moves a s s')\<^sup>*\<^sup>* s s'" and "inv s" and "owns s b = Some r"
  shows "inv s' \<and> owns s' b = Some r \<and> content s' r = content s r"
  using assms(1)
proof (induction rule: rtranclp_induct)
  case base
  show ?case using assms by simp
next
  case (step s1 s2)
  then obtain a where a: "a \<noteq> b" "moves a s1 s2" by blast
  then show ?case using step.IH inv_move others_keep [of s1 a s2 b r] by metis
qed

end

interpretation threads: ownership "acts l ls" sound own_by part for l ls
  by unfold_locales (blast intro: acts_sound dest: acts_others)+

lemma started_sound:
  assumes "run_steps (main_steps M argv) (initial_process d) = Inr S"
  shows "sound (started_farm M S :: ('b, 'p, 's) farm)"
proof -
  let ?F = "started_farm M S :: ('b, 'p, 's) farm"
  have ok: "server_ok (srv ?F)" by (rule started_ok [OF assms])
  have "length (conn_table (the_cache ?F)) = 0"
    using startup_facts(3) [OF assms, of ?F, OF refl] startup_facts(1) [OF assms, of ?F, OF refl] init_session_cache_wf
    by (fastforce simp: config_wf_def)
  then have "busy (the_cache ?F) = {}" by (simp add: busy_def conn_table_def)
  moreover have "ran (held ?F) = {}" by (simp add: started_farm_def Let_def)
  moreover have "held ?F t = None" for t by (simp add: started_farm_def Let_def)
  ultimately show ?thesis using ok by (simp add: sound_def owned_def held_slots_def)
qed


section \<open>A session in somebody's hands\<close>

text \<open>For the examples: the server has just been started, a client connects and asks, a parser takes the session.\<close>

lemma step_acts:
  assumes "step P X l ls S S'" and "bio_bounded (p_bio P)" and "ssl_bounded (p_ssl P)" and "\<And>t. held S t = None"
  shows "\<exists>a. acts l ls a S S'"
  using assms(1)
proof (rule stepE)
  fix i i' W assume e: "listen_entry P l ls i (srv S) = Inr (i', W)" and S': "S' = S\<lparr>srv := W\<rparr>"
  have "hands_off P l ls i S"
    using assms(4) by (auto simp: hands_off_def held_fds_def held_slots_def ran_def Let_def split: option.split)
  then show ?thesis using listens [OF assms(2,3) _ e] S' by blast
qed (use assms(4) in \<open>auto intro: takes\<close>)

lemma one_client_bounded: "bio_bounded (p_bio one_client)" "ssl_bounded (p_ssl one_client)"
  by (auto simp: one_client_def chat_platform_def bio_bounded_def chat_bio_def ssl_bounded_def fresh_ssl_def min_def)

lemma run_on: "R\<^sup>*\<^sup>* x y \<Longrightarrow> R y z \<Longrightarrow> R\<^sup>*\<^sup>* x z"
  by (rule rtranclp.rtrancl_into_rtrancl)

lemma parser_at_work:
  fixes F :: "(string \<times> string, unit, (string \<times> string) list) farm"
  assumes j: "alone 0 j (the_cache F)" "idle_job j" "j_fd j = 4" and m: "marked_fds (sw (srv F)) = init_marked_fds 64"
    and xs: "fds (polls (srv F)) = Some xs" "1 < length xs" "fd (xs ! 1) = 4" "1 < pa_count (polls (srv F))"
    and free: "\<And>t. held F t = None" and duty: "duty F 0 = Some handle_a"
  shows "\<exists>F' r. (\<lambda>F F'. \<exists>a. acts 3 (-1) a F F')\<^sup>*\<^sup>* F F' \<and> held F' 0 = Some r"
proof -
  let ?A = "F\<lparr>srv := (srv F)\<lparr>bio_state := \<lambda>_. (lost_request, []), ssl_state := \<lambda>_. ()\<rparr>\<rparr>"
  let ?B = "?A\<lparr>srv := (srv ?A)\<lparr>polls := set_revents (\<lambda>_. POLLIN) (polls (srv ?A))\<rparr>\<rparr>"
  have readable: "readable_entry one_client 3 (-1) 1 4 (srv ?B)"
    using xs by (simp add: readable_entry_def set_revents_def m is_marked_def init_marked_fds_def marks_at_def one_client_def chat_platform_def)
  have B: "bio_client (p_bio one_client) fst snd" "\<And>k. alloc_ok (p_libc one_client) k"
    using chat_bio_client by (simp_all add: one_client_def chat_platform_def)
  have jB: "alone 0 j (the_cache ?B)" using j(1) by simp
  have eB: "readable_entry one_client 3 (-1) 1 (j_fd j) (srv ?B)" using readable j(3) by simp
  have req: "fst (bio_state (srv ?B) (j_fd j)) = lost_request" "lost_request \<noteq> []" "length lost_request < 4096"
    by (simp_all add: lost_request_def)
  obtain C b where C: "step one_client chat_site 3 (-1) ?B C"
    "alone 0 (j\<lparr>j_marks := insert WORK_STATUS_REQUEST_READ (j_marks j), j_buffer := b\<rparr>) (the_cache C)"
    "duty C = duty ?B" "held C = held ?B"
    by (rule arrival [OF B jB j(2) eB req])
  have due: "due (work_stage handle_a) (j\<lparr>j_marks := insert WORK_STATUS_REQUEST_READ (j_marks j), j_buffer := b\<rparr>)"
    using j(2) by (auto simp: due_def idle_job_def)
  obtain r D where D: "step one_client chat_site 3 (-1) C D" "holding 0 0 r (take_job (j\<lparr>j_marks := insert WORK_STATUS_REQUEST_READ (j_marks j), j_buffer := b\<rparr>)) D"
    by (rule take_step [OF C(2) due]) (use C(3,4) duty free in auto)
  have steps: "\<exists>a. acts 3 (-1) a F ?A" "\<exists>a. acts 3 (-1) a ?A ?B"
    using clients [of 3 "-1" F] events [of 3 "-1" ?A] by blast+
  have stepC: "\<exists>a. acts 3 (-1) a ?B C" by (rule step_acts [OF C(1) one_client_bounded]) (simp add: free)
  have stepD: "\<exists>a. acts 3 (-1) a C D" by (rule step_acts [OF D(1) one_client_bounded]) (simp add: C(4) free)
  have "(\<lambda>F F'. \<exists>a. acts 3 (-1) a F F')\<^sup>*\<^sup>* F D"
    by (rule run_on [OF run_on [OF run_on [OF r_into_rtranclp [of "\<lambda>F F'. \<exists>a. acts 3 (-1) a F F'", OF steps(1)] steps(2)] stepC] stepD])
  moreover have "held D 0 = Some r" using D(2) by (simp add: holding_def)
  ultimately show ?thesis by blast
qed

lemma demo_held:
  "\<exists>S F r. run_steps (main_steps (demo_machine (Some [])) [''wind_breaker'']) (initial_process empty_db) = Inr S \<and>
    http_socket_fd S = 3 \<and> https_socket_fd S = -1 \<and>
    (\<lambda>F F'. \<exists>a. acts 3 (-1) a F F')\<^sup>*\<^sup>* (started_farm (demo_machine (Some [])) S :: (string \<times> string, unit, (string \<times> string) list) farm) F \<and>
    held F 0 = Some r"
proof -
  let ?M = "demo_machine (Some [])"
  obtain S where S: "run_steps (main_steps ?M [''wind_breaker'']) (initial_process empty_db) = Inr S" "props S = default_properties"
    "http_socket_fd S = 3" "https_socket_fd S = -1" using demo_start by blast
  let ?F0 = "started_farm ?M S :: (string \<times> string, unit, (string \<times> string) list) farm"
  let ?F1 = "?F0\<lparr>srv := (srv ?F0)\<lparr>polls := set_revents (\<lambda>_. POLLIN) (polls (srv ?F0))\<rparr>\<rparr>"
  note facts = startup_facts [OF S(1), of ?F0, OF refl, unfolded S(2)]
  have L: "p_libc (m_platform ?M) = roomy" by (simp add: demo_machine_def chat_platform_def)
  have size: "session_max_size default_properties = 64" "enable_https default_properties = False" by (simp_all add: default_properties_def)
  obtain tls where sc: "init_session_cache roomy 64 tls = Inr (the_cache ?F0)" using facts(3) unfolding L size by blast
  obtain pa0 where pa: "init_poll_array roomy default_properties 3 pa0 = Inr (poll_table S)"
    using facts(4) unfolding L size S(3) by auto
  have free: "held ?F0 t = None" for t by (simp add: started_farm_def Let_def)
  have duty: "duty ?F0 0 = Some handle_a"
    using facts(5) by (simp add: started_farm_def Let_def default_properties_def worker_indices_eq)
  have one: "init_session_cache roomy 64 tls = Inr (the_cache ?F1)" "marked_fds (sw (srv ?F1)) = init_marked_fds 64"
    "polls (srv ?F1) = set_revents (\<lambda>_. POLLIN) (poll_table S)"
    using sc facts(2) by (simp_all add: size) (simp add: started_farm_def Let_def)
  obtain F2 j xs where F2: "step one_client chat_site 3 (-1) ?F1 F2" "alone 0 j (the_cache F2)" "idle_job j" "j_fd j = 4"
    "marked_fds (sw (srv F2)) = init_marked_fds 64" "fds (polls (srv F2)) = Some xs" "1 < length xs" "fd (xs ! 1) = 4"
    "1 < pa_count (polls (srv F2))" "held F2 = held ?F1" "duty F2 = duty ?F1"
    using one_client_joins [OF one(1,2) pa one(3), of chat_site] by blast
  have free2: "held F2 t = None" for t using F2(10) free by simp
  have duty2: "duty F2 0 = Some handle_a" using F2(11) duty by simp
  obtain F r where F: "(\<lambda>F F'. \<exists>a. acts 3 (-1) a F F')\<^sup>*\<^sup>* F2 F" "held F 0 = Some r"
    using parser_at_work [OF F2(2-9) free2 duty2] by blast
  let ?R = "\<lambda>F F' :: (string \<times> string, unit, (string \<times> string) list) farm. \<exists>a. acts 3 (-1) a F F'"
  have first: "?R ?F0 ?F1" using events [of 3 "-1" ?F0] by blast
  have second: "?R ?F1 F2" by (rule step_acts [OF F2(1) one_client_bounded]) (simp add: free)
  have "?R\<^sup>*\<^sup>* ?F0 F"
    by (rule converse_rtranclp_into_rtranclp [of ?R, OF first converse_rtranclp_into_rtranclp [of ?R, OF second F(1)]])
  then show ?thesis using S F(2) by blast
qed

text \<open>
  C3: Exclusive ownership in the running server. As long as the listener keeps its hands off the
  sessions that workers hold, the sessions marked \<open>PROCESSING\<close> are in every reachable state those that some
  thread holds; two threads never hold the same session; the pointers a thread holds are all those of
  one slot of the table; and a thread that gives its session back does not fail the assertion of
  \<open>push_request\<close>.
\<close>

theorem held_sessions_owned:
  assumes "run_steps (main_steps M argv) (initial_process d) = Inr S"
    and "(\<lambda>F F'. \<exists>a. acts (http_socket_fd S) (https_socket_fd S) a F F')\<^sup>*\<^sup>* (started_farm M S) F"
  shows "busy (the_cache F) = held_slots F \<and>
    (\<forall>t r. held F t = Some r \<longrightarrow> r = slot_return (r_session r) (the_cache F) \<and>
      (\<forall>u r'. held F u = Some r' \<and> r_session r' = r_session r \<longrightarrow> u = t) \<and>
      (\<forall>P st. st \<noteq> WORK_STATUS_REJECTED \<longrightarrow> returns (give_session P t r st F)))"
proof -
  have "sound F" by (rule threads.run_inv [OF assms(2) started_sound [OF assms(1)]])
  then have wf: "cache_wf (the_cache F)" and own: "owned F" by (simp_all add: sound_def server_ok_def)
  have "r = slot_return (r_session r) (the_cache F)" if "held F t = Some r" for t r
    using own that by (auto simp: owned_def ran_def)
  moreover have "u = t" if "held F t = Some r" "held F u = Some r'" "r_session r' = r_session r" for t u r r'
    using own that by (auto simp: owned_def)
  ultimately show ?thesis using own give_returns [OF wf own] by (auto simp: owned_def)
qed

theorem held_sessions_owned_witness:
  "\<exists>S F r. run_steps (main_steps (demo_machine (Some [])) [''wind_breaker'']) (initial_process empty_db) = Inr S \<and>
    (\<lambda>F F'. \<exists>a. acts 3 (-1) a F F')\<^sup>*\<^sup>* (started_farm (demo_machine (Some [])) S :: (string \<times> string, unit, (string \<times> string) list) farm) F \<and>
    held F 0 = Some r \<and> r = slot_return (r_session r) (the_cache F) \<and> busy (the_cache F) = held_slots F"
proof -
  obtain S and F :: "(string \<times> string, unit, (string \<times> string) list) farm" and r where
    D: "run_steps (main_steps (demo_machine (Some [])) [''wind_breaker'']) (initial_process empty_db) = Inr S"
    "http_socket_fd S = 3" "https_socket_fd S = -1"
    "(\<lambda>F F'. \<exists>a. acts 3 (-1) a F F')\<^sup>*\<^sup>* (started_farm (demo_machine (Some [])) S) F" "held F 0 = Some r"
    using demo_held by blast
  then show ?thesis using held_sessions_owned [OF D(1), unfolded D(2,3), OF D(4)] by blast
qed



end
