(* ===== verification/Failure.thy ===== *)
theory Failure
  imports Ownership
begin

text \<open>
  What a failed assertion or a signal does to the process (\<^verbatim>\<open>src/utils/assert2.c\<close>, the \<open>assert\<close> of
  \<^verbatim>\<open>src/data_structures/session.c\<close>, \<open>handle_exit\<close> of \<^verbatim>\<open>src/main.c\<close>): the handler runs in the thread that was
  interrupted, with the mutexes that thread holds.
\<close>

section \<open>The handler\<close>

text \<open>
  How the handler of a signal ends: the process exits with the number of the signal, it waits for a mutex
  that its own thread holds, or an assertion fails in it (what follows then is not modelled).
\<close>

datatype ending = Exits int | Hangs | Asserts abort

text \<open>
  A message of a thread that may hold \<open>session_mutex\<close> or \<open>log_mutex\<close>. A message that is wanted first asks
  \<open>get_session_id_for_thread\<close>, which locks \<open>session_mutex\<close> when there is a table, and then locks
  \<open>log_mutex\<close>. Both are plain mutexes: a thread that locks one twice waits for itself.
\<close>

definition log_by :: "log_sys \<Rightarrow> bool \<Rightarrow> bool \<Rightarrow> log_call \<Rightarrow> 'd process \<Rightarrow> ending + 'd process" where
  "log_by K own_session own_log c S =
     (if lc_level c \<noteq> ERROR \<and> lc_level c < min_level (the_logger S) then Inr S
      else if own_session \<and> session_table S \<noteq> None \<or> own_log then Inl Hangs
      else case log_call_at K c (the_logger S) of
        Inl e \<Rightarrow> Inl (Asserts e)
      | Inr g \<Rightarrow> Inr (S\<lparr>the_logger := g\<rparr>))"

text \<open>
  \<open>handle_exit\<close> in a thread that holds \<open>session_mutex\<close> (\<open>own_session\<close>) or \<open>log_mutex\<close> (\<open>own_log\<close>);
  \<open>close_workers\<close> locks \<open>session_mutex\<close> in \<open>broadcast_session\<close>.
\<close>

definition exit_by :: "log_sys \<Rightarrow> log_call \<Rightarrow>
    (nat \<Rightarrow> bool) \<Rightarrow> (nat \<Rightarrow> int) \<Rightarrow> bool \<Rightarrow> bool \<Rightarrow> int \<Rightarrow> 'd process \<Rightarrow> ending" where
  "exit_by K c join ret own_session own_log signum S =
     (case log_by K own_session own_log
            (c\<lparr>lc_level := INFO, lc_message := ''Socket closed due to signal '' @ get_signal_description signum\<rparr>) S of
        Inl x \<Rightarrow> x
      | Inr S1 \<Rightarrow>
          if Close_workers \<in> set (handle_exit S1) \<and> own_session then Hangs
          else case release_all join ret (handle_exit S1) S1 of
            Inl e \<Rightarrow> Asserts e
          | Inr S2 \<Rightarrow> Exits signum)"

section \<open>Assertions\<close>

definition assertion_text :: "string \<Rightarrow> nat \<Rightarrow> string \<Rightarrow> string \<Rightarrow> string" where
  "assertion_text file line func msg =
     ''Assertion failed: '' @ file @ '':'' @ show_nat line @ '': '' @ func @ '': '' @ msg @ [LF]"

text \<open>
  \<open>assert_\<close> and \<open>assert_log_\<close> of \<^verbatim>\<open>assert2.c\<close>: a message, then \<open>SIGABRT\<close> for the thread itself. \<open>c\<close> is what the
  environment says of the call; \<open>formatted\<close> is the text that \<open>log_error\<close> makes of the format.
\<close>

definition assert_fail :: "log_sys \<Rightarrow> log_call \<Rightarrow> (nat \<Rightarrow> bool) \<Rightarrow> (nat \<Rightarrow> int) \<Rightarrow> bool \<Rightarrow> bool \<Rightarrow>
    string \<Rightarrow> nat \<Rightarrow> string \<Rightarrow> string \<Rightarrow> 'd process \<Rightarrow> ending" where
  "assert_fail K c join ret own_session own_log file line func msg S =
     (case log_by K own_session own_log (c\<lparr>lc_level := ERROR, lc_message := assertion_text file line func msg @ [LF]\<rparr>) S of
        Inl x \<Rightarrow> x
      | Inr S1 \<Rightarrow> exit_by K c join ret own_session own_log SIGABRT S1)"

definition assert_log_fail :: "log_sys \<Rightarrow> log_call \<Rightarrow> (nat \<Rightarrow> bool) \<Rightarrow> (nat \<Rightarrow> int) \<Rightarrow> bool \<Rightarrow> bool \<Rightarrow>
    string \<Rightarrow> nat \<Rightarrow> string \<Rightarrow> string \<Rightarrow> string \<Rightarrow> 'd process \<Rightarrow> ending" where
  "assert_log_fail K c join ret own_session own_log file line func msg formatted S =
     (case log_by K own_session own_log (c\<lparr>lc_level := ERROR, lc_message := formatted\<rparr>) S of
        Inl x \<Rightarrow> x
      | Inr S1 \<Rightarrow> assert_fail K c join ret own_session own_log file line func msg S1)"

text \<open>
  The one of \<^verbatim>\<open>session.c\<close> prints its message, so nothing is locked for it; \<open>symbols\<close> is the back trace, if
  there is memory for it. What matters is whether the assertion stands between \<open>pthread_mutex_lock\<close> and
  \<open>pthread_mutex_unlock\<close>.
\<close>

fun printed_trace :: "nat \<Rightarrow> string list \<Rightarrow> string" where
  "printed_trace i [] = []"
| "printed_trace i (s # ss) = ''  '' @ show_nat i @ '': '' @ s @ [LF] @ printed_trace (i + 1) ss"

definition under_session_mutex :: "string \<Rightarrow> string \<Rightarrow> bool" where
  "under_session_mutex func msg \<longleftrightarrow>
     func \<in> {''reset_session_at_index'', ''init_session_connection'', ''add_to_session'', ''del_from_session''} \<or>
     func \<in> {''push_request'', ''pop_request''} \<and> msg \<in> {''*status_array[i] & WORK_STATUS_PROCESSING'', ''0''}"

definition session_message :: "string list option \<Rightarrow> string \<Rightarrow> nat \<Rightarrow> string \<Rightarrow> string \<Rightarrow> string" where
  "session_message symbols file line func msg =
     assertion_text file line func msg @
        (case symbols of Some (s # ss) \<Rightarrow> ''Backtrace:'' @ [LF] @ printed_trace 0 (s # ss) | _ \<Rightarrow> [])"

definition session_assert :: "log_sys \<Rightarrow> log_call \<Rightarrow> (nat \<Rightarrow> bool) \<Rightarrow> (nat \<Rightarrow> int) \<Rightarrow> string list option \<Rightarrow>
    string \<Rightarrow> nat \<Rightarrow> string \<Rightarrow> string \<Rightarrow> 'd process \<Rightarrow> string \<times> ending" where
  "session_assert K c join ret symbols file line func msg S =
     (session_message symbols file line func msg,
      exit_by K c join ret (under_session_mutex func msg) False SIGABRT S)"

section \<open>Facts\<close>

lemma silent_log:
  assumes "log_mem g = None"
  shows "log_call_at K c g = Inr g"
  using assms by (cases "lc_level c") (simp_all add: log_call_at_def log_message_def)

lemma log_by_keeps:
  assumes "log_by K x y c S = Inr S'"
  shows "\<exists>g. S' = S\<lparr>the_logger := g\<rparr> \<and> (log_mem (the_logger S) = None \<longrightarrow> log_mem g = None)"
proof (cases "S' = S")
  case True
  then show ?thesis by (intro exI [of _ "the_logger S"]) simp
next
  case False
  then obtain g where g: "log_call_at K c (the_logger S) = Inr g" "S' = S\<lparr>the_logger := g\<rparr>"
    using assms by (cases "log_call_at K c (the_logger S)") (simp_all add: log_by_def split: if_splits)
  then show ?thesis using silent_log [of "the_logger S" K c] by (intro exI [of _ g]) simp
qed

text \<open>A thread that holds \<open>session_mutex\<close> does not get through the handler once the workers are there.\<close>

lemma exit_hangs:
  assumes "session_table S \<noteq> None" and "10 \<le> status S"
  shows "exit_by K c join ret True own_log signum S = Hangs"
  using assms by (simp add: exit_by_def log_by_def handle_exit_def)

lemma status_inv_log: "status_inv S \<Longrightarrow> log_mem (the_logger S) \<noteq> None \<longrightarrow> 2 \<le> status S"
  unfolding status_inv_def by (elim conjE, assumption)

lemma status_inv_logger:
  assumes "status_inv S" and "log_mem (the_logger S) = None \<longrightarrow> log_mem g = None"
  shows "status_inv (S\<lparr>the_logger := g\<rparr>)"
proof -
  have 1: "log_mem g \<noteq> None \<longrightarrow> 2 \<le> status S"
    by (rule impI, rule mp [OF status_inv_log [OF assms(1)]], rule notI, drule mp [OF assms(2)], erule notE)
  have 2: "status (S\<lparr>the_logger := g\<rparr>) = status S" "http_socket_fd (S\<lparr>the_logger := g\<rparr>) = http_socket_fd S"
    "https_socket_fd (S\<lparr>the_logger := g\<rparr>) = https_socket_fd S" "marks_table (S\<lparr>the_logger := g\<rparr>) = marks_table S"
    "session_table (S\<lparr>the_logger := g\<rparr>) = session_table S" "poll_table (S\<lparr>the_logger := g\<rparr>) = poll_table S"
    "workers (S\<lparr>the_logger := g\<rparr>) = workers S" "the_logger (S\<lparr>the_logger := g\<rparr>) = g" by simp_all
  show ?thesis using assms(1) unfolding status_inv_def 2 
    apply (elim conjE)
    apply (intro conjI)
    apply assumption+
    by (rule 1)
qed

text \<open>Any other thread: the handler ends the process.\<close>

lemma exit_ends:
  assumes inv: "status_inv S" and calls: "\<forall>i. join i" "\<forall>i. ret i = 0"
    and log: "log_by K False False (c\<lparr>lc_level := INFO, lc_message := ''Socket closed due to signal '' @ get_signal_description signum\<rparr>) S = Inr S1"
  shows "exit_by K c join ret False False signum S = Exits signum"
proof -
  obtain g where S1: "S1 = S\<lparr>the_logger := g\<rparr>" "log_mem (the_logger S) = None \<longrightarrow> log_mem g = None"
    by (rule exE [OF log_by_keeps [OF log]], erule conjE)
  have "status_inv S1" unfolding S1(1) by (rule status_inv_logger [OF inv S1(2)])
  then obtain S2 where "release_all join ret (handle_exit S1) S1 = Inr S2" using exit_clears [OF _ calls] by blast
  then show ?thesis unfolding exit_by_def log by simp
qed

text \<open>
  The assertion of \<open>log_message\<close> itself, on a log that could not be mapped again: it is the one of the C library,
  so the first message is that of the handler.
\<close>

lemma remap_failure_hangs: "min_level (the_logger S) \<le> INFO \<Longrightarrow> exit_by K c join ret own_session True SIGABRT S = Hangs"
  by (drule leD) (simp add: exit_by_def log_by_def)

lemma started_sessions:
  assumes "run_steps (main_steps M argv) (initial_process d) = Inr S"
  shows "session_table S \<noteq> None" and "status S = 10"
proof -
  obtain S1 S2 S3 S4 S5 S6 S7 S8 S9 S10 where steps: "step_properties M argv (initial_process d) = Inr S1"
    "step_logger M S1 = Inr S2" "step_log_file S2 = Inr S3" "step_migrate M S3 = Inr S4" "step_http M S4 = Inr S5"
    "step_https M S5 = Inr S6" "step_ctx M S6 = Inr S7" "step_marks S7 = Inr S8" "step_cache M S8 = Inr S9"
    "step_polls M S9 = Inr S10" "step_workers M S10 = Inr S"
    using assms unfolding main_steps_def run_steps_Inr run_steps.simps(1) sum.inject by (elim exE conjE) (rule that, simp_all only:)
  show "session_table S \<noteq> None"
    using steps(9-11) by (auto simp: step_cache_def step_polls_def step_workers_def)
  show "status S = 10" using steps(11) by (auto simp: step_workers_def)
qed

section \<open>Properties\<close>

text \<open>
  C40: A client that sends more data while its request waits for a worker stops the server of a process that
  has started: the handler finds the session busy and answers -1, the listener then pushes \<open>REJECTED\<close> for a
  session it does not hold, and \<open>push_request\<close> asserts that it does. The assertion fails inside the critical
  section, so the process does not even exit: \<open>handle_exit\<close>, which runs in the same thread, waits for
  \<open>session_mutex\<close>, whatever the level of the log is.
\<close>

theorem early_data_hangs:
  assumes run: "run_steps (main_steps M argv) (initial_process d) = Inr S"
    and wf: "cache_wf (cache (sw W))" and k: "k < session_count (cache (sw W))"
    and j: "j = jobs (cache (sw W)) ! k" "\<not> readable_job j" "WORK_STATUS_PROCESSING \<notin> j_marks j"
    and e: "fds (polls W) = Some xs" "i < length xs" "fd (xs ! i) = j_fd j" "revents (xs ! i) = POLLIN"
    and ok: "is_marked (j_fd j) (marked_fds (sw W)) = Inr False" "p_so_error P 0 (j_fd j) = Some 0"
    and l: "j_fd j \<noteq> listener" "j_fd j \<noteq> listener_ssl"
  shows "listen_entry P listener listener_ssl i W = Inl (Assert_failed ''*status_array[i] & WORK_STATUS_PROCESSING'') \<and>
    session_assert K c join ret symbols file 410 ''push_request''
        ''*status_array[i] & WORK_STATUS_PROCESSING'' (S\<lparr>the_logger := g, session_table := Some (cache (sw W))\<rparr>) =
      (session_message symbols file 410 ''push_request''
        ''*status_array[i] & WORK_STATUS_PROCESSING'', Hangs)"
proof
  show "listen_entry P listener listener_ssl i W = Inl (Assert_failed ''*status_array[i] & WORK_STATUS_PROCESSING'')"
    by (rule early_data_aborts [OF wf k j e ok l])
qed (simp add: session_assert_def under_session_mutex_def exit_hangs started_sessions [OF run])

theorem early_data_hangs_witness:
  "\<exists>S :: script_db process. run_steps (main_steps (demo_machine (Some [])) [''wind_breaker'']) (initial_process empty_db) = Inr S \<and>
    listen_entry demo_platform 5 (-1) 1 (demo_server 2) = Inl (Assert_failed ''*status_array[i] & WORK_STATUS_PROCESSING'') \<and>
    session_assert demo_sys (demo_call INFO []) (\<lambda>_. True) (\<lambda>_. 0) None ''session.c'' 410 ''push_request''
        ''*status_array[i] & WORK_STATUS_PROCESSING'' (S\<lparr>the_logger := the_logger S, session_table := Some (cache (sw (demo_server 2)))\<rparr>) =
      (session_message None ''session.c'' 410 ''push_request'' ''*status_array[i] & WORK_STATUS_PROCESSING'', Hangs)"
proof -
  obtain S where S: "run_steps (main_steps (demo_machine (Some [])) [''wind_breaker'']) (initial_process empty_db) = Inr S"
    using demo_start by (elim exE conjE)
  show ?thesis
    by (rule exI [of _ S], rule conjI [OF S], rule early_data_hangs [OF S demo_server_wf, of 0])
      (simp_all add: demo_server_jobs readable_job_def marks_of_request_read stages_def,
       simp_all add: demo_server_def demo_platform_def is_marked_def marks_at_def init_marked_fds_def,
       simp_all)
qed

end
